(* ===== verification/Prelude.thy ===== *)
theory Prelude
  imports
    Main
    "HOL-Library.Word"
    "HOL-Library.Sublist"
    "HOL-Library.Multiset"
    "HOL-Library.Char_ord"
    "HOL-Library.List_Lexorder"
begin

text \<open>
  Shared vocabulary of the development.

  \<^item> Go calls as state transformers: an operation takes the world and returns a
    \<open>result\<close> (a value, an error, or a panic that unwinds the caller) and the new world.
    \<open>andthen\<close> is the idiom \<^verbatim>\<open>if err != nil { return err }\<close>, \<open>attempt\<close> a call whose
    error branch does something else, \<open>foreach\<close> a \<^verbatim>\<open>for ... range\<close> loop whose body may
    return early.
  \<^item> Go errors carry their dynamic type as far as the code looks at it: \<open>Wrapped\<close> is
    \<^verbatim>\<open>*errors.Error\<close> of go-errors, \<open>Raw\<close> any other type. The code asserts
    \<^verbatim>\<open>err.(*errors.Error)\<close> before logging a stack trace, which panics on a \<open>Raw\<close> error.
  \<^item> The pieces of the standard library the sources use: \<^verbatim>\<open>strings.Split\<close>,
    \<^verbatim>\<open>strconv.Itoa\<close>, \<^verbatim>\<open>FormatUint\<close>, \<^verbatim>\<open>Atoi\<close>, \<^verbatim>\<open>ParseUint\<close> and the iteration order
    of a map, which is a parameter (any permutation of the keys).
  \<^item> Two judgements about operations with compositional rules: \<open>keeps I m\<close> (whatever
    the outcome, \<open>m\<close> keeps \<open>I\<close>) and \<open>triple P m Q E\<close> (from \<open>P\<close>, \<open>m\<close> does not panic
    and ends in \<open>Q\<close> or fails in \<open>E\<close>).
\<close>

section \<open>Results and operations\<close>

datatype error = Wrapped string | Raw string

datatype 'a result = Ok 'a | Err error | Panic

type_synonym ('w, 'a) op = "'w \<Rightarrow> 'a result \<times> 'w"

definition ret :: "'a \<Rightarrow> ('w, 'a) op" where
  "ret x w = (Ok x, w)"

definition fail :: "error \<Rightarrow> ('w, 'a) op" where
  "fail e w = (Err e, w)"

definition panic :: "('w, 'a) op" where
  "panic w = (Panic, w)"

definition attempt ::
  "('w, 'a) op \<Rightarrow> (error \<Rightarrow> ('w, 'b) op) \<Rightarrow> ('a \<Rightarrow> ('w, 'b) op) \<Rightarrow> ('w, 'b) op" where
  "attempt m h f w =
     (case m w of (r, w') \<Rightarrow>
       (case r of Ok x \<Rightarrow> f x w' | Err e \<Rightarrow> h e w' | Panic \<Rightarrow> (Panic, w')))"

definition andthen :: "('w, 'a) op \<Rightarrow> ('a \<Rightarrow> ('w, 'b) op) \<Rightarrow> ('w, 'b) op" where
  "andthen m f = attempt m fail f"

text \<open>\<^verbatim>\<open>err.(*errors.Error).ErrorStack()\<close> before going on with \<open>m\<close>.\<close>

definition errstack :: "error \<Rightarrow> ('w, 'a) op \<Rightarrow> ('w, 'a) op" where
  "errstack e m = (case e of Wrapped _ \<Rightarrow> m | Raw _ \<Rightarrow> panic)"

fun is_wrapped :: "error \<Rightarrow> bool" where
  "is_wrapped (Wrapped _) = True"
| "is_wrapped (Raw _) = False"

text \<open>\<^verbatim>\<open>errors.New(err)\<close>: the error as a \<^verbatim>\<open>*errors.Error\<close>.\<close>

fun errors_New :: "error \<Rightarrow> error" where
  "errors_New (Wrapped s) = Wrapped s"
| "errors_New (Raw s) = Wrapped s"

definition wrap_err :: "('w, 'a) op \<Rightarrow> ('w, 'a) op" where
  "wrap_err m = attempt m (\<lambda>e. fail (errors_New e)) ret"

primrec foreach :: "('a \<Rightarrow> ('w, unit) op) \<Rightarrow> 'a list \<Rightarrow> ('w, unit) op" where
  "foreach f [] = ret ()"
| "foreach f (x # xs) = andthen (f x) (\<lambda>_. foreach f xs)"

text \<open>Reading the world without changing it.\<close>

definition gets :: "('w \<Rightarrow> 'a) \<Rightarrow> ('w, 'a) op" where
  "gets f w = (Ok (f w), w)"

definition modify :: "('w \<Rightarrow> 'w) \<Rightarrow> ('w, unit) op" where
  "modify f w = (Ok (), f w)"

text \<open>An already computed result as an operation.\<close>

definition of_result :: "'a result \<Rightarrow> ('w, 'a) op" where
  "of_result r w = (r, w)"

named_theorems op_defs "definitions of the operation combinators"

declare ret_def [op_defs] fail_def [op_defs] panic_def [op_defs] attempt_def [op_defs]
  andthen_def [op_defs] errstack_def [op_defs] wrap_err_def [op_defs]
  gets_def [op_defs] modify_def [op_defs]

section \<open>Strings, numbers and maps of the standard library\<close>

definition sep :: char where
  "sep = CHR ''|''"

fun split_on :: "char \<Rightarrow> string \<Rightarrow> string list" where
  "split_on c [] = [[]]"
| "split_on c (x # xs) =
     (if x = c then [] # split_on c xs
      else (case split_on c xs of [] \<Rightarrow> [[x]] | y # ys \<Rightarrow> (x # y) # ys))"

definition is_digit :: "char \<Rightarrow> bool" where
  "is_digit c \<longleftrightarrow> 48 \<le> (of_char c :: nat) \<and> (of_char c :: nat) \<le> 57"

definition is_alnum :: "char \<Rightarrow> bool" where
  "is_alnum c \<longleftrightarrow> is_digit c \<or>
     (65 \<le> (of_char c :: nat) \<and> (of_char c :: nat) \<le> 90) \<or>
     (97 \<le> (of_char c :: nat) \<and> (of_char c :: nat) \<le> 122)"

definition digit_char :: "nat \<Rightarrow> char" where
  "digit_char d = char_of (48 + d)"

definition digit_val :: "char \<Rightarrow> nat" where
  "digit_val c = of_char c - 48"

fun FormatUint :: "nat \<Rightarrow> string" where
  "FormatUint n =
     (if n < 10 then [digit_char n] else FormatUint (n div 10) @ [digit_char (n mod 10)])"

declare FormatUint.simps [simp del]

definition Itoa :: "int \<Rightarrow> string" where
  "Itoa i = (if i < 0 then CHR ''-'' # FormatUint (nat (- i)) else FormatUint (nat i))"

fun digits_val :: "nat \<Rightarrow> string \<Rightarrow> nat" where
  "digits_val acc [] = acc"
| "digits_val acc (c # cs) = digits_val (10 * acc + digit_val c) cs"

definition all_digits :: "string \<Rightarrow> bool" where
  "all_digits s \<longleftrightarrow> s \<noteq> [] \<and> list_all is_digit s"

definition ParseUint :: "string \<Rightarrow> nat option" where
  "ParseUint s =
     (if all_digits s \<and> digits_val 0 s < 2 ^ 64 then Some (digits_val 0 s) else None)"

definition Atoi :: "string \<Rightarrow> int option" where
  "Atoi s =
     (let neg = (case s of c # _ \<Rightarrow> c = CHR ''-'' | [] \<Rightarrow> False);
          ds = (case s of c # cs \<Rightarrow> if c = CHR ''-'' \<or> c = CHR ''+'' then cs else s | [] \<Rightarrow> []);
          v = (if neg then - int (digits_val 0 ds) else int (digits_val 0 ds))
      in if all_digits ds \<and> - (2 ^ 63) \<le> v \<and> v < 2 ^ 63 then Some v else None)"

text \<open>
  A Go map is an association list with distinct keys; its order is the order in which
  \<^verbatim>\<open>range\<close> will visit the keys, chosen by a parameter \<open>rng\<close> when the map is built.
\<close>

type_synonym order = "string list \<Rightarrow> string list"

definition perm_order :: "order \<Rightarrow> bool" where
  "perm_order rng \<longleftrightarrow> (\<forall>xs. mset (rng xs) = mset xs)"

fun map_put :: "'k \<Rightarrow> 'v \<Rightarrow> ('k \<times> 'v) list \<Rightarrow> ('k \<times> 'v) list" where
  "map_put k v [] = [(k, v)]"
| "map_put k v ((k', v') # m) = (if k = k' then (k, v) # m else (k', v') # map_put k v m)"

definition range_map :: "order \<Rightarrow> (string \<times> 'v) list \<Rightarrow> (string \<times> 'v) list" where
  "range_map rng m = map (\<lambda>k. (k, the (map_of m k))) (rng (map fst m))"

section \<open>Operations: evaluation, frame and triples\<close>

lemma ret_run [simp]: "ret x w = (Ok x, w)" by (simp add: ret_def)
lemma fail_run [simp]: "fail e w = (Err e, w)" by (simp add: fail_def)
lemma panic_run [simp]: "panic w = (Panic, w)" by (simp add: panic_def)
lemma gets_run [simp]: "gets f w = (Ok (f w), w)" by (simp add: gets_def)
lemma modify_run [simp]: "modify f w = (Ok (), f w)" by (simp add: modify_def)

lemma of_result_run [simp]: "of_result r w = (r, w)" by (simp add: of_result_def)

lemmas op_runs = ret_run fail_run panic_run gets_run modify_run of_result_run

lemma errstack_simps [simp]:
  "errstack (Wrapped s) m = m" "errstack (Raw s) m = panic"
  by (simp_all add: errstack_def)

lemma is_wrapped_errors_New [simp]: "is_wrapped (errors_New e)"
  by (cases e) auto

lemma errstack_wrapped [simp]: "is_wrapped e \<Longrightarrow> errstack e m = m"
  by (cases e) auto

lemma attempt_Ok [simp]: "m w = (Ok x, w') \<Longrightarrow> attempt m h f w = f x w'"
  by (simp add: attempt_def)

lemma attempt_Err [simp]: "m w = (Err e, w') \<Longrightarrow> attempt m h f w = h e w'"
  by (simp add: attempt_def)

lemma attempt_Panic [simp]: "m w = (Panic, w') \<Longrightarrow> attempt m h f w = (Panic, w')"
  by (simp add: attempt_def)

lemma andthen_Ok [simp]: "m w = (Ok x, w') \<Longrightarrow> andthen m f w = f x w'"
  by (simp add: andthen_def)

lemma andthen_Err [simp]: "m w = (Err e, w') \<Longrightarrow> andthen m f w = (Err e, w')"
  by (simp add: andthen_def)

lemma andthen_Panic [simp]: "m w = (Panic, w') \<Longrightarrow> andthen m f w = (Panic, w')"
  by (simp add: andthen_def)

lemma andthen_ret [simp]: "andthen (ret x) f = f x"
  by (rule ext) (simp add: andthen_def attempt_def)

lemma andthen_OkE:
  assumes "andthen m f w = (Ok y, w')"
  obtains x w1 where "m w = (Ok x, w1)" "f x w1 = (Ok y, w')"
  using assms by (auto simp: andthen_def attempt_def split: prod.splits result.splits)

lemma attempt_OkE:
  assumes "attempt m h f w = (Ok y, w')"
  obtains (ok) x w1 where "m w = (Ok x, w1)" "f x w1 = (Ok y, w')"
    | (err) e w1 where "m w = (Err e, w1)" "h e w1 = (Ok y, w')"
  using assms by (auto simp: attempt_def split: prod.splits result.splits)

lemma wrap_err_OkD: "wrap_err m w = (Ok x, w') \<Longrightarrow> m w = (Ok x, w')"
  by (auto simp: wrap_err_def attempt_def split: prod.splits result.splits)

lemma wrap_err_Ok [simp]: "m w = (Ok x, w') \<Longrightarrow> wrap_err m w = (Ok x, w')"
  by (simp add: wrap_err_def)

text \<open>An operation keeps a predicate of the world whatever its outcome.\<close>

definition keeps :: "('w \<Rightarrow> bool) \<Rightarrow> ('w, 'a) op \<Rightarrow> bool" where
  "keeps I m \<longleftrightarrow> (\<forall>w. I w \<longrightarrow> I (snd (m w)))"

named_theorems keeps_intros "compositional rules for keeps"

lemma keepsI: "(\<And>w r w'. I w \<Longrightarrow> m w = (r, w') \<Longrightarrow> I w') \<Longrightarrow> keeps I m"
  by (metis keeps_def prod.collapse)

lemma keepsD: "keeps I m \<Longrightarrow> m w = (r, w') \<Longrightarrow> I w \<Longrightarrow> I w'"
  by (metis keeps_def snd_conv)

lemma keeps_ret [keeps_intros]: "keeps I (ret x)" by (simp add: keeps_def)
lemma keeps_fail [keeps_intros]: "keeps I (fail e)" by (simp add: keeps_def)
lemma keeps_panic [keeps_intros]: "keeps I panic" by (simp add: keeps_def)
lemma keeps_gets [keeps_intros]: "keeps I (gets f)" by (simp add: keeps_def)

lemma keeps_of_result [keeps_intros]: "keeps I (of_result r)" by (simp add: keeps_def)

lemma keeps_attempt [keeps_intros]:
  "keeps I m \<Longrightarrow> (\<And>e. keeps I (h e)) \<Longrightarrow> (\<And>x. keeps I (f x)) \<Longrightarrow> keeps I (attempt m h f)"
  by (auto simp: keeps_def attempt_def split: prod.splits result.splits)

lemma keeps_andthen [keeps_intros]:
  "keeps I m \<Longrightarrow> (\<And>x. keeps I (f x)) \<Longrightarrow> keeps I (andthen m f)"
  unfolding andthen_def by (intro keeps_intros)

lemma keeps_errstack [keeps_intros]: "keeps I m \<Longrightarrow> keeps I (errstack e m)"
  by (cases e) (auto intro: keeps_panic)

lemma keeps_wrap_err [keeps_intros]: "keeps I m \<Longrightarrow> keeps I (wrap_err m)"
  unfolding wrap_err_def by (intro keeps_intros)

lemma keeps_foreach [keeps_intros]: "(\<And>x. keeps I (f x)) \<Longrightarrow> keeps I (foreach f xs)"
  by (induction xs) (auto intro: keeps_intros)

lemma keeps_if [keeps_intros]:
  "(b \<Longrightarrow> keeps I m) \<Longrightarrow> (\<not> b \<Longrightarrow> keeps I n) \<Longrightarrow> keeps I (if b then m else n)"
  by simp

lemma keeps_case_option [keeps_intros]:
  "(x = None \<Longrightarrow> keeps I m) \<Longrightarrow> (\<And>y. x = Some y \<Longrightarrow> keeps I (f y)) \<Longrightarrow>
   keeps I (case x of None \<Rightarrow> m | Some y \<Rightarrow> f y)"
  by (cases x) auto

lemma keeps_case_prod [keeps_intros]:
  "(\<And>a b. x = (a, b) \<Longrightarrow> keeps I (f a b)) \<Longrightarrow> keeps I (case x of (a, b) \<Rightarrow> f a b)"
  by (cases x) auto

text \<open>
  Total correctness: \<open>wp m Q E\<close> holds in the worlds from which \<open>m\<close> does not panic, ends in
  \<open>Q\<close> with its value or in \<open>E\<close> with its error. It is computed through the combinators by
  \<open>wp_simps\<close>; a call is replaced by its specification, a \<open>triple\<close>, with \<open>wp_call\<close>.
\<close>

definition wp ::
  "('w, 'a) op \<Rightarrow> ('a \<Rightarrow> 'w \<Rightarrow> bool) \<Rightarrow> (error \<Rightarrow> 'w \<Rightarrow> bool) \<Rightarrow> 'w \<Rightarrow> bool" where
  "wp m Q E w \<longleftrightarrow>
     (case m w of (r, w') \<Rightarrow>
        (case r of Ok x \<Rightarrow> Q x w' | Err e \<Rightarrow> E e w' | Panic \<Rightarrow> False))"

definition triple ::
  "('w \<Rightarrow> bool) \<Rightarrow> ('w, 'a) op \<Rightarrow> ('a \<Rightarrow> 'w \<Rightarrow> bool) \<Rightarrow> (error \<Rightarrow> 'w \<Rightarrow> bool) \<Rightarrow> bool" where
  "triple P m Q E \<longleftrightarrow> (\<forall>w. P w \<longrightarrow> wp m Q E w)"

named_theorems wp_simps "weakest preconditions of the combinators"

lemma wp_ret [wp_simps]: "wp (ret x) Q E w \<longleftrightarrow> Q x w" by (simp add: wp_def)
lemma wp_fail [wp_simps]: "wp (fail e) Q E w \<longleftrightarrow> E e w" by (simp add: wp_def)
lemma wp_panic [wp_simps]: "wp panic Q E w \<longleftrightarrow> False" by (simp add: wp_def)
lemma wp_gets [wp_simps]: "wp (gets f) Q E w \<longleftrightarrow> Q (f w) w" by (simp add: wp_def)
lemma wp_modify [wp_simps]: "wp (modify f) Q E w \<longleftrightarrow> Q () (f w)" by (simp add: wp_def)

lemma wp_of_result [wp_simps]:
  "wp (of_result (Ok x)) Q E w \<longleftrightarrow> Q x w"
  "wp (of_result (Err e)) Q E w \<longleftrightarrow> E e w"
  "wp (of_result Panic) Q E w \<longleftrightarrow> False"
  by (simp_all add: wp_def)

lemma wp_of_result_case:
  "wp (of_result r) Q E w \<longleftrightarrow> (case r of Ok x \<Rightarrow> Q x w | Err e \<Rightarrow> E e w | Panic \<Rightarrow> False)"
  by (simp add: wp_def)

lemma wp_attempt [wp_simps]:
  "wp (attempt m h f) Q E w \<longleftrightarrow> wp m (\<lambda>x. wp (f x) Q E) (\<lambda>e. wp (h e) Q E) w"
  by (simp add: wp_def attempt_def split: prod.splits result.splits)

lemma wp_andthen [wp_simps]: "wp (andthen m f) Q E w \<longleftrightarrow> wp m (\<lambda>x. wp (f x) Q E) E w"
  by (simp add: wp_def andthen_def attempt_def split: prod.splits result.splits)

lemma wp_wrap_err [wp_simps]: "wp (wrap_err m) Q E w \<longleftrightarrow> wp m Q (\<lambda>e. E (errors_New e)) w"
  by (simp add: wp_def wrap_err_def attempt_def split: prod.splits result.splits)

lemma wp_errstack [wp_simps]: "wp (errstack e m) Q E w \<longleftrightarrow> is_wrapped e \<and> wp m Q E w"
  by (cases e) (simp_all add: wp_panic)

lemma wp_if [wp_simps]:
  "wp (if b then m else n) Q E w \<longleftrightarrow> (b \<longrightarrow> wp m Q E w) \<and> (\<not> b \<longrightarrow> wp n Q E w)"
  by simp

lemma tripleI: "(\<And>w. P w \<Longrightarrow> wp m Q E w) \<Longrightarrow> triple P m Q E"
  by (simp add: triple_def)

lemma tripleI_cases:
  "(\<And>w x w'. P w \<Longrightarrow> m w = (Ok x, w') \<Longrightarrow> Q x w') \<Longrightarrow>
   (\<And>w e w'. P w \<Longrightarrow> m w = (Err e, w') \<Longrightarrow> E e w') \<Longrightarrow>
   (\<And>w w'. P w \<Longrightarrow> m w \<noteq> (Panic, w')) \<Longrightarrow> triple P m Q E"
  by (auto simp: triple_def wp_def split: prod.splits result.splits)

lemma wp_Ok: "wp m Q E w \<Longrightarrow> m w = (Ok x, w') \<Longrightarrow> Q x w'"
  by (simp add: wp_def)

lemma wp_Err: "wp m Q E w \<Longrightarrow> m w = (Err e, w') \<Longrightarrow> E e w'"
  by (simp add: wp_def)

lemma wp_no_Panic: "wp m Q E w \<Longrightarrow> m w \<noteq> (Panic, w')"
  by (auto simp: wp_def)

lemma triple_Ok: "triple P m Q E \<Longrightarrow> P w \<Longrightarrow> m w = (Ok x, w') \<Longrightarrow> Q x w'"
  unfolding triple_def by (blast dest: wp_Ok)

lemma triple_Err: "triple P m Q E \<Longrightarrow> P w \<Longrightarrow> m w = (Err e, w') \<Longrightarrow> E e w'"
  unfolding triple_def by (blast dest: wp_Err)

lemma triple_no_Panic: "triple P m Q E \<Longrightarrow> P w \<Longrightarrow> m w \<noteq> (Panic, w')"
  by (auto simp: triple_def wp_def)

text \<open>What a triple says of one run.\<close>

lemma triple_run:
  assumes "triple P m Q E" "P w" "m w = (r, w')"
  shows "r \<noteq> Panic" "r = Ok x \<Longrightarrow> Q x w'" "r = Err e \<Longrightarrow> E e w'"
  using assms by (auto dest: triple_Ok triple_Err triple_no_Panic)

lemma wp_mono:
  "wp m Q' E' w \<Longrightarrow> (\<And>x w. Q' x w \<Longrightarrow> Q x w) \<Longrightarrow> (\<And>e w. E' e w \<Longrightarrow> E e w) \<Longrightarrow> wp m Q E w"
  by (auto simp: wp_def split: prod.splits result.splits)

lemma wp_call:
  "triple P m Q' E' \<Longrightarrow> P w \<Longrightarrow> (\<And>x w. Q' x w \<Longrightarrow> Q x w) \<Longrightarrow> (\<And>e w. E' e w \<Longrightarrow> E e w) \<Longrightarrow>
   wp m Q E w"
  by (rule wp_mono [of m Q' E']) (auto simp: triple_def)

lemma triple_conseq:
  "triple P' m Q' E' \<Longrightarrow> (\<And>w. P w \<Longrightarrow> P' w) \<Longrightarrow> (\<And>x w. Q' x w \<Longrightarrow> Q x w) \<Longrightarrow>
   (\<And>e w. E' e w \<Longrightarrow> E e w) \<Longrightarrow> triple P m Q E"
  by (rule tripleI, rule wp_call [of P' m Q' E']) auto

lemma triple_seq:
  "triple P m Q E' \<Longrightarrow> (\<And>x w. Q x w \<Longrightarrow> wp (f x) R E w) \<Longrightarrow> (\<And>e w. E' e w \<Longrightarrow> E e w) \<Longrightarrow>
   triple P (andthen m f) R E"
  by (rule tripleI, simp only: wp_andthen, rule wp_call [of P m Q E'])

lemma triple_wrap:
  "triple P m Q E \<Longrightarrow> triple P (wrap_err m) Q (\<lambda>e w. \<exists>e'. e = errors_New e' \<and> E e' w)"
  by (rule tripleI, simp only: wp_wrap_err, rule wp_call [of P m Q E]) auto

text \<open>A well-formed world with the view \<open>V\<close>.\<close>

definition sat :: "('w \<Rightarrow> bool) \<Rightarrow> ('w \<Rightarrow> 'v) \<Rightarrow> 'v \<Rightarrow> 'w \<Rightarrow> bool" where
  "sat I view V w \<longleftrightarrow> I w \<and> view w = V"

lemma sat_view: "I w \<Longrightarrow> sat I view (view w) w"
  by (simp add: sat_def)

lemma sat_inv: "sat I view V w \<Longrightarrow> I w"
  by (simp add: sat_def)

lemma triple_keeps:
  assumes "\<And>v. triple (sat I f v) m (Q v) (E v)"
    and "\<And>v x w. Q v x w \<Longrightarrow> I w" "\<And>v e w. E v e w \<Longrightarrow> I w"
  shows "keeps I m"
proof (rule keepsI)
  fix w r w'
  assume w: "I w" "m w = (r, w')"
  have "wp m (\<lambda>_. I) (\<lambda>_. I) w"
    by (rule wp_call [OF assms(1) sat_view]) (use w assms(2,3) in auto)
  with w(2) show "I w'" by (cases r) (auto simp: wp_def)
qed

text \<open>A loop whose invariant grows with the list of elements already visited.\<close>

lemma triple_foreach:
  assumes step: "\<And>x done. x \<in> set xs \<Longrightarrow> triple (I done) (f x) (\<lambda>_. I (done @ [x])) E"
  shows "triple (I done) (foreach f xs) (\<lambda>_. I (done @ xs)) E"
  using step
proof (induction xs arbitrary: "done")
  case Nil
  then show ?case by (simp add: triple_def wp_def)
next
  case (Cons x xs)
  have rest: "triple (I (done @ [x])) (foreach f xs) (\<lambda>_. I ((done @ [x]) @ xs)) E"
    by (rule Cons.IH) (simp add: Cons.prems)
  have "wp (f x) (\<lambda>_. wp (foreach f xs) (\<lambda>_. I (done @ x # xs)) E) E w" if "I done w" for w
    by (rule wp_call [OF Cons.prems [of x "done"]])
       (use that rest in \<open>auto intro: wp_call [OF rest]\<close>)
  then show ?case by (intro tripleI) (simp add: wp_andthen)
qed

lemma triple_and_run:
  assumes "triple P m Q E" "\<And>w x w'. m w = (Ok x, w') \<Longrightarrow> R x"
  shows "triple P m (\<lambda>x w. Q x w \<and> R x) E"
  using assms by (auto simp: triple_def wp_def split: prod.splits result.splits)

lemma triple_attempt:
  "triple P m Q E' \<Longrightarrow> (\<And>x w. Q x w \<Longrightarrow> wp (f x) R E w) \<Longrightarrow> (\<And>e w. E' e w \<Longrightarrow> wp (h e) R E w) \<Longrightarrow>
   triple P (attempt m h f) R E"
  by (rule tripleI, simp only: wp_attempt, rule wp_call [of P m Q E'])

text \<open>The same when the step may use which elements came before.\<close>

lemma triple_foreach_prefix:
  assumes step: "\<And>x done rest. xs = done @ x # rest \<Longrightarrow> triple (I done) (f x) (\<lambda>_. I (done @ [x])) E"
  shows "triple (I []) (foreach f xs) (\<lambda>_. I xs) E"
proof -
  have "triple (I done) (foreach f ys) (\<lambda>_. I xs) E" if "xs = done @ ys" for "done" ys
    using that
  proof (induction ys arbitrary: "done")
    case (Cons y ys)
    from Cons.IH [of "done @ [y]"] Cons.prems
    have "triple (I (done @ [y])) (foreach f ys) (\<lambda>_. I xs) E" by simp
    then show ?case
      unfolding foreach.simps by (intro triple_seq [OF step [OF Cons.prems]]) (auto simp: triple_def)
  qed (simp add: triple_def wp_def)
  from this [of "[]" xs] show ?thesis by simp
qed

lemma foreach_append:
  "foreach f (xs @ ys) = andthen (foreach f xs) (\<lambda>_. foreach f ys)"
  by (induction xs) (auto simp: andthen_def attempt_def fun_eq_iff split: prod.splits result.splits)

section \<open>Facts about the library functions\<close>

lemma split_on_nonempty [simp]: "split_on c s \<noteq> []"
  by (cases s) (auto split: list.splits)

lemma split_on_no_sep [simp]: "c \<notin> set s \<Longrightarrow> split_on c s = [s]"
  by (induction s) auto

lemma split_on_append:
  "c \<notin> set s \<Longrightarrow> split_on c (s @ c # t) = s # split_on c t"
  by (induction s) auto

lemma split_on_sep_Cons [simp]: "split_on c (c # t) = [] # split_on c t"
  by simp

lemma is_alnum_not_sep: "is_alnum c \<Longrightarrow> c \<noteq> sep"
  by (auto simp: is_alnum_def is_digit_def sep_def)

lemma append_sep_eq:
  "c \<notin> set s \<Longrightarrow> c \<notin> set s' \<Longrightarrow> s @ c # t = s' @ c # t' \<longleftrightarrow> s = s' \<and> t = t'"
proof
  assume fresh: "c \<notin> set s" "c \<notin> set s'" and eq: "s @ c # t = s' @ c # t'"
  then show "s = s' \<and> t = t'"
  proof (induction s arbitrary: s')
    case Nil
    then show ?case by (cases s') auto
  next
    case (Cons a s)
    then show ?case by (cases s') auto
  qed
qed simp

lemma digit_val_char [simp]: "d < 10 \<Longrightarrow> digit_val (digit_char d) = d"
  by (simp add: digit_val_def digit_char_def)

lemma is_digit_char [simp]: "d < 10 \<Longrightarrow> is_digit (digit_char d)"
  by (simp add: is_digit_def digit_char_def)

lemma digits_val_append: "digits_val acc (s @ t) = digits_val (digits_val acc s) t"
  by (induction s arbitrary: acc) auto

lemma FormatUint_digits: "FormatUint n \<noteq> [] \<and> list_all is_digit (FormatUint n)"
proof (induction n rule: FormatUint.induct)
  case (1 n)
  then show ?case
    by (subst FormatUint.simps, subst FormatUint.simps) (auto simp: FormatUint.simps [of n])
qed

lemma all_digits_FormatUint [simp]: "all_digits (FormatUint n)"
  by (simp add: all_digits_def FormatUint_digits)

lemma digits_val_FormatUint [simp]: "digits_val 0 (FormatUint n) = n"
proof (induction n rule: FormatUint.induct)
  case (1 n)
  show ?case
  proof (cases "n < 10")
    case True
    then show ?thesis by (simp add: FormatUint.simps [of n])
  next
    case False
    with "1.IH" show ?thesis by (simp add: FormatUint.simps [of n] digits_val_append)
  qed
qed

lemma FormatUint_inject [simp]: "FormatUint m = FormatUint n \<longleftrightarrow> m = n"
  by (metis digits_val_FormatUint)

lemma FormatUint_no_sign:
  "FormatUint n = c # cs \<Longrightarrow> c \<noteq> CHR ''-'' \<and> c \<noteq> CHR ''+''"
  using FormatUint_digits [of n] by (auto simp: is_digit_def)

lemma ParseUint_FormatUint [simp]: "n < 2 ^ 64 \<Longrightarrow> ParseUint (FormatUint n) = Some n"
  by (simp add: ParseUint_def)

lemma Atoi_FormatUint: "n < 2 ^ 63 \<Longrightarrow> Atoi (FormatUint n) = Some (int n)"
  using FormatUint_no_sign [of n] digits_val_FormatUint [of n] all_digits_FormatUint [of n]
  by (cases "FormatUint n")
     (simp_all add: Atoi_def Let_def all_digits_def del: digits_val_FormatUint all_digits_FormatUint)

text \<open>
  Writing a number and reading it back: the round trip the expiry entries of the naming
  service and the identifiers of appended items rely on.
\<close>

lemma Atoi_Itoa: "- (2 ^ 63) \<le> i \<Longrightarrow> i < 2 ^ 63 \<Longrightarrow> Atoi (Itoa i) = Some i"
proof (cases "i < 0")
  case True
  assume "- (2 ^ 63) \<le> i"
  with True show ?thesis
    by (simp add: Itoa_def Atoi_def Let_def)
next
  case False
  assume "i < 2 ^ 63"
  with False show ?thesis
    using Atoi_FormatUint [of "nat i"] by (simp add: Itoa_def nat_less_iff)
qed

lemma Itoa_not_empty [simp]: "Itoa i \<noteq> []"
  using FormatUint_digits by (auto simp: Itoa_def)

lemma map_of_map_put: "map_of (map_put k v m) = (map_of m)(k \<mapsto> v)"
  by (induction k v m rule: map_put.induct) (auto simp: fun_eq_iff)

lemma fst_map_put: "fst ` set (map_put k v m) = insert k (fst ` set m)"
  by (induction k v m rule: map_put.induct) auto

lemma distinct_map_put: "distinct (map fst m) \<Longrightarrow> distinct (map fst (map_put k v m))"
  by (induction k v m rule: map_put.induct) (auto simp: fst_map_put)

lemma map_put_fresh: "k \<notin> fst ` set m \<Longrightarrow> map_put k v m = m @ [(k, v)]"
  by (induction k v m rule: map_put.induct) auto

lemma perm_order_set: "perm_order rng \<Longrightarrow> set (rng xs) = set xs"
  unfolding perm_order_def by (metis set_mset_mset)

lemma perm_order_distinct: "perm_order rng \<Longrightarrow> distinct (rng xs) = distinct xs"
  unfolding perm_order_def by (metis mset_eq_imp_distinct_iff)

lemma range_map_fst [simp]: "map fst (range_map rng m) = rng (map fst m)"
  by (simp add: range_map_def comp_def)

lemma set_range_map:
  assumes "perm_order rng" "distinct (map fst m)"
  shows "set (range_map rng m) = set m"
  using assms(2) unfolding range_map_def set_map perm_order_set [OF assms(1)]
  by (force simp: image_iff)

lemma distinct_range_map:
  "perm_order rng \<Longrightarrow> distinct (map fst m) \<Longrightarrow> distinct (map fst (range_map rng m))"
  by (simp add: perm_order_distinct)

lemma map_of_range_map:
  assumes "perm_order rng" "distinct (map fst m)"
  shows "map_of (range_map rng m) = map_of m"
  using assms by (subst map_of_inject_set) (simp_all add: set_range_map perm_order_distinct)

declare op_runs [simp del]

end
