(* ===== verification/Fred_Types.thy ===== *)
theory Fred_Types
  imports Prelude
begin

text \<open>
  The data of pkg/fred (items, keygroups, nodes, triggers, methods, roles), its input
  validation, and the three Go interfaces through which its services reach the outside:
  \<open>Store\<close> (pkg/fred/storeservice.go), \<open>NameService\<close> (pkg/fred/nameservice.go) and
  \<open>Client\<close> (pkg/fred/replicationservice.go). An interface value is a record with one
  operation per method, over a world type that stays abstract in the services.
\<close>

section \<open>Data\<close>

text \<open>\<^verbatim>\<open>KeygroupName\<close>, \<^verbatim>\<open>NodeID\<close>, \<^verbatim>\<open>Method\<close> and \<^verbatim>\<open>Role\<close> are Go string types.\<close>

type_synonym KeygroupName = string
type_synonym NodeID = string
type_synonym Method = string
type_synonym Role = string

record Item =
  iKeygroup :: KeygroupName
  iID :: string
  iVal :: string

record Keygroup =
  Name :: KeygroupName
  Mutable :: bool
  Expiry :: int

record Node =
  nID :: NodeID
  nHost :: string

record Trigger =
  tID :: string
  tHost :: string

definition emptyItem :: Item where
  "emptyItem = \<lparr>iKeygroup = [], iID = [], iVal = []\<rparr>"

definition methods :: "Method list" where
  "methods = [''CreateKeygroup'', ''DeleteKeygroup'', ''Read'', ''Update'', ''Delete'',
     ''AddReplica'', ''GetReplica'', ''RemoveReplica'', ''GetAllReplica'', ''GetTrigger'',
     ''AddTrigger'', ''RemoveTrigger'', ''AddUser'', ''RemoveUser'']"

abbreviation ReadKeygroup :: Role where "ReadKeygroup \<equiv> ''R''"
abbreviation WriteKeygroup :: Role where "WriteKeygroup \<equiv> ''W''"
abbreviation ConfigureReplica :: Role where "ConfigureReplica \<equiv> ''C''"
abbreviation ConfigureTrigger :: Role where "ConfigureTrigger \<equiv> ''T''"
abbreviation ConfigureKeygroups :: Role where "ConfigureKeygroups \<equiv> ''K''"

text \<open>The methods of a role; a role that is not a key of the map has none.\<close>

definition permissions :: "Role \<Rightarrow> Method list" where
  "permissions r =
     (if r = ReadKeygroup then [''Read'']
      else if r = WriteKeygroup then [''Update'', ''Delete'']
      else if r = ConfigureReplica then [''AddReplica'', ''GetReplica'', ''RemoveReplica'']
      else if r = ConfigureTrigger then [''GetTrigger'', ''AddTrigger'', ''RemoveTrigger'']
      else if r = ConfigureKeygroups then [''DeleteKeygroup'', ''AddUser'', ''RemoveUser'']
      else [])"

section \<open>Validation\<close>

text \<open>\<^verbatim>\<open>^[a-zA-Z0-9]+$\<close>, which matches the whole string.\<close>

definition reg_MatchString :: "string \<Rightarrow> bool" where
  "reg_MatchString s \<longleftrightarrow> s \<noteq> [] \<and> list_all is_alnum s"

fun checkItem :: "Item list \<Rightarrow> unit result" where
  "checkItem [] = Ok ()"
| "checkItem (p # ps) =
     (if \<not> reg_MatchString (iKeygroup p)
      then Err (Wrapped ''checkItem failed because the keygroup name does not match'')
      else if \<not> reg_MatchString (iID p)
      then Err (Wrapped ''checkItem failed because the ID does not match'')
      else checkItem ps)"

fun checkKeygroup :: "KeygroupName list \<Rightarrow> unit result" where
  "checkKeygroup [] = Ok ()"
| "checkKeygroup (p # ps) =
     (if \<not> reg_MatchString p
      then Err (Wrapped ''checkKeygroup failed because the keygroup name does not match'')
      else checkKeygroup ps)"

fun checkID :: "string list \<Rightarrow> unit result" where
  "checkID [] = Ok ()"
| "checkID (p # ps) =
     (if \<not> reg_MatchString p
      then Err (Wrapped ''checkID failed because the id does not match'')
      else checkID ps)"

definition checkKGandID :: "KeygroupName \<Rightarrow> string \<Rightarrow> unit result" where
  "checkKGandID kg i =
     (let err = checkKeygroup [kg] in if err = Ok () then checkID [i] else err)"

section \<open>The interfaces\<close>

record 'w Store =
  st_Update :: "string \<Rightarrow> string \<Rightarrow> string \<Rightarrow> bool \<Rightarrow> int \<Rightarrow> ('w, unit) op"
  st_Delete :: "string \<Rightarrow> string \<Rightarrow> ('w, unit) op"
  st_Append :: "string \<Rightarrow> string \<Rightarrow> int \<Rightarrow> ('w, string) op"
  st_Read :: "string \<Rightarrow> string \<Rightarrow> ('w, string) op"
  st_ReadSome :: "string \<Rightarrow> string \<Rightarrow> 64 word \<Rightarrow> ('w, (string \<times> string) list) op"
  st_ReadAll :: "string \<Rightarrow> ('w, (string \<times> string) list) op"
  st_IDs :: "string \<Rightarrow> ('w, string list) op"
  st_Exists :: "string \<Rightarrow> string \<Rightarrow> ('w, bool) op"
  st_CreateKeygroup :: "string \<Rightarrow> ('w, unit) op"
  st_DeleteKeygroup :: "string \<Rightarrow> ('w, unit) op"
  st_ExistsKeygroup :: "string \<Rightarrow> ('w, bool) op"
  st_AddKeygroupTrigger :: "string \<Rightarrow> string \<Rightarrow> string \<Rightarrow> ('w, unit) op"
  st_DeleteKeygroupTrigger :: "string \<Rightarrow> string \<Rightarrow> ('w, unit) op"
  st_GetKeygroupTrigger :: "string \<Rightarrow> ('w, (string \<times> string) list) op"
  st_Close :: "('w, unit) op"

text \<open>
  \<^verbatim>\<open>GetKeygroupMembers\<close> can return the members found so far together with an error, and
  callers use both, so its value is a pair. \<^verbatim>\<open>GetUserPermissions\<close> returns a set of methods.
\<close>

record 'w NameService =
  ns_GetNodeID :: NodeID
  ns_RegisterSelf :: "string \<Rightarrow> string \<Rightarrow> ('w, unit) op"
  ns_AddUserPermissions :: "string \<Rightarrow> Method \<Rightarrow> KeygroupName \<Rightarrow> ('w, unit) op"
  ns_RevokeUserPermissions :: "string \<Rightarrow> Method \<Rightarrow> KeygroupName \<Rightarrow> ('w, unit) op"
  ns_GetUserPermissions :: "string \<Rightarrow> KeygroupName \<Rightarrow> ('w, Method list) op"
  ns_IsMutable :: "KeygroupName \<Rightarrow> ('w, bool) op"
  ns_GetExpiry :: "KeygroupName \<Rightarrow> ('w, int) op"
  ns_GetNodeAddress :: "NodeID \<Rightarrow> ('w, string) op"
  ns_GetAllNodes :: "('w, Node list) op"
  ns_GetAllNodesExternal :: "('w, Node list) op"
  ns_ExistsKeygroup :: "KeygroupName \<Rightarrow> ('w, bool) op"
  ns_JoinNodeIntoKeygroup :: "KeygroupName \<Rightarrow> NodeID \<Rightarrow> int \<Rightarrow> ('w, unit) op"
  ns_ExitOtherNodeFromKeygroup :: "KeygroupName \<Rightarrow> NodeID \<Rightarrow> ('w, unit) op"
  ns_CreateKeygroup :: "KeygroupName \<Rightarrow> bool \<Rightarrow> int \<Rightarrow> ('w, unit) op"
  ns_DeleteKeygroup :: "KeygroupName \<Rightarrow> ('w, unit) op"
  ns_GetKeygroupMembers ::
    "KeygroupName \<Rightarrow> bool \<Rightarrow> ('w, (NodeID \<times> int) list \<times> error option) op"
  ns_ReportFailedNode :: "NodeID \<Rightarrow> KeygroupName \<Rightarrow> string \<Rightarrow> ('w, unit) op"
  ns_RequestNodeStatus :: "NodeID \<Rightarrow> ('w, Item list) op"
  ns_GetNodeWithBiggerExpiry :: "KeygroupName \<Rightarrow> ('w, NodeID \<times> string) op"

record 'w Client =
  cl_SendCreateKeygroup :: "string \<Rightarrow> KeygroupName \<Rightarrow> int \<Rightarrow> ('w, unit) op"
  cl_SendDeleteKeygroup :: "string \<Rightarrow> KeygroupName \<Rightarrow> ('w, unit) op"
  cl_SendUpdate :: "string \<Rightarrow> KeygroupName \<Rightarrow> string \<Rightarrow> string \<Rightarrow> ('w, unit) op"
  cl_SendAppend :: "string \<Rightarrow> KeygroupName \<Rightarrow> string \<Rightarrow> string \<Rightarrow> ('w, unit) op"
  cl_SendDelete :: "string \<Rightarrow> KeygroupName \<Rightarrow> string \<Rightarrow> ('w, unit) op"
  cl_SendAddReplica :: "string \<Rightarrow> KeygroupName \<Rightarrow> Node \<Rightarrow> int \<Rightarrow> ('w, unit) op"
  cl_SendRemoveReplica :: "string \<Rightarrow> KeygroupName \<Rightarrow> Node \<Rightarrow> ('w, unit) op"
  cl_SendGetItem :: "string \<Rightarrow> KeygroupName \<Rightarrow> string \<Rightarrow> ('w, Item) op"
  cl_SendGetAllItems :: "string \<Rightarrow> KeygroupName \<Rightarrow> ('w, Item list) op"

section \<open>Facts about names\<close>

lemma valid_no_sep: "reg_MatchString s \<Longrightarrow> sep \<notin> set s"
  using is_alnum_not_sep by (auto simp: reg_MatchString_def list_all_iff)

lemma valid_not_empty: "reg_MatchString s \<Longrightarrow> s \<noteq> []"
  by (simp add: reg_MatchString_def)

lemma checkKeygroup_single [simp]:
  "checkKeygroup [kg] = Ok () \<longleftrightarrow> reg_MatchString kg"
  by simp

lemma checkKGandID_Ok [simp]:
  "checkKGandID kg i = Ok () \<longleftrightarrow> reg_MatchString kg \<and> reg_MatchString i"
  by (simp add: checkKGandID_def Let_def)

lemma checkItem_single [simp]:
  "checkItem [i] = Ok () \<longleftrightarrow> reg_MatchString (iKeygroup i) \<and> reg_MatchString (iID i)"
  by simp

lemma check_no_Panic [simp]:
  "checkKGandID kg i \<noteq> Panic" "checkKeygroup kgs \<noteq> Panic" "checkItem is \<noteq> Panic"
proof -
  show k: "checkKeygroup kgs \<noteq> Panic" for kgs by (induction kgs) auto
  show "checkItem is \<noteq> Panic" by (induction "is") auto
  have "checkID ids \<noteq> Panic" for ids by (induction ids) auto
  with k show "checkKGandID kg i \<noteq> Panic" by (simp add: checkKGandID_def Let_def)
qed

lemma digits_valid: "all_digits s \<Longrightarrow> reg_MatchString s"
  by (auto simp: all_digits_def reg_MatchString_def list_all_iff is_alnum_def)

lemma FormatUint_valid [simp]: "reg_MatchString (FormatUint n)"
  by (simp add: digits_valid)

declare checkItem.simps(2) [simp del] checkKeygroup.simps(2) [simp del]

end
