(* ===== verification/Store_Contract.thy ===== *)
theory Store_Contract
  imports Fred_Types
begin

text \<open>
  What the services of pkg/fred rely on from a \<^verbatim>\<open>fred.Store\<close>: an abstract view of its
  contents (items per keygroup, the keygroups, the triggers per keygroup) and the effect of
  every operation on that view. \<open>healthy\<close> says that the backend never fails on its own
  account; then an error only means that what was asked for is not there.
\<close>

record sview =
  sv_items :: "string \<Rightarrow> string \<rightharpoonup> string"
  sv_kgs :: "string set"
  sv_trigs :: "string \<Rightarrow> string \<rightharpoonup> string"

definition upd_item :: "string \<Rightarrow> string \<Rightarrow> string \<Rightarrow> sview \<Rightarrow> sview" where
  "upd_item kg i v V = V\<lparr>sv_items := (sv_items V)(kg := (sv_items V kg)(i \<mapsto> v))\<rparr>"

definition del_item :: "string \<Rightarrow> string \<Rightarrow> sview \<Rightarrow> sview" where
  "del_item kg i V = V\<lparr>sv_items := (sv_items V)(kg := (sv_items V kg)(i := None))\<rparr>"

definition add_kg :: "string \<Rightarrow> sview \<Rightarrow> sview" where
  "add_kg kg V = V\<lparr>sv_kgs := insert kg (sv_kgs V)\<rparr>"

definition del_kg :: "string \<Rightarrow> sview \<Rightarrow> sview" where
  "del_kg kg V = V\<lparr>sv_items := (sv_items V)(kg := Map.empty), sv_kgs := sv_kgs V - {kg},
     sv_trigs := (sv_trigs V)(kg := Map.empty)\<rparr>"

definition add_trig :: "string \<Rightarrow> string \<Rightarrow> string \<Rightarrow> sview \<Rightarrow> sview" where
  "add_trig kg t h V = V\<lparr>sv_trigs := (sv_trigs V)(kg := (sv_trigs V kg)(t \<mapsto> h))\<rparr>"

definition del_trig :: "string \<Rightarrow> string \<Rightarrow> sview \<Rightarrow> sview" where
  "del_trig kg t V = V\<lparr>sv_trigs := (sv_trigs V)(kg := (sv_trigs V kg)(t := None))\<rparr>"

text \<open>A trigger identifier the storage backends can list again.\<close>

definition valid_tid :: "string \<Rightarrow> bool" where
  "valid_tid t \<longleftrightarrow> t \<noteq> [] \<and> sep \<notin> set t"

text \<open>The first \<open>n\<close> identifiers from \<open>i\<close> on, in byte order.\<close>

definition scan_ids :: "(string \<rightharpoonup> string) \<Rightarrow> string \<Rightarrow> nat \<Rightarrow> string set" where
  "scan_ids m i n = set (take n (sorted_list_of_set {j. m j \<noteq> None \<and> i \<le> j}))"

text \<open>Expiry arguments that are Go \<^verbatim>\<open>int\<close>s.\<close>

definition int64 :: "int \<Rightarrow> bool" where
  "int64 x \<longleftrightarrow> - (2 ^ 63) \<le> x \<and> x < 2 ^ 63"

locale store_spec =
  fixes S :: "'w Store"
    and inv :: "'w \<Rightarrow> bool"
    and view :: "'w \<Rightarrow> sview"
    and healthy :: bool
  assumes kgs_valid: "inv w \<Longrightarrow> kg \<in> sv_kgs (view w) \<Longrightarrow> reg_MatchString kg"
    and update_spec: "reg_MatchString kg \<Longrightarrow> reg_MatchString i \<Longrightarrow> int64 x \<Longrightarrow>
      triple (sat inv view V) (st_Update S kg i v app x)
        (\<lambda>_ w. sat inv view (upd_item kg i v V) w)
        (\<lambda>e w. sat inv view V w \<and> is_wrapped e \<and> (healthy \<longrightarrow> app))"
    and delete_spec: "reg_MatchString kg \<Longrightarrow> reg_MatchString i \<Longrightarrow>
      triple (sat inv view V) (st_Delete S kg i)
        (\<lambda>_ w. sat inv view (del_item kg i V) w)
        (\<lambda>e w. sat inv view V w \<and> is_wrapped e \<and> (healthy \<longrightarrow> sv_items V kg i = None))"
    and append_spec: "reg_MatchString kg \<Longrightarrow> int64 x \<Longrightarrow>
      triple (sat inv view V) (st_Append S kg v x)
        (\<lambda>i w. sat inv view (upd_item kg i v V) w \<and> all_digits i)
        (\<lambda>e w. sat inv view V w \<and> is_wrapped e)"
    and read_spec: "reg_MatchString kg \<Longrightarrow> reg_MatchString i \<Longrightarrow>
      triple (sat inv view V) (st_Read S kg i)
        (\<lambda>v w. sat inv view V w \<and> sv_items V kg i = Some v)
        (\<lambda>e w. sat inv view V w \<and> is_wrapped e \<and> (healthy \<longrightarrow> sv_items V kg i = None))"
    and readSome_spec: "reg_MatchString kg \<Longrightarrow> reg_MatchString i \<Longrightarrow>
      triple (sat inv view V) (st_ReadSome S kg i n)
        (\<lambda>m w. sat inv view V w \<and> distinct (map fst m) \<and>
               map_of m = sv_items V kg |` scan_ids (sv_items V kg) i (unat n))
        (\<lambda>e w. sat inv view V w \<and> is_wrapped e \<and> \<not> healthy)"
    and readAll_spec: "reg_MatchString kg \<Longrightarrow>
      triple (sat inv view V) (st_ReadAll S kg)
        (\<lambda>m w. sat inv view V w \<and> distinct (map fst m) \<and> map_of m = sv_items V kg)
        (\<lambda>e w. sat inv view V w \<and> is_wrapped e \<and> \<not> healthy)"
    and ids_spec: "reg_MatchString kg \<Longrightarrow>
      triple (sat inv view V) (st_IDs S kg)
        (\<lambda>ids w. sat inv view V w \<and> set ids = dom (sv_items V kg) \<and> sorted_wrt (<) ids)
        (\<lambda>e w. sat inv view V w \<and> is_wrapped e \<and> \<not> healthy)"
    and exists_spec:
      "triple (sat inv view V) (st_Exists S kg i)
        (\<lambda>b w. sat inv view V w \<and>
               (reg_MatchString kg \<and> reg_MatchString i \<longrightarrow>
                 (b \<longrightarrow> sv_items V kg i \<noteq> None) \<and> (healthy \<longrightarrow> sv_items V kg i \<noteq> None \<longrightarrow> b)))
        (\<lambda>e w. False)"
    and create_spec: "reg_MatchString kg \<Longrightarrow>
      triple (sat inv view V) (st_CreateKeygroup S kg)
        (\<lambda>_ w. sat inv view (add_kg kg V) w)
        (\<lambda>e w. sat inv view V w \<and> is_wrapped e \<and> \<not> healthy)"
    and deleteKg_spec: "reg_MatchString kg \<Longrightarrow>
      triple (sat inv view V) (st_DeleteKeygroup S kg)
        (\<lambda>_ w. sat inv view (del_kg kg V) w)
        (\<lambda>e w. inv w \<and> (healthy \<longrightarrow> kg \<notin> sv_kgs V))"
    and existsKg_spec:
      "triple (sat inv view V) (st_ExistsKeygroup S kg)
        (\<lambda>b w. sat inv view V w \<and> (b \<longrightarrow> kg \<in> sv_kgs V) \<and>
               (healthy \<longrightarrow> kg \<in> sv_kgs V \<longrightarrow> b))
        (\<lambda>e w. False)"
    and addTrig_spec: "reg_MatchString kg \<Longrightarrow>
      triple (sat inv view V) (st_AddKeygroupTrigger S kg t h)
        (\<lambda>_ w. sat inv view (if valid_tid t then add_trig kg t h V else V) w)
        (\<lambda>e w. sat inv view V w \<and> is_wrapped e \<and> \<not> healthy)"
    and delTrig_spec: "reg_MatchString kg \<Longrightarrow>
      triple (sat inv view V) (st_DeleteKeygroupTrigger S kg t)
        (\<lambda>_ w. sat inv view (if valid_tid t then del_trig kg t V else V) w)
        (\<lambda>e w. sat inv view V w \<and> is_wrapped e \<and> (healthy \<longrightarrow> sv_trigs V kg t = None))"
    and getTrig_spec: "reg_MatchString kg \<Longrightarrow>
      triple (sat inv view V) (st_GetKeygroupTrigger S kg)
        (\<lambda>m w. sat inv view V w \<and> distinct (map fst m) \<and> map_of m = sv_trigs V kg)
        (\<lambda>e w. sat inv view V w \<and> is_wrapped e \<and> \<not> healthy)"
    and items_valid: "inv w \<Longrightarrow> sv_items (view w) kg i = Some v \<Longrightarrow> reg_MatchString kg \<and> reg_MatchString i"

text \<open>
  What appending promises beyond that: as long as the log of a keygroup is in order (\<open>logged\<close>, which
  the backend says of its state), an appended item gets an identifier that was not in use, and the
  log stays in order.
\<close>

locale log_store = store_spec +
  fixes logged :: "string \<Rightarrow> 'a \<Rightarrow> bool"
  assumes append_fresh: "reg_MatchString kg \<Longrightarrow> int64 x \<Longrightarrow> inv w \<Longrightarrow> logged kg w \<Longrightarrow>
      st_Append S kg v x w = (Ok i, w') \<Longrightarrow> sv_items (view w) kg i = None \<and> logged kg w'"
    and existsKg_logged: "inv w \<Longrightarrow> logged kg w \<Longrightarrow> st_ExistsKeygroup S kg' w = (Ok b, w') \<Longrightarrow> logged kg w'"

section \<open>Algebra of the view\<close>

named_theorems sview_simps "effect of the view updates on its fields"

lemma upd_item_fields [sview_simps]:
  "sv_items (upd_item kg i v V) kg' = (if kg' = kg then (sv_items V kg)(i \<mapsto> v) else sv_items V kg')"
  "sv_kgs (upd_item kg i v V) = sv_kgs V" "sv_trigs (upd_item kg i v V) = sv_trigs V"
  by (simp_all add: upd_item_def)

lemma del_item_fields [sview_simps]:
  "sv_items (del_item kg i V) kg' =
     (if kg' = kg then (sv_items V kg)(i := None) else sv_items V kg')"
  "sv_kgs (del_item kg i V) = sv_kgs V" "sv_trigs (del_item kg i V) = sv_trigs V"
  by (simp_all add: del_item_def)

lemma add_kg_fields [sview_simps]:
  "sv_items (add_kg kg V) = sv_items V" "sv_kgs (add_kg kg V) = insert kg (sv_kgs V)"
  "sv_trigs (add_kg kg V) = sv_trigs V"
  by (simp_all add: add_kg_def)

lemma del_kg_fields [sview_simps]:
  "sv_items (del_kg kg V) kg' = (if kg' = kg then Map.empty else sv_items V kg')"
  "sv_kgs (del_kg kg V) = sv_kgs V - {kg}"
  "sv_trigs (del_kg kg V) kg' = (if kg' = kg then Map.empty else sv_trigs V kg')"
  by (simp_all add: del_kg_def)

lemma add_trig_fields [sview_simps]:
  "sv_items (add_trig kg t h V) = sv_items V" "sv_kgs (add_trig kg t h V) = sv_kgs V"
  "sv_trigs (add_trig kg t h V) kg' =
     (if kg' = kg then (sv_trigs V kg)(t \<mapsto> h) else sv_trigs V kg')"
  by (simp_all add: add_trig_def)

lemma del_trig_fields [sview_simps]:
  "sv_items (del_trig kg t V) = sv_items V" "sv_kgs (del_trig kg t V) = sv_kgs V"
  "sv_trigs (del_trig kg t V) kg' =
     (if kg' = kg then (sv_trigs V kg)(t := None) else sv_trigs V kg')"
  by (simp_all add: del_trig_def)

lemma sview_eqI:
  "(\<And>kg. sv_items V kg = sv_items V' kg) \<Longrightarrow> sv_kgs V = sv_kgs V' \<Longrightarrow>
   (\<And>kg. sv_trigs V kg = sv_trigs V' kg) \<Longrightarrow> V = (V' :: sview)"
  by (simp add: fun_eq_iff)

section \<open>What clients get from the contract\<close>

context store_spec
begin

text \<open>Every operation keeps the invariant, on success and on failure.\<close>

lemma store_keeps:
  assumes "reg_MatchString kg"
  shows "reg_MatchString i \<Longrightarrow> int64 x \<Longrightarrow> keeps inv (st_Update S kg i v app x)"
    and "reg_MatchString i \<Longrightarrow> keeps inv (st_Delete S kg i)"
    and "int64 x \<Longrightarrow> keeps inv (st_Append S kg v x)"
    and "reg_MatchString i \<Longrightarrow> keeps inv (st_Read S kg i)"
    and "reg_MatchString i \<Longrightarrow> keeps inv (st_ReadSome S kg i n)"
    and "keeps inv (st_ReadAll S kg)"
    and "keeps inv (st_IDs S kg)"
    and "keeps inv (st_CreateKeygroup S kg)"
    and "keeps inv (st_DeleteKeygroup S kg)"
    and "keeps inv (st_AddKeygroupTrigger S kg t h)"
    and "keeps inv (st_DeleteKeygroupTrigger S kg t)"
    and "keeps inv (st_GetKeygroupTrigger S kg)"
  by (rule triple_keeps, erule update_spec [OF assms] delete_spec [OF assms] append_spec [OF assms]
      read_spec [OF assms] readSome_spec [OF assms]
    | rule triple_keeps, rule readAll_spec [OF assms] ids_spec [OF assms] create_spec [OF assms]
      deleteKg_spec [OF assms] addTrig_spec [OF assms] delTrig_spec [OF assms] getTrig_spec [OF assms]
    | assumption | blast dest: sat_inv)+

lemma exists_keeps: "keeps inv (st_Exists S kg i)" "keeps inv (st_ExistsKeygroup S kg)"
  by (rule triple_keeps, rule exists_spec existsKg_spec, auto dest: sat_inv)+

lemma read_iff:
  assumes "healthy" "inv w" "reg_MatchString kg" "reg_MatchString i"
  shows "fst (st_Read S kg i w) = Ok s \<longleftrightarrow> sv_items (view w) kg i = Some s"
proof -
  have "wp (st_Read S kg i) (\<lambda>v w'. sv_items (view w) kg i = Some v)
      (\<lambda>e w'. sv_items (view w) kg i = None) w"
    by (rule wp_call [OF read_spec [OF assms(3,4), of "view w"]]) (use assms in \<open>auto simp: sat_def\<close>)
  then show ?thesis by (auto simp: wp_def split: prod.splits result.splits)
qed

lemma update_view:
  assumes "inv w" "reg_MatchString kg" "reg_MatchString i" "int64 x"
    and "fst (st_Update S kg i v app x w) = Ok ()"
  shows "inv (snd (st_Update S kg i v app x w)) \<and>
    view (snd (st_Update S kg i v app x w)) = upd_item kg i v (view w)"
  using triple_Ok [OF update_spec [OF assms(2-4), where V = "view w" and v = v]] assms(1,5)
  unfolding sat_def by (metis prod.collapse)

lemma read_update:
  assumes "healthy" "inv w" "int64 x" "reg_MatchString kg" "reg_MatchString i"
    and "reg_MatchString kg'" "reg_MatchString i'" "fst (st_Update S kg i v False x w) = Ok ()"
  shows "fst (st_Read S kg' i' (snd (st_Update S kg i v False x w))) = Ok s \<longleftrightarrow>
    (if kg' = kg \<and> i' = i then s = v else fst (st_Read S kg' i' w) = Ok s)"
  using update_view [OF assms(2,4,5,3,8)] assms
  by (auto simp: read_iff sview_simps)

lemma delete_view:
  assumes "inv w" "reg_MatchString kg" "reg_MatchString i" "fst (st_Delete S kg i w) = Ok ()"
  shows "inv (snd (st_Delete S kg i w)) \<and> view (snd (st_Delete S kg i w)) = del_item kg i (view w)"
  using triple_Ok [OF delete_spec [OF assms(2,3), of "view w"]] assms(1,4)
  unfolding sat_def by (metis prod.collapse)

lemma read_delete:
  assumes "healthy" "inv w" "reg_MatchString kg" "reg_MatchString i"
    and "reg_MatchString kg'" "reg_MatchString i'" "fst (st_Delete S kg i w) = Ok ()"
  shows "fst (st_Read S kg' i' (snd (st_Delete S kg i w))) = Ok s \<longleftrightarrow>
    \<not> (kg' = kg \<and> i' = i) \<and> fst (st_Read S kg' i' w) = Ok s"
  using delete_view [OF assms(2-4,7)] assms by (auto simp: read_iff sview_simps)

lemma deleteKg_view:
  assumes "inv w" "reg_MatchString kg" "fst (st_DeleteKeygroup S kg w) = Ok ()"
  shows "inv (snd (st_DeleteKeygroup S kg w)) \<and>
    view (snd (st_DeleteKeygroup S kg w)) = del_kg kg (view w)"
  using triple_Ok [OF deleteKg_spec [OF assms(2), of "view w"]] assms(1,3)
  unfolding sat_def by (metis prod.collapse)

lemma readAll_value:
  assumes "healthy" "inv w" "reg_MatchString kg"
  shows "\<exists>m. fst (st_ReadAll S kg w) = Ok m \<and> distinct (map fst m) \<and> map_of m = sv_items (view w) kg"
proof -
  have "wp (st_ReadAll S kg)
      (\<lambda>m w'. distinct (map fst m) \<and> map_of m = sv_items (view w) kg) (\<lambda>e w'. False) w"
    by (rule wp_call [OF readAll_spec [OF assms(3), of "view w"]]) (use assms in \<open>auto simp: sat_def\<close>)
  then show ?thesis by (auto simp: wp_def split: prod.splits result.splits)
qed

lemma readSome_value:
  assumes "healthy" "inv w" "reg_MatchString kg" "reg_MatchString i"
  shows "\<exists>m. fst (st_ReadSome S kg i n w) = Ok m \<and> distinct (map fst m) \<and>
    map_of m = sv_items (view w) kg |` scan_ids (sv_items (view w) kg) i (unat n)"
proof -
  have "wp (st_ReadSome S kg i n)
      (\<lambda>m w'. distinct (map fst m) \<and>
         map_of m = sv_items (view w) kg |` scan_ids (sv_items (view w) kg) i (unat n))
      (\<lambda>e w'. False) w"
    by (rule wp_call [OF readSome_spec [OF assms(3,4), of "view w"]]) (use assms in \<open>auto simp: sat_def\<close>)
  then show ?thesis by (auto simp: wp_def split: prod.splits result.splits)
qed

lemma getTrig_value:
  assumes "healthy" "inv w" "reg_MatchString kg"
  shows "\<exists>m. fst (st_GetKeygroupTrigger S kg w) = Ok m \<and> distinct (map fst m) \<and>
    map_of m = sv_trigs (view w) kg"
proof -
  have "wp (st_GetKeygroupTrigger S kg)
      (\<lambda>m w'. distinct (map fst m) \<and> map_of m = sv_trigs (view w) kg) (\<lambda>e w'. False) w"
    by (rule wp_call [OF getTrig_spec [OF assms(3), of "view w"]]) (use assms in \<open>auto simp: sat_def\<close>)
  then show ?thesis by (auto simp: wp_def split: prod.splits result.splits)
qed

end

end
