(* ===== verification/Transport.thy ===== *)
theory Transport
  imports Prelude
begin

text \<open>
  What the clients of pkg/peering, pkg/storageclient and pkg/proxy rely on from
  gRPC, as relations between the method the server runs and the call the client makes.
\<close>

text \<open>
  \<open>transport run call up\<close> is what gRPC documents of one call: it ends as the peer's method ends,
  or, when the peer is not \<open>up\<close>, it can fail, with the method not run or run once.
\<close>

definition transport :: "('w, 'a) op \<Rightarrow> ('w, 'a) op \<Rightarrow> bool \<Rightarrow> bool" where
  "transport run call up \<longleftrightarrow> (\<forall>w.
     (\<exists>e e'. call w = (Err e, snd (run w)) \<and> fst (run w) = Err e') \<or>
     (\<exists>x. fst (run w) = Ok x \<and> call w = run w) \<or>
     fst (run w) = Panic \<or>
     (\<not> up \<and> (\<exists>e. call w = (Err e, w) \<or> call w = (Err e, snd (run w)))))"

lemma transport_triple:
  assumes t: "transport run call up" and run: "triple P run Q E"
  shows "triple P call Q (\<lambda>e w. (\<exists>e'. E e' w) \<or> \<not> up \<and> (P w \<or> (\<exists>x. Q x w)))"
proof (rule tripleI)
  fix w assume w: "P w"
  obtain r w' where rw: "run w = (r, w')" by force
  have "wp run Q E w" using run w by (simp add: triple_def)
  with rw have r: "r \<noteq> Panic" "\<And>x. r = Ok x \<Longrightarrow> Q x w'" "\<And>e. r = Err e \<Longrightarrow> E e w'"
    by (auto simp: wp_def)
  from t have "(\<exists>e e'. call w = (Err e, snd (run w)) \<and> fst (run w) = Err e') \<or>
     (\<exists>x. fst (run w) = Ok x \<and> call w = run w) \<or> fst (run w) = Panic \<or>
     (\<not> up \<and> (\<exists>e. call w = (Err e, w) \<or> call w = (Err e, snd (run w))))"
    by (simp add: transport_def)
  then show "wp call Q (\<lambda>e w. (\<exists>e'. E e' w) \<or> \<not> up \<and> (P w \<or> (\<exists>x. Q x w))) w"
    using r w by (cases r) (auto simp: wp_def rw)
qed

text \<open>
  \<open>carried run call up\<close>: besides, every error of the call is a \<^verbatim>\<open>*errors.Error\<close>, as the clients make it.
\<close>

definition carried :: "('w, 'a) op \<Rightarrow> ('w, 'a) op \<Rightarrow> bool \<Rightarrow> bool" where
  "carried run call up \<longleftrightarrow> transport run call up \<and> (\<forall>w e. fst (call w) = Err e \<longrightarrow> is_wrapped e)"

lemma carried_triple:
  assumes "carried run call up" "triple P run Q E"
  shows "triple P call Q (\<lambda>e w. is_wrapped e \<and> ((\<exists>e'. E e' w) \<or> \<not> up \<and> (P w \<or> (\<exists>x. Q x w))))"
proof (rule tripleI)
  fix w assume "P w"
  with transport_triple [OF _ assms(2), of call up] assms(1)
  have "wp call Q (\<lambda>e w. (\<exists>e'. E e' w) \<or> \<not> up \<and> (P w \<or> (\<exists>x. Q x w))) w"
    by (auto simp: carried_def triple_def)
  then show "wp call Q
      (\<lambda>e w. is_wrapped e \<and> ((\<exists>e'. E e' w) \<or> \<not> up \<and> (P w \<or> (\<exists>x. Q x w)))) w"
    using assms(1) by (auto simp: wp_def carried_def split: prod.splits result.splits)
      (metis fst_conv)+
qed

text \<open>A wrapped call that keeps a part of the answer, over a server that only dresses up the answer.\<close>

lemma carried_wrap:
  assumes "transport (andthen run (\<lambda>x. ret (f x))) call up" "\<And>x. g (f x) = x"
  shows "carried run (andthen (wrap_err call) (\<lambda>y. ret (g y))) up"
  unfolding carried_def transport_def
proof (intro conjI allI impI)
  fix w
  obtain r w1 where r: "run w = (r, w1)" by force
  obtain r' w1' where r': "call w = (r', w1')" by force
  have t: "(\<exists>e e'. call w = (Err e, snd (andthen run (\<lambda>x. ret (f x)) w)) \<and>
       fst (andthen run (\<lambda>x. ret (f x)) w) = Err e') \<or>
     (\<exists>x. fst (andthen run (\<lambda>x. ret (f x)) w) = Ok x \<and> call w = andthen run (\<lambda>x. ret (f x)) w) \<or>
     fst (andthen run (\<lambda>x. ret (f x)) w) = Panic \<or>
     (\<not> up \<and> (\<exists>e. call w = (Err e, w) \<or> call w = (Err e, snd (andthen run (\<lambda>x. ret (f x)) w))))"
    using assms(1) by (simp add: transport_def)
  let ?c = "andthen (wrap_err call) (\<lambda>y. ret (g y))"
  show "(\<exists>e e'. ?c w = (Err e, snd (run w)) \<and> fst (run w) = Err e') \<or>
     (\<exists>x. fst (run w) = Ok x \<and> ?c w = run w) \<or> fst (run w) = Panic \<or>
     (\<not> up \<and> (\<exists>e. ?c w = (Err e, w) \<or> ?c w = (Err e, snd (run w))))"
    using t r r' assms(2) by (cases r; cases r') (auto simp: op_defs)
qed (auto simp: op_defs split: prod.splits result.splits)

text \<open>The same call when the connection works: the same world, the same value.\<close>

lemma carried_up:
  assumes "carried run call True" "run w = (r, w')" "r \<noteq> Panic"
  shows "fst (call w) \<noteq> Panic \<and> snd (call w) = w' \<and> (\<forall>x. fst (call w) = Ok x \<longleftrightarrow> r = Ok x) \<and>
    (\<forall>e. fst (call w) = Err e \<longrightarrow> is_wrapped e)"
  using assms unfolding carried_def transport_def
  by (cases r; cases "call w") (auto dest: spec [of _ w])

end
