(* ===== verification/Remote_Storage.thy ===== *)
theory Remote_Storage
  imports Store_Contract Transport
begin

text \<open>
  The storage backend behind gRPC: pkg/storageserver/storageserver.go serves a \<^verbatim>\<open>fred.Store\<close>,
  pkg/storageclient/storageclient.go is a \<^verbatim>\<open>fred.Store\<close> again whose methods are calls of that
  server. The stubs generated for the service are the parameter record \<open>storage_stub\<close>.

  A streaming method of the server ends with the messages it has sent and its error, if any;
  what the client's \<^verbatim>\<open>Recv\<close> returns one call after the other is a value of type \<open>stream\<close>. The
  server's error is the last thing \<^verbatim>\<open>Recv\<close> returns, after the messages already sent.
\<close>

section \<open>The server (storageserver.go)\<close>

record Response =
  Success :: bool
  Message :: string

record 'w StorageServer =
  ssrv_store :: "'w Store"

definition NewStorageServer :: "'w Store \<Rightarrow> 'w StorageServer" where
  "NewStorageServer store = \<lparr>ssrv_store = store\<rparr>"

definition storage_Update ::
  "'w StorageServer \<Rightarrow> string \<Rightarrow> string \<Rightarrow> string \<Rightarrow> bool \<Rightarrow> int \<Rightarrow> ('w, Response) op" where
  "storage_Update s kg i v app expiry =
     andthen (st_Update (ssrv_store s) kg i v app expiry)
       (\<lambda>_. ret \<lparr>Success = True, Message = []\<rparr>)"

text \<open>The \<^verbatim>\<open>Key\<close> that is returned: keygroup and identifier.\<close>

definition storage_Append ::
  "'w StorageServer \<Rightarrow> string \<Rightarrow> string \<Rightarrow> int \<Rightarrow> ('w, string \<times> string) op" where
  "storage_Append s kg v expiry =
     andthen (st_Append (ssrv_store s) kg v expiry) (\<lambda>res. ret (kg, res))"

definition storage_Delete :: "'w StorageServer \<Rightarrow> string \<Rightarrow> string \<Rightarrow> ('w, Response) op" where
  "storage_Delete s kg i =
     andthen (st_Delete (ssrv_store s) kg i) (\<lambda>_. ret \<lparr>Success = True, Message = []\<rparr>)"

definition storage_Read :: "'w StorageServer \<Rightarrow> string \<Rightarrow> string \<Rightarrow> ('w, string) op" where
  "storage_Read s kg i = st_Read (ssrv_store s) kg i"

text \<open>
  The loop that sends: \<open>send n\<close> is what the \<open>n\<close>-th \<^verbatim>\<open>server.Send\<close> of the stream returns. The result
  is the messages that were sent and the error the method returns.
\<close>

fun send_all :: "(nat \<Rightarrow> error option) \<Rightarrow> nat \<Rightarrow> 'm list \<Rightarrow> 'm list \<times> error option" where
  "send_all send n [] = ([], None)"
| "send_all send n (x # xs) =
     (case send n of
        Some e \<Rightarrow> ([], Some e)
      | None \<Rightarrow> (case send_all send (Suc n) xs of (ys, err) \<Rightarrow> (x # ys, err)))"

definition stream_of ::
  "(nat \<Rightarrow> error option) \<Rightarrow> ('w, 'm list) op \<Rightarrow> ('w, 'm list \<times> error option) op" where
  "stream_of send m = attempt m (\<lambda>e. ret ([], Some e)) (\<lambda>res. ret (send_all send 0 res))"

definition storage_Scan ::
  "'w StorageServer \<Rightarrow> (nat \<Rightarrow> error option) \<Rightarrow> string \<Rightarrow> string \<Rightarrow> 64 word \<Rightarrow>
   ('w, (string \<times> string) list \<times> error option) op" where
  "storage_Scan s send kg i cnt = stream_of send (st_ReadSome (ssrv_store s) kg i cnt)"

definition storage_ReadAll ::
  "'w StorageServer \<Rightarrow> (nat \<Rightarrow> error option) \<Rightarrow> string \<Rightarrow>
   ('w, (string \<times> string) list \<times> error option) op" where
  "storage_ReadAll s send kg = stream_of send (st_ReadAll (ssrv_store s) kg)"

definition storage_IDs ::
  "'w StorageServer \<Rightarrow> (nat \<Rightarrow> error option) \<Rightarrow> string \<Rightarrow> ('w, string list \<times> error option) op" where
  "storage_IDs s send kg = stream_of send (st_IDs (ssrv_store s) kg)"

definition storage_Exists :: "'w StorageServer \<Rightarrow> string \<Rightarrow> string \<Rightarrow> ('w, Response) op" where
  "storage_Exists s kg i =
     andthen (st_Exists (ssrv_store s) kg i) (\<lambda>ex. ret \<lparr>Success = ex, Message = []\<rparr>)"

definition storage_CreateKeygroup :: "'w StorageServer \<Rightarrow> string \<Rightarrow> ('w, Response) op" where
  "storage_CreateKeygroup s kg =
     andthen (st_CreateKeygroup (ssrv_store s) kg) (\<lambda>_. ret \<lparr>Success = True, Message = []\<rparr>)"

definition storage_DeleteKeygroup :: "'w StorageServer \<Rightarrow> string \<Rightarrow> ('w, Response) op" where
  "storage_DeleteKeygroup s kg =
     andthen (st_DeleteKeygroup (ssrv_store s) kg) (\<lambda>_. ret \<lparr>Success = True, Message = []\<rparr>)"

definition storage_ExistsKeygroup :: "'w StorageServer \<Rightarrow> string \<Rightarrow> ('w, Response) op" where
  "storage_ExistsKeygroup s kg =
     andthen (st_ExistsKeygroup (ssrv_store s) kg) (\<lambda>ex. ret \<lparr>Success = ex, Message = []\<rparr>)"

definition storage_AddKeygroupTrigger ::
  "'w StorageServer \<Rightarrow> string \<Rightarrow> string \<Rightarrow> string \<Rightarrow> ('w, Response) op" where
  "storage_AddKeygroupTrigger s kg t h =
     andthen (st_AddKeygroupTrigger (ssrv_store s) kg t h)
       (\<lambda>_. ret \<lparr>Success = True, Message = []\<rparr>)"

definition storage_DeleteKeygroupTrigger ::
  "'w StorageServer \<Rightarrow> string \<Rightarrow> string \<Rightarrow> ('w, Response) op" where
  "storage_DeleteKeygroupTrigger s kg t =
     andthen (st_DeleteKeygroupTrigger (ssrv_store s) kg t)
       (\<lambda>_. ret \<lparr>Success = True, Message = []\<rparr>)"

definition storage_GetKeygroupTrigger ::
  "'w StorageServer \<Rightarrow> (nat \<Rightarrow> error option) \<Rightarrow> string \<Rightarrow>
   ('w, (string \<times> string) list \<times> error option) op" where
  "storage_GetKeygroupTrigger s send kg = stream_of send (st_GetKeygroupTrigger (ssrv_store s) kg)"

section \<open>The client (storageclient.go)\<close>

datatype 'm stream = EOF | Broken error | Recv 'm "'m stream"

record 'w storage_stub =
  db_Update :: "string \<Rightarrow> string \<Rightarrow> string \<Rightarrow> bool \<Rightarrow> int \<Rightarrow> ('w, Response) op"
  db_Append :: "string \<Rightarrow> string \<Rightarrow> int \<Rightarrow> ('w, string \<times> string) op"
  db_Delete :: "string \<Rightarrow> string \<Rightarrow> ('w, Response) op"
  db_Read :: "string \<Rightarrow> string \<Rightarrow> ('w, string) op"
  db_Scan :: "string \<Rightarrow> string \<Rightarrow> 64 word \<Rightarrow> ('w, (string \<times> string) stream) op"
  db_ReadAll :: "string \<Rightarrow> ('w, (string \<times> string) stream) op"
  db_IDs :: "string \<Rightarrow> ('w, string stream) op"
  db_Exists :: "string \<Rightarrow> string \<Rightarrow> ('w, Response) op"
  db_CreateKeygroup :: "string \<Rightarrow> ('w, Response) op"
  db_DeleteKeygroup :: "string \<Rightarrow> ('w, Response) op"
  db_ExistsKeygroup :: "string \<Rightarrow> ('w, Response) op"
  db_AddKeygroupTrigger :: "string \<Rightarrow> string \<Rightarrow> string \<Rightarrow> ('w, Response) op"
  db_DeleteKeygroupTrigger :: "string \<Rightarrow> string \<Rightarrow> ('w, Response) op"
  db_GetKeygroupTrigger :: "string \<Rightarrow> ('w, (string \<times> string) stream) op"
  con_Close :: "('w, unit) op"

record 'w StorageClient =
  dbClient :: "'w storage_stub"

text \<open>The receive loops: into a map (\<^verbatim>\<open>responses[in.Id] = in.Val\<close>) and into a slice.\<close>

fun recv_map :: "(string \<times> string) list \<Rightarrow> (string \<times> string) stream \<Rightarrow> (string \<times> string) list result" where
  "recv_map responses EOF = Ok responses"
| "recv_map responses (Broken e) = Err (errors_New e)"
| "recv_map responses (Recv m st) = recv_map (map_put (fst m) (snd m) responses) st"

fun recv_list :: "string list \<Rightarrow> string stream \<Rightarrow> string list result" where
  "recv_list responses EOF = Ok responses"
| "recv_list responses (Broken e) = Err (errors_New e)"
| "recv_list responses (Recv m st) = recv_list (responses @ [m]) st"

definition sc_Close :: "'w StorageClient \<Rightarrow> ('w, unit) op" where
  "sc_Close c = con_Close (dbClient c)"

definition sc_Read :: "'w StorageClient \<Rightarrow> string \<Rightarrow> string \<Rightarrow> ('w, string) op" where
  "sc_Read c kg i = wrap_err (db_Read (dbClient c) kg i)"

definition sc_ReadSome ::
  "'w StorageClient \<Rightarrow> string \<Rightarrow> string \<Rightarrow> 64 word \<Rightarrow> ('w, (string \<times> string) list) op" where
  "sc_ReadSome c kg i cnt =
     andthen (wrap_err (db_Scan (dbClient c) kg i cnt)) (\<lambda>st. of_result (recv_map [] st))"

definition sc_ReadAll :: "'w StorageClient \<Rightarrow> string \<Rightarrow> ('w, (string \<times> string) list) op" where
  "sc_ReadAll c kg =
     andthen (wrap_err (db_ReadAll (dbClient c) kg)) (\<lambda>st. of_result (recv_map [] st))"

definition sc_Update ::
  "'w StorageClient \<Rightarrow> string \<Rightarrow> string \<Rightarrow> string \<Rightarrow> bool \<Rightarrow> int \<Rightarrow> ('w, unit) op" where
  "sc_Update c kg i v app expiry =
     andthen (wrap_err (db_Update (dbClient c) kg i v app expiry)) (\<lambda>_. ret ())"

definition sc_Append :: "'w StorageClient \<Rightarrow> string \<Rightarrow> string \<Rightarrow> int \<Rightarrow> ('w, string) op" where
  "sc_Append c kg v expiry =
     andthen (wrap_err (db_Append (dbClient c) kg v expiry)) (\<lambda>response. ret (snd response))"

definition sc_Delete :: "'w StorageClient \<Rightarrow> string \<Rightarrow> string \<Rightarrow> ('w, unit) op" where
  "sc_Delete c kg i = andthen (wrap_err (db_Delete (dbClient c) kg i)) (\<lambda>_. ret ())"

definition sc_CreateKeygroup :: "'w StorageClient \<Rightarrow> string \<Rightarrow> ('w, unit) op" where
  "sc_CreateKeygroup c kg = andthen (wrap_err (db_CreateKeygroup (dbClient c) kg)) (\<lambda>_. ret ())"

definition sc_DeleteKeygroup :: "'w StorageClient \<Rightarrow> string \<Rightarrow> ('w, unit) op" where
  "sc_DeleteKeygroup c kg = andthen (wrap_err (db_DeleteKeygroup (dbClient c) kg)) (\<lambda>_. ret ())"

definition sc_IDs :: "'w StorageClient \<Rightarrow> string \<Rightarrow> ('w, string list) op" where
  "sc_IDs c kg = andthen (wrap_err (db_IDs (dbClient c) kg)) (\<lambda>st. of_result (recv_list [] st))"

definition sc_Exists :: "'w StorageClient \<Rightarrow> string \<Rightarrow> string \<Rightarrow> ('w, bool) op" where
  "sc_Exists c kg i =
     attempt (db_Exists (dbClient c) kg i) (\<lambda>_. ret False) (\<lambda>response. ret (Success response))"

definition sc_ExistsKeygroup :: "'w StorageClient \<Rightarrow> string \<Rightarrow> ('w, bool) op" where
  "sc_ExistsKeygroup c kg =
     attempt (db_ExistsKeygroup (dbClient c) kg) (\<lambda>_. ret False) (\<lambda>response. ret (Success response))"

text \<open>\<^verbatim>\<open>Destroy\<close> drops the error of closing the connection.\<close>

definition sc_Destroy :: "'w StorageClient \<Rightarrow> ('w, unit) op" where
  "sc_Destroy c = attempt (con_Close (dbClient c)) (\<lambda>_. ret ()) (\<lambda>_. ret ())"

definition sc_AddKeygroupTrigger ::
  "'w StorageClient \<Rightarrow> string \<Rightarrow> string \<Rightarrow> string \<Rightarrow> ('w, unit) op" where
  "sc_AddKeygroupTrigger c kg t h =
     andthen (wrap_err (db_AddKeygroupTrigger (dbClient c) kg t h)) (\<lambda>_. ret ())"

definition sc_DeleteKeygroupTrigger :: "'w StorageClient \<Rightarrow> string \<Rightarrow> string \<Rightarrow> ('w, unit) op" where
  "sc_DeleteKeygroupTrigger c kg t =
     andthen (wrap_err (db_DeleteKeygroupTrigger (dbClient c) kg t)) (\<lambda>_. ret ())"

definition sc_GetKeygroupTrigger ::
  "'w StorageClient \<Rightarrow> string \<Rightarrow> ('w, (string \<times> string) list) op" where
  "sc_GetKeygroupTrigger c kg =
     andthen (wrap_err (db_GetKeygroupTrigger (dbClient c) kg)) (\<lambda>st. of_result (recv_map [] st))"

definition storageclient_Store :: "'w StorageClient \<Rightarrow> 'w Store" where
  "storageclient_Store c = \<lparr>
     st_Update = sc_Update c, st_Delete = sc_Delete c, st_Append = sc_Append c,
     st_Read = sc_Read c, st_ReadSome = sc_ReadSome c, st_ReadAll = sc_ReadAll c,
     st_IDs = sc_IDs c, st_Exists = sc_Exists c, st_CreateKeygroup = sc_CreateKeygroup c,
     st_DeleteKeygroup = sc_DeleteKeygroup c, st_ExistsKeygroup = sc_ExistsKeygroup c,
     st_AddKeygroupTrigger = sc_AddKeygroupTrigger c,
     st_DeleteKeygroupTrigger = sc_DeleteKeygroupTrigger c,
     st_GetKeygroupTrigger = sc_GetKeygroupTrigger c, st_Close = sc_Close c\<rparr>"

section \<open>Streams\<close>

text \<open>What \<^verbatim>\<open>Recv\<close> returns after the messages \<open>ms\<close> when the method ended with \<open>err\<close>.\<close>

fun stream_with :: "'m list \<Rightarrow> error option \<Rightarrow> 'm stream" where
  "stream_with [] None = EOF"
| "stream_with [] (Some e) = Broken e"
| "stream_with (x # xs) err = Recv x (stream_with xs err)"

text \<open>
  A streaming call: the client receives what the server's method sent and learns whether it
  ended with an error. When the connection does not work, the call can fail with the method
  not run or run once, \<^verbatim>\<open>Send\<close> can fail at any message, and the stream can break off after any of them.
\<close>

definition stream_outcome ::
  "bool \<Rightarrow> 'w \<Rightarrow> ('m list \<times> error option) result \<times> 'w \<Rightarrow> 'm stream result \<times> 'w \<Rightarrow> bool" where
  "stream_outcome up w run call \<longleftrightarrow>
     fst run = Panic \<or>
     (\<exists>ms. fst run = Ok (ms, None) \<and> call = (Ok (stream_with ms None), snd run)) \<or>
     (\<exists>ms e e'. fst run = Ok (ms, Some e) \<and> call = (Ok (stream_with ms (Some e')), snd run)) \<or>
     \<not> up \<and> ((\<exists>ms err e n. fst run = Ok (ms, err) \<and>
               call = (Ok (stream_with (take n ms) (Some e)), snd run)) \<or>
             (\<exists>e. call = (Err e, w) \<or> call = (Err e, snd run)))"

definition stream_transport ::
  "((nat \<Rightarrow> error option) \<Rightarrow> ('w, 'm list \<times> error option) op) \<Rightarrow> ('w, 'm stream) op \<Rightarrow> bool \<Rightarrow> bool" where
  "stream_transport run call up \<longleftrightarrow>
     (\<forall>w. \<exists>send. (up \<longrightarrow> send = (\<lambda>_. None)) \<and> stream_outcome up w (run send w) (call w))"

lemma recv_map_with:
  "recv_map m (stream_with ms None) = Ok (fold (\<lambda>x. map_put (fst x) (snd x)) ms m)"
  "recv_map m (stream_with ms (Some e)) = Err (errors_New e)"
  by (induction ms arbitrary: m) auto

lemma recv_list_with:
  "recv_list xs (stream_with ms None) = Ok (xs @ ms)"
  "recv_list xs (stream_with ms (Some e)) = Err (errors_New e)"
  by (induction ms arbitrary: xs) auto

lemma fold_map_put_distinct:
  "distinct (map fst (m @ ms)) \<Longrightarrow> fold (\<lambda>x. map_put (fst x) (snd x)) ms m = m @ ms"
  by (induction ms arbitrary: m) (auto simp: map_put_fresh)

lemma send_all_works: "send_all (\<lambda>_. None) n xs = (xs, None)"
  by (induction xs arbitrary: n) auto

lemma send_all_done: "send_all send n xs = (ys, None) \<Longrightarrow> ys = xs"
  by (induction xs arbitrary: n ys) (auto split: option.splits prod.splits)

text \<open>
  A receive loop that returns \<open>h ms\<close> after all of \<open>ms\<close> and the error otherwise, over the streaming
  method for \<open>m\<close>: \<open>m\<close> is carried, up to \<open>h\<close>.
\<close>

lemma carried_stream:
  assumes t: "stream_transport (\<lambda>send. stream_of send m) call up"
    and recv: "\<And>ms. recv (stream_with ms None) = Ok (h ms)"
      "\<And>ms e. recv (stream_with ms (Some e)) = Err (errors_New e)"
  shows "carried (andthen m (\<lambda>ms. ret (h ms)))
    (andthen (wrap_err call) (\<lambda>st. of_result (recv st))) up"
  unfolding carried_def transport_def
proof (intro conjI allI impI)
  let ?n = "andthen m (\<lambda>ms. ret (h ms))" and ?c = "andthen (wrap_err call) (\<lambda>st. of_result (recv st))"
  fix w
  obtain r w1 where r: "m w = (r, w1)" by force
  from t obtain send where u: "up \<longrightarrow> send = (\<lambda>_. None)"
    and d: "stream_outcome up w (stream_of send m w) (call w)"
    unfolding stream_transport_def by blast
  have c: "call w = (Ok st, w2) \<Longrightarrow> ?c w = (recv st, w2)"
    "call w = (Err e, w2) \<Longrightarrow> ?c w = (Err (errors_New e), w2)" for st e w2
    by (simp_all add: op_defs of_result_def)
  show "(\<exists>e e'. ?c w = (Err e, snd (?n w)) \<and> fst (?n w) = Err e') \<or>
     (\<exists>x. fst (?n w) = Ok x \<and> ?c w = ?n w) \<or> fst (?n w) = Panic \<or>
     (\<not> up \<and> (\<exists>e. ?c w = (Err e, w) \<or> ?c w = (Err e, snd (?n w))))"
  proof (cases r)
    case (Ok xs)
    obtain ys err where ys: "send_all send 0 xs = (ys, err)" by force
    have e: "up \<Longrightarrow> err = None" "err = None \<Longrightarrow> ys = xs"
      using u ys by (auto simp: send_all_works dest: send_all_done)
    have run: "stream_of send m w = (Ok (ys, err), w1)" and n: "?n w = (Ok (h xs), w1)"
      using r Ok ys by (simp_all add: stream_of_def op_runs)
    show ?thesis using d e unfolding run n stream_outcome_def by (elim disjE exE conjE) (auto dest!: c simp: recv op_runs)
  next
    case (Err e0)
    have run: "stream_of send m w = (Ok ([], Some e0), w1)" and n: "?n w = (Err e0, w1)"
      using r Err by (simp_all add: stream_of_def op_runs)
    show ?thesis using d unfolding run n stream_outcome_def
      by (elim disjE exE conjE) (auto dest!: c simp: recv op_runs simp del: stream_with.simps)
  qed (use r in \<open>simp add: op_runs\<close>)
next
  fix w e
  assume "fst (andthen (wrap_err call) (\<lambda>st. of_result (recv st)) w) = Err e"
  then obtain e' where "e = errors_New e' \<or> (\<exists>st. recv st = Err e)" 
    by (auto simp: op_defs of_result_def split: prod.splits result.splits)
  moreover have "\<exists>ms err. st = stream_with ms err" for st
    by (induction st) (metis stream_with.simps)+
  ultimately show "is_wrapped e" using recv by (metis is_wrapped_errors_New not_None_eq result.inject(2) result.distinct(1))
qed

section \<open>The remote store is a store\<close>

text \<open>
  A client \<open>c\<close> whose connection leads to the server of the store \<open>S\<close>; \<open>up\<close>: the connection works.
\<close>

locale remote_store = store_spec S inv view healthy
  for S :: "'w Store" and inv :: "'w \<Rightarrow> bool" and view :: "'w \<Rightarrow> sview" and healthy :: bool +
  fixes c :: "'w StorageClient"
    and up :: bool
  assumes rpc_Update: "transport (storage_Update (NewStorageServer S) kg i v app x)
      (db_Update (dbClient c) kg i v app x) up"
    and rpc_Append: "transport (storage_Append (NewStorageServer S) kg v x)
      (db_Append (dbClient c) kg v x) up"
    and rpc_Delete: "transport (storage_Delete (NewStorageServer S) kg i)
      (db_Delete (dbClient c) kg i) up"
    and rpc_Read: "transport (storage_Read (NewStorageServer S) kg i) (db_Read (dbClient c) kg i) up"
    and rpc_Scan: "stream_transport (\<lambda>send. storage_Scan (NewStorageServer S) send kg i n)
      (db_Scan (dbClient c) kg i n) up"
    and rpc_ReadAll: "stream_transport (\<lambda>send. storage_ReadAll (NewStorageServer S) send kg)
      (db_ReadAll (dbClient c) kg) up"
    and rpc_IDs: "stream_transport (\<lambda>send. storage_IDs (NewStorageServer S) send kg)
      (db_IDs (dbClient c) kg) up"
    and rpc_Exists: "transport (storage_Exists (NewStorageServer S) kg i)
      (db_Exists (dbClient c) kg i) up"
    and rpc_CreateKeygroup: "transport (storage_CreateKeygroup (NewStorageServer S) kg)
      (db_CreateKeygroup (dbClient c) kg) up"
    and rpc_DeleteKeygroup: "transport (storage_DeleteKeygroup (NewStorageServer S) kg)
      (db_DeleteKeygroup (dbClient c) kg) up"
    and rpc_ExistsKeygroup: "transport (storage_ExistsKeygroup (NewStorageServer S) kg)
      (db_ExistsKeygroup (dbClient c) kg) up"
    and rpc_AddTrigger: "transport (storage_AddKeygroupTrigger (NewStorageServer S) kg t h)
      (db_AddKeygroupTrigger (dbClient c) kg t h) up"
    and rpc_DeleteTrigger: "transport (storage_DeleteKeygroupTrigger (NewStorageServer S) kg t)
      (db_DeleteKeygroupTrigger (dbClient c) kg t) up"
    and rpc_GetTrigger: "stream_transport (\<lambda>send. storage_GetKeygroupTrigger (NewStorageServer S) send kg)
      (db_GetKeygroupTrigger (dbClient c) kg) up"
begin

text \<open>Each method of the client is the method of the store, carried.\<close>

abbreviation as_map :: "(string \<times> string) list \<Rightarrow> (string \<times> string) list" where
  "as_map ms \<equiv> fold (\<lambda>x. map_put (fst x) (snd x)) ms []"

lemma unit_carried:
  "carried (st_Update S kg i v app x) (sc_Update c kg i v app x) up"
  "carried (st_Delete S kg i) (sc_Delete c kg i) up"
  "carried (st_CreateKeygroup S kg) (sc_CreateKeygroup c kg) up"
  "carried (st_DeleteKeygroup S kg) (sc_DeleteKeygroup c kg) up"
  "carried (st_AddKeygroupTrigger S kg t h) (sc_AddKeygroupTrigger c kg t h) up"
  "carried (st_DeleteKeygroupTrigger S kg t) (sc_DeleteKeygroupTrigger c kg t) up"
  using rpc_Update rpc_Delete rpc_CreateKeygroup rpc_DeleteKeygroup rpc_AddTrigger rpc_DeleteTrigger
  by (auto simp: sc_Update_def sc_Delete_def sc_CreateKeygroup_def sc_DeleteKeygroup_def
      sc_AddKeygroupTrigger_def sc_DeleteKeygroupTrigger_def storage_Update_def storage_Delete_def
      storage_CreateKeygroup_def storage_DeleteKeygroup_def storage_AddKeygroupTrigger_def
      storage_DeleteKeygroupTrigger_def NewStorageServer_def intro!: carried_wrap)

lemma Append_carried: "carried (st_Append S kg v x) (sc_Append c kg v x) up"
  unfolding sc_Append_def
  by (rule carried_wrap [where f = "\<lambda>res. (kg, res)"])
     (use rpc_Append in \<open>simp_all add: storage_Append_def NewStorageServer_def\<close>)

lemma Read_carried: "carried (st_Read S kg i) (sc_Read c kg i) up"
proof -
  have "andthen m (\<lambda>x. ret x) = m" for m :: "('w, string) op"
    by (rule ext) (auto simp: op_defs split: prod.splits result.splits)
  then show ?thesis
    using carried_wrap [of "st_Read S kg i" "\<lambda>x. x" _ up "\<lambda>x. x"] rpc_Read [of kg i]
    by (simp add: sc_Read_def storage_Read_def NewStorageServer_def)
qed

lemma stream_carried:
  "carried (andthen (st_ReadSome S kg i n) (\<lambda>ms. ret (as_map ms))) (sc_ReadSome c kg i n) up"
  "carried (andthen (st_ReadAll S kg) (\<lambda>ms. ret (as_map ms))) (sc_ReadAll c kg) up"
  "carried (andthen (st_GetKeygroupTrigger S kg) (\<lambda>ms. ret (as_map ms))) (sc_GetKeygroupTrigger c kg) up"
  "carried (andthen (st_IDs S kg) (\<lambda>ids. ret ([] @ ids))) (sc_IDs c kg) up"
  unfolding sc_ReadSome_def sc_ReadAll_def sc_GetKeygroupTrigger_def sc_IDs_def
  using rpc_Scan [of kg i n] rpc_ReadAll [of kg] rpc_GetTrigger [of kg] rpc_IDs [of kg]
  by (auto simp: storage_Scan_def storage_ReadAll_def storage_GetKeygroupTrigger_def storage_IDs_def
      NewStorageServer_def intro!: carried_stream [where h = "\<lambda>ids. ids"]
      carried_stream [where h = as_map] recv_map_with recv_list_with recv_list_with [of "[]", simplified])

end

text \<open>A map with distinct keys arrives as it was sent.\<close>

lemma triple_as_map:
  assumes "triple P m (\<lambda>ms w. Q ms w \<and> distinct (map fst ms) \<and> R ms) E"
  shows "triple P (andthen m (\<lambda>ms. ret (fold (\<lambda>x. map_put (fst x) (snd x)) ms [])))
    (\<lambda>ms w. Q ms w \<and> distinct (map fst ms) \<and> R ms) E"
  by (rule triple_seq [OF assms]) (auto simp: wp_ret fold_map_put_distinct [of "[]", simplified])

text \<open>\<^verbatim>\<open>Exists\<close> and \<^verbatim>\<open>ExistsKeygroup\<close> answer false when the call fails.\<close>

lemma triple_exists:
  assumes "transport (andthen run (\<lambda>ex. ret \<lparr>Success = ex, Message = []\<rparr>)) call up"
    and "triple P run Q (\<lambda>_ _. False)"
  shows "triple P (attempt call (\<lambda>_. ret False) (\<lambda>response. ret (Success response)))
    (\<lambda>b w. Q b w \<or> \<not> b \<and> \<not> up \<and> (P w \<or> (\<exists>b. Q b w))) (\<lambda>_ _. False)"
proof (rule tripleI)
  fix w assume w: "P w"
  have "triple P (andthen run (\<lambda>ex. ret \<lparr>Success = ex, Message = []\<rparr>)) (\<lambda>r w. Q (Success r) w) (\<lambda>_ _. False)"
    by (rule triple_seq [OF assms(2)]) (auto simp: wp_ret)
  note t = transport_triple [OF assms(1) this]
  show "wp (attempt call (\<lambda>_. ret False) (\<lambda>response. ret (Success response)))
      (\<lambda>b w. Q b w \<or> \<not> b \<and> \<not> up \<and> (P w \<or> (\<exists>b. Q b w))) (\<lambda>_ _. False) w"
    unfolding wp_attempt wp_ret by (rule wp_call [OF t w]) auto
qed

context remote_store
begin

text \<open>
  Over any connection: a call that succeeds had its effect; a call that fails had none, or, when the
  connection does not work, possibly the whole effect, once.
\<close>

abbreviation unsure :: "sview \<Rightarrow> sview \<Rightarrow> error \<Rightarrow> 'w \<Rightarrow> bool" where
  "unsure V V' \<equiv> \<lambda>e w. is_wrapped e \<and> (sat inv view V w \<or> \<not> up \<and> sat inv view V' w)"

lemma remote_update_at:
  "reg_MatchString kg \<Longrightarrow> reg_MatchString i \<Longrightarrow> int64 x \<Longrightarrow>
   triple (sat inv view V) (sc_Update c kg i v app x)
     (\<lambda>_ w. sat inv view (upd_item kg i v V) w) (unsure V (upd_item kg i v V))"
  by (rule triple_conseq [OF carried_triple [OF unit_carried(1) update_spec]]) auto

lemma remote_delete_at:
  "reg_MatchString kg \<Longrightarrow> reg_MatchString i \<Longrightarrow>
   triple (sat inv view V) (sc_Delete c kg i)
     (\<lambda>_ w. sat inv view (del_item kg i V) w) (unsure V (del_item kg i V))"
  by (rule triple_conseq [OF carried_triple [OF unit_carried(2) delete_spec]]) auto

lemma remote_append_at:
  "reg_MatchString kg \<Longrightarrow> int64 x \<Longrightarrow>
   triple (sat inv view V) (sc_Append c kg v x)
     (\<lambda>i w. sat inv view (upd_item kg i v V) w \<and> all_digits i)
     (\<lambda>e w. is_wrapped e \<and> (sat inv view V w \<or>
        \<not> up \<and> (\<exists>i. sat inv view (upd_item kg i v V) w \<and> all_digits i)))"
  by (rule triple_conseq [OF carried_triple [OF Append_carried append_spec]]) auto

end

text \<open>With a connection that works, the client is a store in its own right.\<close>

locale remote_store_up = remote_store S inv view healthy c True
  for S :: "'w Store" and inv :: "'w \<Rightarrow> bool" and view :: "'w \<Rightarrow> sview" and healthy :: bool
    and c :: "'w StorageClient"

lemmas via_conn = triple_conseq [OF carried_triple]

sublocale remote_store_up \<subseteq> remote: store_spec "storageclient_Store c" inv view healthy
proof (unfold_locales, unfold storageclient_Store_def Store.simps, goal_cases)
  case (1 w kg)
  then show ?case by (rule kgs_valid)
next
  case (2 kg i x V v app)
  then show ?case by (intro via_conn [OF unit_carried(1) update_spec]) auto
next
  case (3 kg i V)
  then show ?case by (intro via_conn [OF unit_carried(2) delete_spec]) auto
next
  case (4 kg x V v)
  then show ?case by (intro via_conn [OF Append_carried append_spec]) auto
next
  case (5 kg i V)
  then show ?case by (intro via_conn [OF Read_carried read_spec]) auto
next
  case (6 kg i V n)
  then show ?case by (intro via_conn [OF stream_carried(1) triple_as_map [OF readSome_spec]]) auto
next
  case (7 kg V)
  then show ?case by (intro via_conn [OF stream_carried(2) triple_as_map [OF readAll_spec]]) auto
next
  case (8 kg V)
  have "triple (sat inv view V) (andthen (st_IDs S kg) (\<lambda>ids. ret ([] @ ids)))
        (\<lambda>ids w. sat inv view V w \<and> set ids = dom (sv_items V kg) \<and> sorted_wrt (<) ids)
        (\<lambda>e w. sat inv view V w \<and> is_wrapped e \<and> \<not> healthy)"
    by (rule triple_seq [OF ids_spec [OF 8]]) (auto simp: wp_ret)
  from carried_triple [OF stream_carried(4) this] show ?case by (rule triple_conseq) auto
next
  case (9 V kg i)
  show ?case unfolding sc_Exists_def
    by (rule triple_conseq [OF triple_exists [OF rpc_Exists [unfolded storage_Exists_def
          NewStorageServer_def StorageServer.simps] exists_spec]]) auto
next
  case (10 kg V)
  then show ?case by (intro via_conn [OF unit_carried(3) create_spec]) auto
next
  case (11 kg V)
  then show ?case by (intro via_conn [OF unit_carried(4) deleteKg_spec]) auto
next
  case (12 V kg)
  show ?case unfolding sc_ExistsKeygroup_def
    by (rule triple_conseq [OF triple_exists [OF rpc_ExistsKeygroup [unfolded storage_ExistsKeygroup_def
          NewStorageServer_def StorageServer.simps] existsKg_spec]]) auto
next
  case (13 kg V t h)
  then show ?case by (intro via_conn [OF unit_carried(5) addTrig_spec]) auto
next
  case (14 kg V t)
  then show ?case by (intro via_conn [OF unit_carried(6) delTrig_spec]) auto
next
  case (15 kg V)
  then show ?case by (intro via_conn [OF stream_carried(3) triple_as_map [OF getTrig_spec]]) auto
next
  case (16 w kg i v)
  then show ?case by (rule items_valid)
qed

text \<open>
  The remote operation does in the world \<open>w\<close> what the local one does, with its error wrapped.
\<close>

definition agrees :: "'w \<Rightarrow> ('w, 'a) op \<Rightarrow> ('w, 'a) op \<Rightarrow> bool" where
  "agrees w local remote \<longleftrightarrow> fst (remote w) \<noteq> Panic \<and> snd (remote w) = snd (local w) \<and>
     (\<forall>x. fst (remote w) = Ok x \<longleftrightarrow> fst (local w) = Ok x) \<and>
     (\<forall>e. fst (remote w) = Err e \<longrightarrow> is_wrapped e)"

lemma carried_agrees:
  assumes "carried run call True" "triple P run Q E" "P w"
  shows "agrees w run call"
proof -
  obtain r w' where r: "run w = (r, w')" by force
  with triple_run(1) [OF assms(2,3)] have "r \<noteq> Panic" by blast
  with carried_up [OF assms(1) r this] r show ?thesis
    by (cases r; cases "fst (call w)") (auto simp: agrees_def)
qed

lemma carried_agrees_up_to:
  assumes "carried (andthen run (\<lambda>ms. ret (h ms))) call True" "triple P run Q E" "P w"
    and "\<And>ms w. Q ms w \<Longrightarrow> h ms = ms"
  shows "agrees w run call"
proof -
  have "triple P (andthen run (\<lambda>ms. ret (h ms))) (\<lambda>_ _. True) (\<lambda>_ _. True)"
    by (rule triple_seq [OF assms(2)]) (auto simp: wp_ret)
  from carried_agrees [OF assms(1) this assms(3)]
  have a: "agrees w (andthen run (\<lambda>ms. ret (h ms))) call" .
  obtain r w' where r: "run w = (r, w')" by force
  with triple_run [OF assms(2,3) r] assms(4) have "andthen run (\<lambda>ms. ret (h ms)) w = run w"
    by (cases r) (auto simp: op_runs)
  with a show ?thesis by (simp add: agrees_def)
qed

lemma exists_agrees:
  assumes "transport (andthen run (\<lambda>ex. ret \<lparr>Success = ex, Message = []\<rparr>)) call True"
    and "triple P run Q (\<lambda>_ _. False)" "P w"
  shows "agrees w run (attempt call (\<lambda>_. ret False) (\<lambda>response. ret (Success response)))"
proof -
  obtain r w' where r: "run w = (r, w')" by force
  with triple_run [OF assms(2,3) r] obtain b where "run w = (Ok b, w')" by (cases r) auto
  with assms(1) have "call w = (Ok \<lparr>Success = b, Message = []\<rparr>, w')"
    unfolding transport_def by (auto simp: op_runs dest!: spec [of _ w])
  with \<open>run w = (Ok b, w')\<close> show ?thesis by (simp add: agrees_def op_runs)
qed

context remote_store_up
begin

lemma remote_refines: "store_spec (storageclient_Store c) inv view healthy"
  by (rule remote.store_spec_axioms)

lemma agrees_items:
  assumes w: "inv w" and n: "reg_MatchString kg" "reg_MatchString i" and x: "int64 x"
  shows "agrees w (st_Update S kg i v app x) (sc_Update c kg i v app x)"
    and "agrees w (st_Delete S kg i) (sc_Delete c kg i)"
    and "agrees w (st_Append S kg v x) (sc_Append c kg v x)"
    and "agrees w (st_Read S kg i) (sc_Read c kg i)"
    and "agrees w (st_ReadSome S kg i cnt) (sc_ReadSome c kg i cnt)"
    and "agrees w (st_ReadAll S kg) (sc_ReadAll c kg)"
    and "agrees w (st_IDs S kg) (sc_IDs c kg)"
    and "agrees w (st_Exists S kg i) (sc_Exists c kg i)"
proof -
  have at: "sat inv view (view w) w" using w by (rule sat_view)
  show "agrees w (st_Update S kg i v app x) (sc_Update c kg i v app x)"
    by (rule carried_agrees [OF unit_carried(1) update_spec [OF n x] at])
  show "agrees w (st_Delete S kg i) (sc_Delete c kg i)"
    by (rule carried_agrees [OF unit_carried(2) delete_spec [OF n] at])
  show "agrees w (st_Append S kg v x) (sc_Append c kg v x)"
    by (rule carried_agrees [OF Append_carried append_spec [OF n(1) x] at])
  show "agrees w (st_Read S kg i) (sc_Read c kg i)"
    by (rule carried_agrees [OF Read_carried read_spec [OF n] at])
  show "agrees w (st_ReadSome S kg i cnt) (sc_ReadSome c kg i cnt)"
    by (rule carried_agrees_up_to [OF stream_carried(1) readSome_spec [OF n] at])
       (simp add: fold_map_put_distinct [of "[]", simplified])
  show "agrees w (st_ReadAll S kg) (sc_ReadAll c kg)"
    by (rule carried_agrees_up_to [OF stream_carried(2) readAll_spec [OF n(1)] at])
       (simp add: fold_map_put_distinct [of "[]", simplified])
  show "agrees w (st_IDs S kg) (sc_IDs c kg)"
    by (rule carried_agrees_up_to [OF stream_carried(4) ids_spec [OF n(1)] at]) simp
  show "agrees w (st_Exists S kg i) (sc_Exists c kg i)"
    unfolding sc_Exists_def
    by (rule exists_agrees [OF rpc_Exists [unfolded storage_Exists_def NewStorageServer_def
          StorageServer.simps] exists_spec at])
qed

lemma agrees_keygroups:
  assumes w: "inv w" and n: "reg_MatchString kg"
  shows "agrees w (st_CreateKeygroup S kg) (sc_CreateKeygroup c kg)"
    and "agrees w (st_DeleteKeygroup S kg) (sc_DeleteKeygroup c kg)"
    and "agrees w (st_ExistsKeygroup S kg) (sc_ExistsKeygroup c kg)"
    and "agrees w (st_AddKeygroupTrigger S kg t h) (sc_AddKeygroupTrigger c kg t h)"
    and "agrees w (st_DeleteKeygroupTrigger S kg t) (sc_DeleteKeygroupTrigger c kg t)"
    and "agrees w (st_GetKeygroupTrigger S kg) (sc_GetKeygroupTrigger c kg)"
proof -
  have at: "sat inv view (view w) w" using w by (rule sat_view)
  show "agrees w (st_CreateKeygroup S kg) (sc_CreateKeygroup c kg)"
    by (rule carried_agrees [OF unit_carried(3) create_spec [OF n] at])
  show "agrees w (st_DeleteKeygroup S kg) (sc_DeleteKeygroup c kg)"
    by (rule carried_agrees [OF unit_carried(4) deleteKg_spec [OF n] at])
  show "agrees w (st_ExistsKeygroup S kg) (sc_ExistsKeygroup c kg)"
    unfolding sc_ExistsKeygroup_def
    by (rule exists_agrees [OF rpc_ExistsKeygroup [unfolded storage_ExistsKeygroup_def
          NewStorageServer_def StorageServer.simps] existsKg_spec at])
  show "agrees w (st_AddKeygroupTrigger S kg t h) (sc_AddKeygroupTrigger c kg t h)"
    by (rule carried_agrees [OF unit_carried(5) addTrig_spec [OF n] at])
  show "agrees w (st_DeleteKeygroupTrigger S kg t) (sc_DeleteKeygroupTrigger c kg t)"
    by (rule carried_agrees [OF unit_carried(6) delTrig_spec [OF n] at])
  show "agrees w (st_GetKeygroupTrigger S kg) (sc_GetKeygroupTrigger c kg)"
    by (rule carried_agrees_up_to [OF stream_carried(3) getTrig_spec [OF n] at])
       (simp add: fold_map_put_distinct [of "[]", simplified])
qed

end

end
