(* ===== verification/Badger_Storage.thy ===== *)
theory Badger_Storage
  imports Fred_Types
begin

text \<open>
  pkg/badgerdb/badgerdb.go: the storage backend on top of BadgerDB, the default of a
  FReD node (on disk or in memory). The database library itself is a parameter: a record
  \<open>badger\<close> with the library calls the code makes, and the locale \<open>badger_backend\<close> with
  what its documentation promises about them, over an abstract view of the database (the
  entries with their expiry, the numbers issued by its sequences).
\<close>

section \<open>State and library parameter\<close>

text \<open>
  \<open>bdb\<close> and \<open>bseq\<close> are the fields of \<^verbatim>\<open>Storage\<close>; \<open>bclock\<close> is what \<^verbatim>\<open>time.Now().Unix()\<close>
  returns. Sequence objects are named by handles.
\<close>

record 'db BadgerStorage =
  bdb :: 'db
  bseq :: "string \<rightharpoonup> nat"
  bclock :: int

type_synonym ('db, 'a) bop = "('db BadgerStorage, 'a) op"

text \<open>
  The calls of the library, each with the closure the code passes to it:
  \<^item> \<open>b_View_Get k\<close>: \<^verbatim>\<open>db.View\<close> with \<^verbatim>\<open>txn.Get(k)\<close>; the value is what \<^verbatim>\<open>ValueCopy\<close> gives;
  \<^item> \<open>b_Iterate o s p\<close>: \<^verbatim>\<open>db.View\<close> with an iterator (\<^verbatim>\<open>opts.Prefix\<close> = \<open>o\<close>), from
    \<^verbatim>\<open>Seek(s)\<close> while \<^verbatim>\<open>ValidForPrefix(p)\<close>, as the list of keys and values it yields;
  \<^item> \<open>b_Update_Set k v rest\<close>: \<^verbatim>\<open>db.Update\<close> with \<^verbatim>\<open>txn.Set(k, v)\<close> and then the rest of the closure;
  \<^item> \<open>b_Update_SetEntry\<close>, \<open>b_Update_Delete\<close>: \<^verbatim>\<open>db.Update\<close> with that one call;
  \<^item> \<open>b_WriteBatch_Delete ks\<close>: a write batch that deletes the keys in order and flushes;
  \<^item> \<open>b_GetSequence\<close> returns a sequence and an error, \<open>b_Seq_Next\<close> and \<open>b_Seq_Release\<close>
    are its methods.
  \<open>b_range\<close> is the iteration order of the Go runtime for the maps the code builds.
\<close>

record 'db badger =
  b_ErrKeyNotFound :: error
  b_View_Get :: "string \<Rightarrow> ('db, string result) bop"
  b_Iterate :: "string \<Rightarrow> string \<Rightarrow> string \<Rightarrow> ('db, (string \<times> string result) list) bop"
  b_Update_Set :: "string \<Rightarrow> string \<Rightarrow> ('db, unit) bop \<Rightarrow> ('db, unit) bop"
  b_Update_SetEntry :: "string \<Rightarrow> string \<Rightarrow> 64 word \<Rightarrow> ('db, unit) bop"
  b_Update_Delete :: "string \<Rightarrow> ('db, unit) bop"
  b_WriteBatch_Delete :: "string list \<Rightarrow> ('db, unit) bop"
  b_GetSequence :: "string \<Rightarrow> nat \<Rightarrow> ('db, nat \<times> error option) bop"
  b_Seq_Next :: "nat \<Rightarrow> ('db, 64 word) bop"
  b_Seq_Release :: "nat \<Rightarrow> ('db, unit) bop"
  b_Close :: "('db, unit) bop"
  b_range :: order

section \<open>Keys\<close>

definition makeKeyName :: "string \<Rightarrow> string \<Rightarrow> string" where
  "makeKeyName kgname i = kgname @ [sep] @ i"

definition makeKeygroupKeyName :: "string \<Rightarrow> string" where
  "makeKeygroupKeyName kgname = kgname @ [sep]"

definition makeKeygroupConfigKeyName :: "string \<Rightarrow> string" where
  "makeKeygroupConfigKeyName kgname = [sep] @ ''fred'' @ [sep] @ ''keygroup'' @ [sep] @ kgname"

definition makeTriggerConfigKeyName :: "string \<Rightarrow> string \<Rightarrow> string" where
  "makeTriggerConfigKeyName kgname tid =
     [sep] @ ''fred'' @ [sep] @ ''triggers'' @ [sep] @ kgname @ [sep] @ tid"

definition makeLogConfigKeyName :: "string \<Rightarrow> string" where
  "makeLogConfigKeyName kgname = [sep] @ ''fred'' @ [sep] @ ''rolling'' @ [sep] @ kgname"

definition getTriggerConfigKey :: "string \<Rightarrow> string \<times> string" where
  "getTriggerConfigKey key =
     (let s = split_on sep key in if length s = 5 then (s ! 3, s ! 4) else ([], []))"

definition getKey :: "string \<Rightarrow> string \<times> string" where
  "getKey key =
     (let s = split_on sep key in (s ! 0, if length s = 2 then s ! 1 else []))"

section \<open>Operations\<close>

definition bRead :: "'db badger \<Rightarrow> string \<Rightarrow> string \<Rightarrow> ('db, string) bop" where
  "bRead B kg i =
     attempt (andthen (b_View_Get B (makeKeyName kg i)) of_result)
       (\<lambda>e. if e = b_ErrKeyNotFound B
            then fail (Wrapped (''key not found in database: '' @ i @ '' in keygroup '' @ kg))
            else fail (errors_New e))
       ret"

text \<open>The body of the loop of \<^verbatim>\<open>ReadSome\<close>: at most \<open>cnt\<close> items go into the map.\<close>

fun readSome_loop ::
  "64 word \<Rightarrow> 64 word \<Rightarrow> (string \<times> string result) list \<Rightarrow> (string \<times> string) list
     \<Rightarrow> (string \<times> string) list result" where
  "readSome_loop n cnt [] items = Ok items"
| "readSome_loop n cnt ((k, v) # its) items =
     (if n < cnt
      then (case v of
              Ok s \<Rightarrow> readSome_loop (n + 1) cnt its (map_put (snd (getKey k)) s items)
            | Err e \<Rightarrow> Err e
            | Panic \<Rightarrow> Panic)
      else Ok items)"

definition bReadSome ::
  "'db badger \<Rightarrow> string \<Rightarrow> string \<Rightarrow> 64 word \<Rightarrow> ('db, (string \<times> string) list) bop" where
  "bReadSome B kg i cnt =
     (let pre = makeKeygroupKeyName kg; start = makeKeyName kg i in
      andthen (wrap_err (andthen (b_Iterate B pre start pre)
                                 (\<lambda>its. of_result (readSome_loop 0 cnt its []))))
        (\<lambda>items. ret (range_map (b_range B) items)))"

fun readAll_loop ::
  "(string \<times> string result) list \<Rightarrow> (string \<times> string) list
     \<Rightarrow> (string \<times> string) list result" where
  "readAll_loop [] items = Ok items"
| "readAll_loop ((k, v) # its) items =
     (case v of
        Ok s \<Rightarrow> readAll_loop its (map_put (snd (getKey k)) s items)
      | Err e \<Rightarrow> Err e
      | Panic \<Rightarrow> Panic)"

definition bReadAll :: "'db badger \<Rightarrow> string \<Rightarrow> ('db, (string \<times> string) list) bop" where
  "bReadAll B kg =
     (let pre = makeKeygroupKeyName kg in
      andthen (wrap_err (andthen (b_Iterate B pre pre pre)
                                 (\<lambda>its. of_result (readAll_loop its []))))
        (\<lambda>items. ret (range_map (b_range B) items)))"

definition bIDs :: "'db badger \<Rightarrow> string \<Rightarrow> ('db, string list) bop" where
  "bIDs B kg =
     (let pre = makeKeygroupKeyName kg in
      andthen (wrap_err (b_Iterate B pre pre pre))
        (\<lambda>its. ret (map (\<lambda>(k, v). snd (getKey k)) its)))"

text \<open>A sequence that is not open yet is opened first, with a lease of 100 numbers.\<close>

definition incrementSequence :: "'db badger \<Rightarrow> string \<Rightarrow> ('db, 64 word) bop" where
  "incrementSequence B kg w =
     (case bseq w kg of
        Some s \<Rightarrow> wrap_err (b_Seq_Next B s) w
      | None \<Rightarrow>
          andthen (b_GetSequence B (makeLogConfigKeyName kg) 100)
            (\<lambda>(newSeq, err).
               case err of
                 Some e \<Rightarrow> fail (errors_New e)
               | None \<Rightarrow> andthen (modify (\<lambda>w. w\<lparr>bseq := (bseq w)(kg \<mapsto> newSeq)\<rparr>))
                                  (\<lambda>_. wrap_err (b_Seq_Next B newSeq)))
            w)"

text \<open>
  The loop of \<^verbatim>\<open>Update\<close> that moves the local sequence past the identifier \<open>k\<close> of an item
  appended on another node. A failed increment gives 0, so it ends the loop silently when
  \<open>k\<close> is 0. The fuel is the number of increments allowed; running out of it is a \<open>Panic\<close>,
  and \<open>catchUp_returns\<close> shows that \<open>Suc (unat k)\<close> is always enough.
\<close>

fun catchUp :: "nat \<Rightarrow> 'db badger \<Rightarrow> string \<Rightarrow> 64 word \<Rightarrow> ('db, unit) bop" where
  "catchUp 0 B kg k = panic"
| "catchUp (Suc fuel) B kg k =
     attempt (incrementSequence B kg)
       (\<lambda>e. if 0 < k then fail (errors_New e) else ret ())
       (\<lambda>n. if n < k then catchUp fuel B kg k else ret ())"

definition expiresAt :: "int \<Rightarrow> int \<Rightarrow> 64 word" where
  "expiresAt now expiry = word_of_int now + word_of_int expiry"

definition bPut :: "'db badger \<Rightarrow> string \<Rightarrow> string \<Rightarrow> int \<Rightarrow> ('db, unit) bop" where
  "bPut B key val expiry w =
     (if expiry > 0 then b_Update_SetEntry B key val (expiresAt (bclock w) expiry) w
      else b_Update_Set B key val (ret ()) w)"

definition bUpdate ::
  "'db badger \<Rightarrow> string \<Rightarrow> string \<Rightarrow> string \<Rightarrow> bool \<Rightarrow> int \<Rightarrow> ('db, unit) bop" where
  "bUpdate B kg i val app expiry =
     andthen
       (if app
        then (case Atoi i of
                None \<Rightarrow> fail (Wrapped ''strconv.Atoi: parsing: invalid syntax'')
              | Some key \<Rightarrow> catchUp (Suc (unat (word_of_int key :: 64 word))) B kg (word_of_int key))
        else ret ())
       (\<lambda>_. wrap_err (bPut B (makeKeyName kg i) val expiry))"

definition bDelete :: "'db badger \<Rightarrow> string \<Rightarrow> string \<Rightarrow> ('db, unit) bop" where
  "bDelete B kg i =
     attempt (b_Update_Delete B (makeKeyName kg i))
       (\<lambda>e. if e = b_ErrKeyNotFound B
            then fail (Wrapped (''key not found in database: '' @ i @ '' in keygroup '' @ kg))
            else fail (errors_New e))
       ret"

definition bAppend :: "'db badger \<Rightarrow> string \<Rightarrow> string \<Rightarrow> int \<Rightarrow> ('db, string) bop" where
  "bAppend B kg val expiry =
     andthen (wrap_err (incrementSequence B kg))
       (\<lambda>n. let i = FormatUint (unat n) in
            andthen (wrap_err (bPut B (makeKeyName kg i) val expiry)) (\<lambda>_. ret i))"

definition bExists :: "'db badger \<Rightarrow> string \<Rightarrow> string \<Rightarrow> ('db, bool) bop" where
  "bExists B kg i =
     attempt (b_View_Get B (makeKeyName kg i)) (\<lambda>_. ret False) (\<lambda>_. ret True)"

definition bExistsKeygroup :: "'db badger \<Rightarrow> string \<Rightarrow> ('db, bool) bop" where
  "bExistsKeygroup B kg =
     attempt (b_View_Get B (makeKeygroupConfigKeyName kg)) (\<lambda>_. ret False) (\<lambda>_. ret True)"

definition bCreateKeygroup :: "'db badger \<Rightarrow> string \<Rightarrow> ('db, unit) bop" where
  "bCreateKeygroup B kg =
     wrap_err (b_Update_Set B (makeKeygroupConfigKeyName kg) kg
       (andthen (b_GetSequence B (makeLogConfigKeyName kg) 100)
          (\<lambda>(newSeq, err).
             andthen (modify (\<lambda>w. w\<lparr>bseq := (bseq w)(kg \<mapsto> newSeq)\<rparr>))
               (\<lambda>_. case err of Some e \<Rightarrow> fail e | None \<Rightarrow> ret ()))))"

text \<open>Deleting every key with a prefix: collect the keys, then a write batch.\<close>

definition bDeletePrefix :: "'db badger \<Rightarrow> string \<Rightarrow> ('db, unit) bop" where
  "bDeletePrefix B pre =
     andthen (wrap_err (b_Iterate B [] pre pre))
       (\<lambda>its. wrap_err (b_WriteBatch_Delete B (map fst its)))"

definition bReleaseSequence :: "'db badger \<Rightarrow> string \<Rightarrow> ('db, unit) bop" where
  "bReleaseSequence B kg w =
     (case bseq w kg of
        Some s \<Rightarrow> andthen (b_Seq_Release B s)
                    (\<lambda>_. modify (\<lambda>w. w\<lparr>bseq := (bseq w)(kg := None)\<rparr>)) w
      | None \<Rightarrow> ret () w)"

definition bDeleteKeygroup :: "'db badger \<Rightarrow> string \<Rightarrow> ('db, unit) bop" where
  "bDeleteKeygroup B kg =
     attempt (b_Update_Delete B (makeKeygroupConfigKeyName kg))
       (\<lambda>e. if e = b_ErrKeyNotFound B
            then fail (Wrapped (''keygroup not found in database: '' @ kg))
            else fail (errors_New e))
       (\<lambda>_. andthen (bDeletePrefix B (makeKeygroupKeyName kg))
       (\<lambda>_. andthen (bDeletePrefix B (makeTriggerConfigKeyName kg []))
       (\<lambda>_. bReleaseSequence B kg)))"

definition bAddKeygroupTrigger ::
  "'db badger \<Rightarrow> string \<Rightarrow> string \<Rightarrow> string \<Rightarrow> ('db, unit) bop" where
  "bAddKeygroupTrigger B kg i host =
     wrap_err (b_Update_Set B (makeTriggerConfigKeyName kg i) host (ret ()))"

definition bDeleteKeygroupTrigger ::
  "'db badger \<Rightarrow> string \<Rightarrow> string \<Rightarrow> ('db, unit) bop" where
  "bDeleteKeygroupTrigger B kg i =
     wrap_err (b_Update_Delete B (makeTriggerConfigKeyName kg i))"

fun trigger_loop ::
  "(string \<times> string result) list \<Rightarrow> (string \<times> string) list
     \<Rightarrow> (string \<times> string) list result" where
  "trigger_loop [] items = Ok items"
| "trigger_loop ((k, v) # its) items =
     (let key = snd (getTriggerConfigKey k) in
      if key = [] then trigger_loop its items
      else (case v of
              Ok s \<Rightarrow> trigger_loop its (map_put key s items)
            | Err e \<Rightarrow> Err e
            | Panic \<Rightarrow> Panic))"

definition bGetKeygroupTrigger ::
  "'db badger \<Rightarrow> string \<Rightarrow> ('db, (string \<times> string) list) bop" where
  "bGetKeygroupTrigger B kg =
     (let pre = makeTriggerConfigKeyName kg [] in
      andthen (wrap_err (andthen (b_Iterate B pre pre pre)
                                 (\<lambda>its. of_result (trigger_loop its []))))
        (\<lambda>items. ret (range_map (b_range B) items)))"

text \<open>\<^verbatim>\<open>*badgerdb.Storage\<close> as a \<^verbatim>\<open>fred.Store\<close>.\<close>

definition badgerdb_Store :: "'db badger \<Rightarrow> 'db BadgerStorage Store" where
  "badgerdb_Store B =
     \<lparr>st_Update = bUpdate B, st_Delete = bDelete B, st_Append = bAppend B, st_Read = bRead B,
      st_ReadSome = bReadSome B, st_ReadAll = bReadAll B, st_IDs = bIDs B,
      st_Exists = bExists B, st_CreateKeygroup = bCreateKeygroup B,
      st_DeleteKeygroup = bDeleteKeygroup B, st_ExistsKeygroup = bExistsKeygroup B,
      st_AddKeygroupTrigger = bAddKeygroupTrigger B,
      st_DeleteKeygroupTrigger = bDeleteKeygroupTrigger B,
      st_GetKeygroupTrigger = bGetKeygroupTrigger B, st_Close = b_Close B\<rparr>"

end
