(* ===== verification/Badger_Correct.thy ===== *)
theory Badger_Correct
  imports Badger_Storage Store_Contract
begin

text \<open>
  Correctness of the BadgerDB backend: its keys never collide, and under the documented
  behaviour of the database library (locale \<open>badger_backend\<close>) it implements the contract
  \<open>store_spec\<close> of \<^verbatim>\<open>fred.Store\<close>. A reference database interprets the locale, so the
  documented behaviour is satisfiable.
\<close>

section \<open>What the library promises\<close>

text \<open>
  The entries with their expiry (0: none); the keys of the open sequence objects; for every
  sequence object a lower bound of what it issues next; for every sequence key an upper bound
  of the numbers issued so far. A sequence object issues increasing numbers; numbers are never
  issued twice as long as only one object is open for the key.
\<close>

record bview =
  bkv :: "string \<rightharpoonup> string \<times> 64 word"
  bhandle :: "nat \<rightharpoonup> string"
  bnext :: "nat \<Rightarrow> nat"
  bissued :: "string \<Rightarrow> nat"

definition live :: "int \<Rightarrow> bview \<Rightarrow> string \<rightharpoonup> string" where
  "live now v k =
     (case bkv v k of
        None \<Rightarrow> None
      | Some (s, x) \<Rightarrow> if x = 0 \<or> word_of_int now < x then Some s else None)"

definition bsame :: "('db \<Rightarrow> bview) \<Rightarrow> 'db BadgerStorage \<Rightarrow> 'db BadgerStorage \<Rightarrow> bool" where
  "bsame A w w' \<longleftrightarrow> A (bdb w') = A (bdb w) \<and> bseq w' = bseq w \<and> bclock w' = bclock w"

definition blive :: "('db \<Rightarrow> bview) \<Rightarrow> 'db BadgerStorage \<Rightarrow> string \<rightharpoonup> string" where
  "blive A w = live (bclock w) (A (bdb w))"

text \<open>The database after an entry is written, and after keys are deleted.\<close>

definition kv_put :: "string \<Rightarrow> string \<Rightarrow> 64 word \<Rightarrow> bview \<Rightarrow> bview" where
  "kv_put k s x v = v\<lparr>bkv := (bkv v)(k \<mapsto> (s, x))\<rparr>"

definition kv_del :: "string set \<Rightarrow> bview \<Rightarrow> bview" where
  "kv_del K v = v\<lparr>bkv := bkv v |` (- K)\<rparr>"

definition b_to :: "('db \<Rightarrow> bview) \<Rightarrow> 'db BadgerStorage \<Rightarrow> bview \<Rightarrow> 'db BadgerStorage \<Rightarrow> bool" where
  "b_to A w v w' \<longleftrightarrow> A (bdb w') = v \<and> bseq w' = bseq w \<and> bclock w' = bclock w"

text \<open>A sequence keeps its lease in the database under its own key.\<close>

definition seq_frame ::
  "('db \<Rightarrow> bview) \<Rightarrow> string \<Rightarrow> 'db BadgerStorage \<Rightarrow> 'db BadgerStorage \<Rightarrow> bool" where
  "seq_frame A k w w' \<longleftrightarrow> bseq w' = bseq w \<and> bclock w' = bclock w \<and>
     (\<forall>x. x \<noteq> k \<longrightarrow> bkv (A (bdb w')) x = bkv (A (bdb w)) x)"

text \<open>What an iterator over the prefix \<open>p\<close> from the key \<open>s\<close> on yields: the live entries, in key order.\<close>

definition iter_yields ::
  "('db \<Rightarrow> bview) \<Rightarrow> bool \<Rightarrow> 'db BadgerStorage \<Rightarrow> string \<Rightarrow> string
     \<Rightarrow> (string \<times> string result) list \<Rightarrow> bool" where
  "iter_yields A healthy w s p its \<longleftrightarrow>
     sorted_wrt (<) (map fst its) \<and>
     set (map fst its) = {k. blive A w k \<noteq> None \<and> prefix p k \<and> s \<le> k} \<and>
     (\<forall>(k, r) \<in> set its. r = Ok (the (blive A w k)) \<or> \<not> healthy \<and> (\<exists>e. r = Err e))"

locale badger_backend =
  fixes B :: "'db badger"
    and A :: "'db \<Rightarrow> bview"
    and healthy :: bool
  assumes get_Ok: "b_View_Get B k w = (Ok r, w') \<Longrightarrow>
        bsame A w w' \<and> (\<exists>s. blive A w k = Some s \<and>
          (r = Ok s \<or> \<not> healthy \<and> (\<exists>e. r = Err e \<and> e \<noteq> b_ErrKeyNotFound B)))"
    and get_Err: "b_View_Get B k w = (Err e, w') \<Longrightarrow>
        bsame A w w' \<and> (e = b_ErrKeyNotFound B \<or> healthy \<longrightarrow> blive A w k = None)"
    and get_no_Panic: "b_View_Get B k w \<noteq> (Panic, w')"
    and iter_Ok: "prefix pre p \<Longrightarrow> b_Iterate B pre s p w = (Ok its, w') \<Longrightarrow>
        bsame A w w' \<and> iter_yields A healthy w s p its"
    and iter_Err: "prefix pre p \<Longrightarrow> b_Iterate B pre s p w = (Err e, w') \<Longrightarrow>
        bsame A w w' \<and> \<not> healthy"
    and iter_no_Panic: "b_Iterate B pre s p w \<noteq> (Panic, w')"
    and set_Ok: "b_Update_Set B k s rest w = (Ok u, w') \<Longrightarrow>
        (\<exists>w1. rest w = (Ok (), w1) \<and> b_to A w1 (kv_put k s 0 (A (bdb w1))) w')"
    and set_Err: "b_Update_Set B k s rest w = (Err e, w') \<Longrightarrow>
        (bsame A w w' \<and> \<not> healthy) \<or>
        (\<exists>r w1. rest w = (r, w1) \<and> bsame A w1 w' \<and> (\<not> healthy \<or> r = Err e))"
    and set_no_Panic: "(\<And>w1. rest w \<noteq> (Panic, w1)) \<Longrightarrow> b_Update_Set B k s rest w \<noteq> (Panic, w')"
    and setEntry_Ok: "b_Update_SetEntry B k s x w = (Ok u, w') \<Longrightarrow>
        b_to A w (kv_put k s x (A (bdb w))) w'"
    and setEntry_Err: "b_Update_SetEntry B k s x w = (Err e, w') \<Longrightarrow> bsame A w w' \<and> \<not> healthy"
    and setEntry_no_Panic: "b_Update_SetEntry B k s x w \<noteq> (Panic, w')"
    and del_Ok: "b_Update_Delete B k w = (Ok u, w') \<Longrightarrow> b_to A w (kv_del {k} (A (bdb w))) w'"
    and del_Err: "b_Update_Delete B k w = (Err e, w') \<Longrightarrow>
        bsame A w w' \<and> (healthy \<longrightarrow> blive A w k = None)"
    and del_no_Panic: "b_Update_Delete B k w \<noteq> (Panic, w')"
    and batch_Ok: "b_WriteBatch_Delete B ks w = (Ok u, w') \<Longrightarrow>
        b_to A w (kv_del (set ks) (A (bdb w))) w'"
    and batch_Err: "b_WriteBatch_Delete B ks w = (Err e, w') \<Longrightarrow>
        (\<exists>K \<subseteq> set ks. b_to A w (kv_del K (A (bdb w))) w') \<and> \<not> healthy"
    and batch_no_Panic: "b_WriteBatch_Delete B ks w \<noteq> (Panic, w')"
    and getSeq_Ok: "b_GetSequence B (c # k) (Suc bw) w = (Ok (h, err), w') \<Longrightarrow>
        seq_frame A (c # k) w w' \<and> bhandle (A (bdb w)) h = None \<and>
        bhandle (A (bdb w')) = (bhandle (A (bdb w)))(h \<mapsto> c # k) \<and>
        bissued (A (bdb w')) = bissued (A (bdb w)) \<and> (healthy \<longrightarrow> err = None)"
    and getSeq_value: "\<exists>p w'. b_GetSequence B (c # k) (Suc bw) w = (Ok p, w')"
    and next_Ok: "bhandle (A (bdb w)) h = Some k \<Longrightarrow> b_Seq_Next B h w = (Ok m, w') \<Longrightarrow>
        seq_frame A k w w' \<and> bhandle (A (bdb w')) = bhandle (A (bdb w)) \<and>
        bnext (A (bdb w)) h \<le> unat m \<and> Suc (unat m) \<le> bnext (A (bdb w')) h \<and>
        bissued (A (bdb w')) =
          (bissued (A (bdb w)))(k := max (bissued (A (bdb w)) k) (Suc (unat m))) \<and>
        ((\<forall>h'. bhandle (A (bdb w)) h' = Some k \<longrightarrow> h' = h) \<longrightarrow> bissued (A (bdb w)) k \<le> unat m)"
    and next_Err: "bhandle (A (bdb w)) h = Some k \<Longrightarrow> b_Seq_Next B h w = (Err e, w') \<Longrightarrow>
        seq_frame A k w w' \<and> bhandle (A (bdb w')) = bhandle (A (bdb w)) \<and>
        bissued (A (bdb w')) = bissued (A (bdb w))"
    and next_no_Panic: "bhandle (A (bdb w)) h \<noteq> None \<Longrightarrow> b_Seq_Next B h w \<noteq> (Panic, w')"
    and release_Ok: "bhandle (A (bdb w)) h = Some k \<Longrightarrow> b_Seq_Release B h w = (Ok u, w') \<Longrightarrow>
        seq_frame A k w w' \<and> bhandle (A (bdb w')) = (bhandle (A (bdb w)))(h := None) \<and>
        bissued (A (bdb w')) = bissued (A (bdb w))"
    and release_Err: "bhandle (A (bdb w)) h = Some k \<Longrightarrow> b_Seq_Release B h w = (Err e, w') \<Longrightarrow>
        seq_frame A k w w' \<and> bhandle (A (bdb w')) = bhandle (A (bdb w)) \<and>
        bissued (A (bdb w')) = bissued (A (bdb w)) \<and> \<not> healthy"
    and release_no_Panic: "bhandle (A (bdb w)) h \<noteq> None \<Longrightarrow> b_Seq_Release B h w \<noteq> (Panic, w')"
    and range_perm: "perm_order (b_range B)"

section \<open>Keys\<close>

lemmas key_defs = makeKeyName_def makeKeygroupKeyName_def makeKeygroupConfigKeyName_def
  makeTriggerConfigKeyName_def makeLogConfigKeyName_def

lemma split_makeKeyName:
  "sep \<notin> set kg \<Longrightarrow> split_on sep (makeKeyName kg i) = kg # split_on sep i"
  by (simp add: makeKeyName_def split_on_append)

lemma split_makeKeygroupConfigKeyName:
  "split_on sep (makeKeygroupConfigKeyName kg) = [[], ''fred'', ''keygroup''] @ split_on sep kg"
  by (simp add: makeKeygroupConfigKeyName_def sep_def)

lemma split_makeTriggerConfigKeyName:
  "sep \<notin> set kg \<Longrightarrow>
   split_on sep (makeTriggerConfigKeyName kg t) = [[], ''fred'', ''triggers'', kg] @ split_on sep t"
  using split_on_append [of sep kg t] by (simp add: makeTriggerConfigKeyName_def sep_def)

lemma split_makeLogConfigKeyName:
  "split_on sep (makeLogConfigKeyName kg) = [[], ''fred'', ''rolling''] @ split_on sep kg"
  by (simp add: makeLogConfigKeyName_def sep_def)

lemmas split_keys = split_makeKeyName split_makeKeygroupConfigKeyName
  split_makeTriggerConfigKeyName split_makeLogConfigKeyName

text \<open>C: parsing gives back what the key was built from.\<close>

lemma getKey_makeKeyName:
  "sep \<notin> set kg \<Longrightarrow> sep \<notin> set i \<Longrightarrow> getKey (makeKeyName kg i) = (kg, i)"
  by (simp add: getKey_def split_keys)

lemma getTriggerConfigKey_make:
  "sep \<notin> set kg \<Longrightarrow> getTriggerConfigKey (makeTriggerConfigKeyName kg t) =
     (if sep \<notin> set t then (kg, t) else ([], []))"
proof (cases "sep \<in> set t")
  case True
  then obtain t1 t2 where "t = t1 @ sep # t2" "sep \<notin> set t1" by (meson split_list_first)
  moreover assume "sep \<notin> set kg"
  ultimately show ?thesis
    by (cases "split_on sep t2") (simp_all add: getTriggerConfigKey_def split_keys split_on_append)
qed (simp add: getTriggerConfigKey_def split_keys)

text \<open>The keys a well-formed database holds, by kind.\<close>

inductive wf_key :: "string \<Rightarrow> bool" where
  item: "reg_MatchString kg \<Longrightarrow> reg_MatchString i \<Longrightarrow> wf_key (makeKeyName kg i)"
| config: "reg_MatchString kg \<Longrightarrow> wf_key (makeKeygroupConfigKeyName kg)"
| trig: "reg_MatchString kg \<Longrightarrow> wf_key (makeTriggerConfigKeyName kg t)"
| rolling: "reg_MatchString kg \<Longrightarrow> wf_key (makeLogConfigKeyName kg)"

lemma valid_split [simp]: "reg_MatchString s \<Longrightarrow> split_on sep s = [s]"
  by (simp add: valid_no_sep)

lemma key_inject [simp]:
  "reg_MatchString kg \<Longrightarrow> reg_MatchString kg' \<Longrightarrow>
     makeKeyName kg i = makeKeyName kg' i' \<longleftrightarrow> kg = kg' \<and> i = i'"
  "reg_MatchString kg \<Longrightarrow> reg_MatchString kg' \<Longrightarrow>
     makeTriggerConfigKeyName kg t = makeTriggerConfigKeyName kg' t' \<longleftrightarrow> kg = kg' \<and> t = t'"
  "makeKeygroupConfigKeyName kg = makeKeygroupConfigKeyName kg' \<longleftrightarrow> kg = kg'"
  "makeLogConfigKeyName kg = makeLogConfigKeyName kg' \<longleftrightarrow> kg = kg'"
  by (auto simp: key_defs append_sep_eq valid_no_sep)

lemma makeKeyName_not_sep:
  "reg_MatchString kg \<Longrightarrow> makeKeyName kg i \<noteq> sep # k"
  using valid_no_sep [of kg] by (cases kg) (auto simp: makeKeyName_def reg_MatchString_def)

lemma key_kinds_distinct [simp]:
  assumes "reg_MatchString kg"
  shows "makeKeyName kg i \<noteq> makeKeygroupConfigKeyName kg'"
    "makeKeyName kg i \<noteq> makeTriggerConfigKeyName kg' t"
    "makeKeyName kg i \<noteq> makeLogConfigKeyName kg'"
    "makeKeygroupConfigKeyName kg' \<noteq> makeKeyName kg i"
    "makeTriggerConfigKeyName kg' t \<noteq> makeKeyName kg i"
    "makeLogConfigKeyName kg' \<noteq> makeKeyName kg i"
  using makeKeyName_not_sep [OF assms] makeKeyName_not_sep [OF assms, THEN not_sym]
  by (auto simp: makeKeygroupConfigKeyName_def makeTriggerConfigKeyName_def
      makeLogConfigKeyName_def)

lemma config_kinds_distinct [simp]:
  "makeKeygroupConfigKeyName kg \<noteq> makeTriggerConfigKeyName kg' t"
  "makeTriggerConfigKeyName kg' t \<noteq> makeKeygroupConfigKeyName kg"
  "makeKeygroupConfigKeyName kg \<noteq> makeLogConfigKeyName kg'"
  "makeLogConfigKeyName kg' \<noteq> makeKeygroupConfigKeyName kg"
  "makeTriggerConfigKeyName kg t \<noteq> makeLogConfigKeyName kg'"
  "makeLogConfigKeyName kg' \<noteq> makeTriggerConfigKeyName kg t"
  by (auto simp: key_defs)

lemma prefix_snoc_iff: "prefix (p @ [c]) k \<longleftrightarrow> (\<exists>t. k = p @ c # t)"
  by (auto simp: prefix_def)

lemma prefix_item:
  assumes "reg_MatchString kg" "wf_key k"
  shows "prefix (makeKeygroupKeyName kg) k \<longleftrightarrow> (\<exists>i. reg_MatchString i \<and> k = makeKeyName kg i)"
  using assms(2)
proof cases
  case (item kg' i)
  with assms(1) show ?thesis
    by (auto simp: makeKeygroupKeyName_def makeKeyName_def prefix_snoc_iff append_sep_eq valid_no_sep)
qed (use assms(1) makeKeyName_not_sep [OF assms(1)] makeKeyName_not_sep [OF assms(1), THEN not_sym] in
    \<open>auto simp: makeKeygroupKeyName_def prefix_snoc_iff makeKeyName_def
      makeKeygroupConfigKeyName_def makeTriggerConfigKeyName_def makeLogConfigKeyName_def\<close>)

lemma prefix_trigger:
  assumes "reg_MatchString kg" "wf_key k"
  shows "prefix (makeTriggerConfigKeyName kg []) k \<longleftrightarrow> (\<exists>t. k = makeTriggerConfigKeyName kg t)"
  by (auto simp: prefix_def makeTriggerConfigKeyName_def)

lemma makeKeyName_le [simp]: "makeKeyName kg i \<le> makeKeyName kg j \<longleftrightarrow> i \<le> j"
  by (induction kg) (simp_all add: makeKeyName_def)

lemma makeKeyName_less [simp]: "makeKeyName kg i < makeKeyName kg j \<longleftrightarrow> i < j"
  by (induction kg) (simp_all add: makeKeyName_def)

lemma prefix_le: "prefix p k \<Longrightarrow> p \<le> (k :: string)"
  by (induction p arbitrary: k) (auto simp: prefix_def)

section \<open>Invariant and view of the backend\<close>

definition binv :: "('db \<Rightarrow> bview) \<Rightarrow> 'db BadgerStorage \<Rightarrow> bool" where
  "binv A w \<longleftrightarrow>
     (\<forall>k. bkv (A (bdb w)) k \<noteq> None \<longrightarrow> wf_key k) \<and>
     (\<forall>kg h. bseq w kg = Some h \<longrightarrow> bhandle (A (bdb w)) h = Some (makeLogConfigKeyName kg)) \<and>
     0 \<le> bclock w \<and> bclock w < 2 ^ 63"

definition bstore_view :: "('db \<Rightarrow> bview) \<Rightarrow> 'db BadgerStorage \<Rightarrow> sview" where
  "bstore_view A w =
     \<lparr>sv_items = (\<lambda>kg i. if reg_MatchString kg \<and> reg_MatchString i
                          then blive A w (makeKeyName kg i) else None),
      sv_kgs = {kg. reg_MatchString kg \<and> blive A w (makeKeygroupConfigKeyName kg) \<noteq> None},
      sv_trigs = (\<lambda>kg t. if reg_MatchString kg \<and> valid_tid t
                          then blive A w (makeTriggerConfigKeyName kg t) else None)\<rparr>"

lemma blive_put:
  "b_to A w (kv_put k s x (A (bdb w))) w' \<Longrightarrow> x = 0 \<or> word_of_int (bclock w) < x \<Longrightarrow>
   blive A w' = (blive A w)(k \<mapsto> s)"
  by (auto simp: b_to_def kv_put_def blive_def live_def fun_eq_iff)

lemma blive_del:
  "b_to A w (kv_del K (A (bdb w))) w' \<Longrightarrow> blive A w' = blive A w |` (- K)"
  by (auto simp: b_to_def kv_del_def blive_def live_def fun_eq_iff restrict_map_def)

lemma blive_same: "bsame A w w' \<Longrightarrow> blive A w' = blive A w"
  by (simp add: bsame_def blive_def)

lemma blive_wf: "binv A w \<Longrightarrow> blive A w k \<noteq> None \<Longrightarrow> wf_key k"
  by (auto simp: binv_def blive_def live_def split: option.splits)

lemma binv_same: "bsame A w w' \<Longrightarrow> binv A w' = binv A w"
  by (simp add: bsame_def binv_def)

lemma bstore_view_same: "bsame A w w' \<Longrightarrow> bstore_view A w' = bstore_view A w"
  by (drule blive_same) (simp only: bstore_view_def)

lemma binv_put:
  "binv A w \<Longrightarrow> wf_key k \<Longrightarrow> b_to A w (kv_put k s x (A (bdb w))) w' \<Longrightarrow> binv A w'"
  by (auto simp: b_to_def kv_put_def binv_def)

lemma binv_del: "binv A w \<Longrightarrow> b_to A w (kv_del K (A (bdb w))) w' \<Longrightarrow> binv A w'"
  by (auto simp: b_to_def kv_del_def binv_def restrict_map_def split: if_splits)

lemmas view_fields = bstore_view_def upd_item_def del_item_def add_kg_def del_kg_def
  add_trig_def del_trig_def

lemma view_put_item:
  assumes "reg_MatchString kg" "reg_MatchString i" "blive A w' = (blive A w)(makeKeyName kg i \<mapsto> s)"
  shows "bstore_view A w' = upd_item kg i s (bstore_view A w)"
  using assms by (auto simp: view_fields fun_eq_iff)

lemma view_del_item:
  assumes "reg_MatchString kg" "reg_MatchString i" "blive A w' = blive A w |` (- {makeKeyName kg i})"
  shows "bstore_view A w' = del_item kg i (bstore_view A w)"
  using assms by (auto simp: view_fields fun_eq_iff restrict_map_def)

lemma view_put_config:
  assumes "reg_MatchString kg" "blive A w' = (blive A w)(makeKeygroupConfigKeyName kg \<mapsto> s)"
  shows "bstore_view A w' = add_kg kg (bstore_view A w)"
  using assms by (auto simp: view_fields fun_eq_iff)

lemma view_put_trigger:
  assumes "reg_MatchString kg" "blive A w' = (blive A w)(makeTriggerConfigKeyName kg t \<mapsto> s)"
  shows "bstore_view A w' =
    (if valid_tid t then add_trig kg t s (bstore_view A w) else bstore_view A w)"
  using assms by (auto simp: view_fields fun_eq_iff)

lemma view_del_trigger:
  assumes "reg_MatchString kg" "blive A w' = blive A w |` (- {makeTriggerConfigKeyName kg t})"
  shows "bstore_view A w' =
    (if valid_tid t then del_trig kg t (bstore_view A w) else bstore_view A w)"
  using assms by (auto simp: view_fields fun_eq_iff restrict_map_def)

lemma prefix_keygroup_item:
  "reg_MatchString kg \<Longrightarrow> reg_MatchString kg' \<Longrightarrow>
   prefix (makeKeygroupKeyName kg) (makeKeyName kg' i) \<longleftrightarrow> kg = kg'"
  by (auto simp: makeKeygroupKeyName_def makeKeyName_def prefix_snoc_iff append_sep_eq valid_no_sep)

lemma prefix_keygroup_config:
  assumes "reg_MatchString kg"
  shows "\<not> prefix (makeKeygroupKeyName kg) (makeKeygroupConfigKeyName kg')"
    "\<not> prefix (makeKeygroupKeyName kg) (makeTriggerConfigKeyName kg' t)"
  using makeKeyName_not_sep [OF assms, THEN not_sym]
  by (auto simp: makeKeygroupKeyName_def makeKeygroupConfigKeyName_def
      makeTriggerConfigKeyName_def makeKeyName_def prefix_snoc_iff)

lemma prefix_trigger_keys:
  "reg_MatchString kg' \<Longrightarrow> \<not> prefix (makeTriggerConfigKeyName kg t) (makeKeyName kg' i)"
  "\<not> prefix (makeTriggerConfigKeyName kg t) (makeKeygroupConfigKeyName kg')"
  "reg_MatchString kg \<Longrightarrow> reg_MatchString kg' \<Longrightarrow>
     prefix (makeTriggerConfigKeyName kg []) (makeTriggerConfigKeyName kg' t) \<longleftrightarrow> kg = kg'"
proof -
  show "reg_MatchString kg' \<Longrightarrow> \<not> prefix (makeTriggerConfigKeyName kg t) (makeKeyName kg' i)"
    using makeKeyName_not_sep [of kg' i] by (auto simp: makeTriggerConfigKeyName_def prefix_def)
  show "\<not> prefix (makeTriggerConfigKeyName kg t) (makeKeygroupConfigKeyName kg')"
    by (auto simp: makeTriggerConfigKeyName_def makeKeygroupConfigKeyName_def prefix_def)
  show "reg_MatchString kg \<Longrightarrow> reg_MatchString kg' \<Longrightarrow>
     prefix (makeTriggerConfigKeyName kg []) (makeTriggerConfigKeyName kg' t) \<longleftrightarrow> kg = kg'"
    using key_inject(2) [of kg kg' _ t]
    by (auto simp: makeTriggerConfigKeyName_def prefix_def append_sep_eq valid_no_sep)
qed

lemma view_del_kg:
  assumes "reg_MatchString kg"
    and "blive A w' = blive A w |` (- {makeKeygroupConfigKeyName kg})
      |` {k. \<not> prefix (makeKeygroupKeyName kg) k}
      |` {k. \<not> prefix (makeTriggerConfigKeyName kg []) k}"
  shows "bstore_view A w' = del_kg kg (bstore_view A w)"
  using assms
  by (auto simp: view_fields fun_eq_iff restrict_map_def prefix_keygroup_item
      prefix_keygroup_config prefix_trigger_keys)

text \<open>The lease entries of the sequences are invisible.\<close>

lemma view_seq_frame:
  assumes "seq_frame A (makeLogConfigKeyName kg) w w'"
  shows "bstore_view A w' = bstore_view A w"
proof -
  have "blive A w' x = blive A w x" if "x \<noteq> makeLogConfigKeyName kg" for x
    using assms that by (simp add: seq_frame_def blive_def live_def)
  then show ?thesis by (auto simp: bstore_view_def fun_eq_iff)
qed

text \<open>An entry with an expiry is live: the sum of two 63-bit numbers does not wrap around.\<close>

lemma expiresAt_later:
  assumes "0 \<le> now" "now < 2 ^ 63" "0 < x" "x < 2 ^ 63"
  shows "word_of_int now < expiresAt now x"
proof -
  have "uint (expiresAt now x) = now + x"
    using assms by (simp add: expiresAt_def uint_word_of_int uint_word_ariths)
  moreover have "uint (word_of_int now :: 64 word) = now"
    using assms by (simp add: uint_word_of_int)
  ultimately show ?thesis using assms by (simp add: word_less_def)
qed

section \<open>The operations, under the promises of the library\<close>

text \<open>A state of the backend with the abstract view \<open>V\<close>.\<close>

definition b_at :: "('db \<Rightarrow> bview) \<Rightarrow> sview \<Rightarrow> 'db BadgerStorage \<Rightarrow> bool" where
  "b_at A V w \<longleftrightarrow> binv A w \<and> bstore_view A w = V"

lemma b_at_same: "bsame A w w' \<Longrightarrow> b_at A V w' = b_at A V w"
  by (simp add: b_at_def binv_same bstore_view_same)

lemma b_at_item:
  "b_at A V w \<Longrightarrow> reg_MatchString kg \<Longrightarrow> reg_MatchString i \<Longrightarrow>
   blive A w (makeKeyName kg i) = sv_items V kg i"
  by (auto simp: b_at_def bstore_view_def)

lemma b_at_items:
  "b_at A V w \<Longrightarrow> reg_MatchString kg \<Longrightarrow>
   sv_items V kg = (\<lambda>i. if reg_MatchString i then blive A w (makeKeyName kg i) else None)"
  by (auto simp: b_at_def bstore_view_def)

lemma b_at_kg:
  "b_at A V w \<Longrightarrow> kg \<in> sv_kgs V \<longleftrightarrow> blive A w (makeKeygroupConfigKeyName kg) \<noteq> None"
proof -
  assume at: "b_at A V w"
  have "reg_MatchString kg" if "wf_key (makeKeygroupConfigKeyName kg)"
    using that by (cases rule: wf_key.cases) auto
  with at show ?thesis
    using blive_wf [of A w "makeKeygroupConfigKeyName kg"] by (auto simp: b_at_def bstore_view_def)
qed

lemma b_at_kg_live:
  "b_at A V w \<Longrightarrow> blive A w (makeKeygroupConfigKeyName kg) = None \<longleftrightarrow> kg \<notin> sv_kgs V"
  "b_at A V w \<Longrightarrow> blive A w (makeKeygroupConfigKeyName kg) = Some s \<Longrightarrow> kg \<in> sv_kgs V"
  by (simp_all add: b_at_kg)

lemma b_at_trigs:
  "b_at A V w \<Longrightarrow> reg_MatchString kg \<Longrightarrow>
   sv_trigs V kg = (\<lambda>t. if valid_tid t then blive A w (makeTriggerConfigKeyName kg t) else None)"
  by (auto simp: b_at_def bstore_view_def)

text \<open>Calls on a sequence keep the state well-formed and the view.\<close>

lemma b_at_seq_frame:
  assumes "b_at A V w" "reg_MatchString kg" "seq_frame A (makeLogConfigKeyName kg) w w'"
    and "\<And>kg' h. bseq w kg' = Some h \<Longrightarrow> bhandle (A (bdb w')) h = bhandle (A (bdb w)) h"
  shows "b_at A V w'"
proof -
  have "wf_key k" if "bkv (A (bdb w')) k \<noteq> None" for k
    using that assms(1-3) wf_key.rolling
    by (cases "k = makeLogConfigKeyName kg") (auto simp: b_at_def binv_def seq_frame_def)
  then show ?thesis
    using assms view_seq_frame [OF assms(3)] by (auto simp: b_at_def binv_def seq_frame_def)
qed

lemma blive_bseq [simp]: "blive A (w\<lparr>bseq := q\<rparr>) = blive A w"
  by (simp add: blive_def)

lemma view_bseq [simp]: "bstore_view A (w\<lparr>bseq := q\<rparr>) = bstore_view A w"
  by (simp only: bstore_view_def blive_bseq)

lemma b_at_bseq:
  assumes "b_at A V w" "bhandle (A (bdb w)) h = Some (makeLogConfigKeyName kg)"
  shows "b_at A V (w\<lparr>bseq := (bseq w)(kg \<mapsto> h)\<rparr>)"
  using assms by (auto simp: b_at_def binv_def)

lemma b_at_bseq_None: "b_at A V w \<Longrightarrow> b_at A V (w\<lparr>bseq := (bseq w)(kg := None)\<rparr>)"
  by (auto simp: b_at_def binv_def)

lemma b_at_handle:
  "b_at A V w \<Longrightarrow> bseq w kg = Some h \<Longrightarrow> bhandle (A (bdb w)) h = Some (makeLogConfigKeyName kg)"
  by (simp add: b_at_def binv_def)

text \<open>The open sequence of a keygroup has issued every number below \<open>m\<close> that it ever will.\<close>

definition seq_ge :: "('db \<Rightarrow> bview) \<Rightarrow> string \<Rightarrow> nat \<Rightarrow> 'db BadgerStorage \<Rightarrow> bool" where
  "seq_ge A kg m w \<longleftrightarrow> m = 0 \<or> (\<exists>h. bseq w kg = Some h \<and> m \<le> bnext (A (bdb w)) h)"

text \<open>The only open sequence on a keygroup's key is the one the backend holds.\<close>

definition seq_single :: "('db \<Rightarrow> bview) \<Rightarrow> string \<Rightarrow> 'db BadgerStorage \<Rightarrow> bool" where
  "seq_single A kg w \<longleftrightarrow>
     (\<forall>h. bhandle (A (bdb w)) h = Some (makeLogConfigKeyName kg) \<longrightarrow> bseq w kg = Some h)"

text \<open>Every number at or above \<open>N\<close> is unused in the sequence of a keygroup, if the latter is exclusive.\<close>

definition seq_at :: "('db \<Rightarrow> bview) \<Rightarrow> string \<Rightarrow> nat \<Rightarrow> 'db BadgerStorage \<Rightarrow> bool" where
  "seq_at A kg N w \<longleftrightarrow> seq_single A kg w \<and> bissued (A (bdb w)) (makeLogConfigKeyName kg) = N"

definition bframe :: "('db \<Rightarrow> bview) \<Rightarrow> 'db BadgerStorage \<Rightarrow> 'db BadgerStorage \<Rightarrow> bool" where
  "bframe A w w' \<longleftrightarrow> bseq w' = bseq w \<and> bhandle (A (bdb w')) = bhandle (A (bdb w)) \<and>
     bissued (A (bdb w')) = bissued (A (bdb w))"

lemma seq_at_frame: "bframe A w w' \<Longrightarrow> seq_at A kg N w \<Longrightarrow> seq_at A kg N w'"
  by (simp add: bframe_def seq_at_def seq_single_def)

lemma bframe_put: "b_to A w (kv_put k s x (A (bdb w))) w' \<Longrightarrow> bframe A w w'"
  by (simp add: b_to_def bframe_def kv_put_def)

lemma bframe_same: "bsame A w w' \<Longrightarrow> bframe A w w'"
  by (simp add: bsame_def bframe_def)

text \<open>The loops over an iterator build the map of what it yields, entry by entry.\<close>

lemma readAll_loop_spec:
  assumes "map fst its = map (makeKeyName kg) ids" "distinct (map fst acc @ ids)"
    and "sep \<notin> set kg" "\<forall>j \<in> set ids. sep \<notin> set j"
    and "\<forall>(k, r) \<in> set its. r = Ok (f k) \<or> (\<exists>e. r = Err e)"
  shows "readAll_loop its acc = Ok (acc @ map (\<lambda>j. (j, f (makeKeyName kg j))) ids) \<or>
    (\<exists>k e. (k, Err e) \<in> set its \<and> readAll_loop its acc = Err e)"
  using assms
proof (induction its acc arbitrary: ids rule: readAll_loop.induct)
  case (2 k r its acc)
  then obtain j js where ids: "ids = j # js" "k = makeKeyName kg j" by auto
  with 2 have "getKey k = (kg, j)" and put: "map_put j v acc = acc @ [(j, v)]" for v
    by (auto simp: getKey_makeKeyName intro!: map_put_fresh)
  with 2 ids show ?case by (auto split: result.splits)
qed simp

lemma readSome_loop_take:
  "n \<le> cnt \<Longrightarrow> readSome_loop n cnt its acc = readAll_loop (take (unat cnt - unat n) its) acc"
proof (induction n cnt its acc rule: readSome_loop.induct)
  case (2 n cnt k v its acc)
  show ?case
  proof (cases "n < cnt")
    case True
    then have less: "unat n < unat cnt" by (simp add: word_less_nat_alt)
    then have suc: "unat (n + 1) = Suc (unat n)"
      using unsigned_less [of cnt, where 'a = nat] by (simp add: unat_word_ariths)
    with less have "n + 1 \<le> cnt" by (simp add: word_le_nat_alt)
    moreover from less have "unat cnt - unat n = Suc (unat cnt - Suc (unat n))" by simp
    ultimately show ?thesis using suc True 2 by (auto split: result.splits)
  qed (use 2 in simp)
qed simp

lemma trigger_loop_spec:
  assumes "map fst its = map (makeTriggerConfigKeyName kg) ts" "distinct (map fst acc @ ts)"
    and "sep \<notin> set kg" "\<forall>(k, r) \<in> set its. r = Ok (f k) \<or> (\<exists>e. r = Err e)"
  shows "trigger_loop its acc =
      Ok (acc @ map (\<lambda>t. (t, f (makeTriggerConfigKeyName kg t))) (filter valid_tid ts)) \<or>
    (\<exists>k e. (k, Err e) \<in> set its \<and> trigger_loop its acc = Err e)"
  using assms
proof (induction its acc arbitrary: ts rule: trigger_loop.induct)
  case (2 k r its acc)
  then obtain t ts' where ts: "ts = t # ts'" "k = makeTriggerConfigKeyName kg t" by auto
  with 2 have key: "snd (getTriggerConfigKey k) = (if valid_tid t then t else [])"
    and put: "map_put t v acc = acc @ [(t, v)]" for v
    by (auto simp: getTriggerConfigKey_make valid_tid_def intro!: map_put_fresh)
  show ?case
  proof (cases "valid_tid t")
    case True
    then have "t \<noteq> []" by (simp add: valid_tid_def)
    with True 2 ts key put show ?thesis by (auto simp: Let_def split: result.splits)
  next
    case False
    with 2 ts key have "trigger_loop its acc =
        Ok (acc @ map (\<lambda>t. (t, f (makeTriggerConfigKeyName kg t))) (filter valid_tid ts')) \<or>
      (\<exists>k e. (k, Err e) \<in> set its \<and> trigger_loop its acc = Err e)"
      by (intro "2.IH"(1)) (auto simp: Let_def)
    with False ts key show ?thesis by (auto simp: Let_def)
  qed
qed simp

text \<open>What an iterator over the items of a keygroup yields.\<close>

definition ids_from :: "sview \<Rightarrow> string \<Rightarrow> string \<Rightarrow> string list" where
  "ids_from V kg i = sorted_list_of_set {j. sv_items V kg j \<noteq> None \<and> i \<le> j}"

lemma ids_from_subset: "set (ids_from V kg i) \<subseteq> {j. sv_items V kg j \<noteq> None}"
  by (cases "finite {j. sv_items V kg j \<noteq> None \<and> i \<le> j}") (auto simp: ids_from_def)

lemma set_ids_from: "set (take n (ids_from V kg i)) = scan_ids (sv_items V kg) i n"
  by (simp only: ids_from_def scan_ids_def)

lemma iter_items:
  assumes at: "b_at A V w" and kg: "reg_MatchString kg"
    and its: "iter_yields A h w (makeKeyName kg i) (makeKeygroupKeyName kg) its"
  shows "map fst its = map (makeKeyName kg) (ids_from V kg i)"
    and "set (ids_from V kg i) = {j. sv_items V kg j \<noteq> None \<and> i \<le> j}"
proof -
  let ?ks = "map fst its"
  have inv: "binv A w" using at by (simp add: b_at_def)
  have items: "sv_items V kg j \<noteq> None \<longleftrightarrow>
      reg_MatchString j \<and> blive A w (makeKeyName kg j) \<noteq> None" for j
    by (simp add: b_at_items [OF at kg])
  have k: "k \<in> set ?ks \<longleftrightarrow> (\<exists>j. k = makeKeyName kg j \<and> sv_items V kg j \<noteq> None \<and> i \<le> j)" for k
    using prefix_item [OF kg blive_wf [OF inv], of k] kg items its
    by (auto simp: iter_yields_def)
  define js where "js = map (snd \<circ> getKey) ?ks"
  have "makeKeyName kg (snd (getKey k)) = k" if "k \<in> set ?ks" for k
    using that kg items unfolding k by (auto simp: getKey_makeKeyName valid_no_sep)
  then have eq: "?ks = map (makeKeyName kg) js"
    unfolding js_def by (subst map_idI [of ?ks "makeKeyName kg \<circ> (snd \<circ> getKey)", symmetric])
      (simp_all only: comp_def map_map)
  with its have js: "sorted_wrt (<) js" by (simp add: iter_yields_def sorted_wrt_map)
  have "j \<in> set js \<longleftrightarrow> sv_items V kg j \<noteq> None \<and> i \<le> j" for j
    using k [of "makeKeyName kg j"] kg unfolding eq by auto
  then have set_js: "set js = {j. sv_items V kg j \<noteq> None \<and> i \<le> j}" by blast
  have "js = ids_from V kg i"
    unfolding ids_from_def set_js [symmetric] using js
    by (simp add: strict_sorted_iff sorted_list_of_set.idem_if_sorted_distinct)
  with eq set_js show "?ks = map (makeKeyName kg) (ids_from V kg i)"
    "set (ids_from V kg i) = {j. sv_items V kg j \<noteq> None \<and> i \<le> j}" by simp_all
qed

lemma map_of_ids:
  assumes "set js \<subseteq> {j. m j \<noteq> None}"
  shows "map_of (map (\<lambda>j. (j, the (m j))) js) = m |` set js"
  using assms by (auto simp: fun_eq_iff map_of_map_restrict restrict_map_def)

lemma iter_loop:
  assumes at: "b_at A V w" and kg: "reg_MatchString kg"
    and its: "iter_yields A h w (makeKeyName kg i) (makeKeygroupKeyName kg) its"
  shows "readAll_loop (take n its) [] =
      Ok (map (\<lambda>j. (j, the (sv_items V kg j))) (take n (ids_from V kg i))) \<or>
    \<not> h \<and> (\<exists>e. readAll_loop (take n its) [] = Err e)"
proof -
  note items = iter_items [OF at kg its]
  have ids: "reg_MatchString j" if "j \<in> set (ids_from V kg i)" for j
    using that at kg by (auto simp: items(2) b_at_items split: if_splits)
  have rs: "\<forall>(k, r) \<in> set (take n its). r = Ok (the (blive A w k)) \<or> \<not> h \<and> (\<exists>e. r = Err e)"
    using its unfolding iter_yields_def by (meson in_set_takeD)
  have "readAll_loop (take n its) [] =
      Ok ([] @ map (\<lambda>j. (j, the (blive A w (makeKeyName kg j)))) (take n (ids_from V kg i))) \<or>
    (\<exists>k e. (k, Err e) \<in> set (take n its) \<and> readAll_loop (take n its) [] = Err e)"
  proof (rule readAll_loop_spec [where f = "\<lambda>k. the (blive A w k)"])
    show "map fst (take n its) = map (makeKeyName kg) (take n (ids_from V kg i))"
      by (simp only: take_map [symmetric] items(1))
    show "\<forall>j \<in> set (take n (ids_from V kg i)). sep \<notin> set j"
      using ids valid_no_sep by (meson in_set_takeD)
  qed (use rs kg in \<open>auto simp: valid_no_sep ids_from_def\<close>)
  moreover have "map (\<lambda>j. (j, the (blive A w (makeKeyName kg j)))) (take n (ids_from V kg i)) =
      map (\<lambda>j. (j, the (sv_items V kg j))) (take n (ids_from V kg i))"
    using ids at kg by (auto simp: b_at_item dest: in_set_takeD)
  ultimately show ?thesis using rs by auto
qed

context badger_backend
begin

text \<open>The library calls as triples over the abstract view.\<close>

lemma get_triple:
  "triple (b_at A V) (b_View_Get B k)
    (\<lambda>r w. b_at A V w \<and> (\<exists>s. blive A w k = Some s \<and>
       (r = Ok s \<or> \<not> healthy \<and> (\<exists>e. r = Err e \<and> e \<noteq> b_ErrKeyNotFound B))))
    (\<lambda>e w. b_at A V w \<and> (e = b_ErrKeyNotFound B \<or> healthy \<longrightarrow> blive A w k = None))"
proof (rule tripleI_cases, goal_cases)
  case (1 w r w')
  then show ?case using get_Ok [of k w r w'] blive_same [of A w w'] b_at_same [of A w w' V]
    by auto
next
  case (2 w e w')
  then show ?case using get_Err [of k w e w'] blive_same [of A w w'] b_at_same [of A w w' V]
    by auto
qed (rule get_no_Panic)

lemma iter_triple:
  assumes "prefix pre p"
  shows "triple (b_at A V) (b_Iterate B pre s p)
    (\<lambda>its w. b_at A V w \<and> iter_yields A healthy w s p its)
    (\<lambda>e w. b_at A V w \<and> \<not> healthy)"
proof (rule tripleI_cases, goal_cases)
  case (1 w its w')
  then have "blive A w' = blive A w" "b_at A V w'"
    using iter_Ok [OF assms 1(2)] blive_same [of A w w'] b_at_same [of A w w' V] by simp_all
  with iter_Ok [OF assms 1(2)] show ?case by (simp add: iter_yields_def)
next
  case (2 w e w')
  then show ?case using iter_Err [OF assms 2(2)] b_at_same [of A w w' V] by simp
qed (rule iter_no_Panic)

lemma del_triple:
  "triple (\<lambda>w. w = w0 \<and> binv A w) (b_Update_Delete B k)
    (\<lambda>_ w. binv A w \<and> blive A w = blive A w0 |` (- {k}))
    (\<lambda>e w. bsame A w0 w \<and> (healthy \<longrightarrow> blive A w0 k = None))"
  by (rule tripleI_cases)
     (use del_no_Panic in \<open>auto dest: del_Ok del_Err intro: binv_del blive_del\<close>)

lemma batch_triple:
  "triple (\<lambda>w. w = w0 \<and> binv A w) (b_WriteBatch_Delete B ks)
    (\<lambda>_ w. binv A w \<and> blive A w = blive A w0 |` (- set ks))
    (\<lambda>e w. binv A w \<and> \<not> healthy)"
  by (rule tripleI_cases)
     (use batch_no_Panic in \<open>auto dest!: batch_Ok batch_Err intro: binv_del blive_del\<close>)

lemma put_triple:
  assumes "wf_key k" "int64 x"
  shows "triple (\<lambda>w. w = w0 \<and> binv A w) (bPut B k s x)
    (\<lambda>_ w. binv A w \<and> blive A w = (blive A w0)(k \<mapsto> s) \<and> bframe A w0 w)
    (\<lambda>e w. bsame A w0 w \<and> \<not> healthy)"
proof (rule tripleI_cases, goal_cases)
  case (1 w u w')
  show ?case
  proof (cases "x > 0")
    case True
    with 1 assms(2) have "word_of_int (bclock w) < expiresAt (bclock w) x"
      by (intro expiresAt_later) (auto simp: binv_def int64_def)
    with True 1 show ?thesis
      by (auto simp: op_runs bPut_def dest!: setEntry_Ok intro: binv_put [OF _ assms(1)] blive_put bframe_put)
  next
    case False
    with 1 show ?thesis
      by (auto simp: op_runs bPut_def dest!: set_Ok intro: binv_put [OF _ assms(1)] blive_put bframe_put)
  qed
next
  case (2 w e w')
  then show ?case
    using setEntry_Err set_Err [of k s "ret ()"]
    by (fastforce simp: op_runs bPut_def split: if_splits)
next
  case (3 w w')
  then show ?case
    using setEntry_no_Panic set_no_Panic [of "ret ()"] by (simp add: op_runs bPut_def)
qed

lemma set_triple:
  assumes "wf_key k"
  shows "triple (\<lambda>w. w = w0 \<and> binv A w) (b_Update_Set B k s (ret ()))
    (\<lambda>_ w. binv A w \<and> blive A w = (blive A w0)(k \<mapsto> s) \<and> bframe A w0 w)
    (\<lambda>e w. bsame A w0 w \<and> \<not> healthy)"
proof -
  have "bPut B k s 0 = b_Update_Set B k s (ret ())"
    by (simp add: bPut_def fun_eq_iff)
  then show ?thesis using put_triple [OF assms, of 0 w0 s] by (simp add: int64_def)
qed

subsection \<open>Reading\<close>

lemma read_triple:
  assumes "reg_MatchString kg" "reg_MatchString i"
  shows "triple (b_at A V) (bRead B kg i)
    (\<lambda>v w. b_at A V w \<and> sv_items V kg i = Some v)
    (\<lambda>e w. b_at A V w \<and> is_wrapped e \<and> (healthy \<longrightarrow> sv_items V kg i = None))"
  unfolding bRead_def
  by (rule tripleI)
     (auto simp: wp_simps b_at_item [OF _ assms] intro!: wp_call [OF get_triple])

lemma exists_triple:
  "triple (b_at A V) (bExists B kg i)
    (\<lambda>b w. b_at A V w \<and> (reg_MatchString kg \<and> reg_MatchString i \<longrightarrow>
       (b \<longrightarrow> sv_items V kg i \<noteq> None) \<and> (healthy \<longrightarrow> sv_items V kg i \<noteq> None \<longrightarrow> b)))
    (\<lambda>e w. False)"
  unfolding bExists_def
  by (rule tripleI) (auto simp: wp_simps b_at_item intro!: wp_call [OF get_triple])

lemma existsKg_triple:
  "triple (b_at A V) (bExistsKeygroup B kg)
    (\<lambda>b w. b_at A V w \<and> (b \<longrightarrow> kg \<in> sv_kgs V) \<and> (healthy \<longrightarrow> kg \<in> sv_kgs V \<longrightarrow> b))
    (\<lambda>e w. False)"
  unfolding bExistsKeygroup_def
  by (rule tripleI) (auto simp: wp_simps b_at_kg_live intro!: wp_call [OF get_triple])

lemma items_triple:
  assumes "reg_MatchString kg"
  shows "triple (b_at A V)
    (andthen (b_Iterate B (makeKeygroupKeyName kg) (makeKeyName kg i) (makeKeygroupKeyName kg))
      (\<lambda>its. of_result (readAll_loop (take n its) [])))
    (\<lambda>m w. b_at A V w \<and> distinct (map fst m) \<and>
       map_of m = sv_items V kg |` scan_ids (sv_items V kg) i n)
    (\<lambda>e w. b_at A V w \<and> \<not> healthy)"
proof (rule triple_seq [OF iter_triple [OF prefix_order.refl]], goal_cases)
  case (1 its w)
  have "map_of (map (\<lambda>j. (j, the (sv_items V kg j))) (take n (ids_from V kg i))) =
      sv_items V kg |` set (take n (ids_from V kg i))"
    using ids_from_subset [of V kg i] by (intro map_of_ids) (blast dest: in_set_takeD)
  moreover have "distinct (take n (ids_from V kg i))" by (simp add: ids_from_def)
  ultimately show ?case
    using iter_loop [of A V w kg healthy i its n] assms 1
    by (auto simp: wp_of_result_case set_ids_from comp_def)
qed

lemma readSome_triple:
  assumes "reg_MatchString kg"
  shows "triple (b_at A V) (bReadSome B kg i cnt)
    (\<lambda>m w. b_at A V w \<and> distinct (map fst m) \<and>
       map_of m = sv_items V kg |` scan_ids (sv_items V kg) i (unat cnt))
    (\<lambda>e w. b_at A V w \<and> is_wrapped e \<and> \<not> healthy)"
  unfolding bReadSome_def Let_def readSome_loop_take [OF word_zero_le]
  by (rule triple_seq [OF triple_wrap [OF items_triple [OF assms]]])
     (auto simp: wp_simps range_perm map_of_range_map perm_order_distinct)

lemma all_items:
  assumes "b_at A V w" "reg_MatchString kg"
    and "iter_yields A h w (makeKeygroupKeyName kg) (makeKeygroupKeyName kg) its"
  shows "map fst its = map (makeKeyName kg) (ids_from V kg [])"
    and "set (ids_from V kg []) = dom (sv_items V kg)"
    and "take (length its) (ids_from V kg []) = ids_from V kg []"
proof -
  have yields: "iter_yields A h w (makeKeyName kg []) (makeKeygroupKeyName kg) its"
    using assms(3) by (simp add: makeKeygroupKeyName_def makeKeyName_def)
  show fst: "map fst its = map (makeKeyName kg) (ids_from V kg [])"
    and "set (ids_from V kg []) = dom (sv_items V kg)"
    using iter_items [OF assms(1,2) yields] by (auto simp: dom_def)
  from fst have "length its = length (ids_from V kg [])" by (metis length_map)
  then show "take (length its) (ids_from V kg []) = ids_from V kg []" by simp
qed

lemma readAll_triple:
  assumes "reg_MatchString kg"
  shows "triple (b_at A V) (bReadAll B kg)
    (\<lambda>m w. b_at A V w \<and> distinct (map fst m) \<and> map_of m = sv_items V kg)
    (\<lambda>e w. b_at A V w \<and> is_wrapped e \<and> \<not> healthy)"
proof -
  have "triple (b_at A V)
    (andthen (b_Iterate B (makeKeygroupKeyName kg) (makeKeygroupKeyName kg) (makeKeygroupKeyName kg))
      (\<lambda>its. of_result (readAll_loop its [])))
    (\<lambda>m w. b_at A V w \<and> distinct (map fst m) \<and> map_of m = sv_items V kg)
    (\<lambda>e w. b_at A V w \<and> \<not> healthy)"
  proof (rule triple_seq [OF iter_triple [OF prefix_order.refl]], goal_cases)
    case (1 its w)
    then have yields: "iter_yields A healthy w (makeKeyName kg []) (makeKeygroupKeyName kg) its"
      by (simp add: makeKeygroupKeyName_def makeKeyName_def)
    note all = all_items [OF _ assms, of V w healthy its]
    have "map_of (map (\<lambda>j. (j, the (sv_items V kg j))) (ids_from V kg [])) = sv_items V kg"
      using map_of_ids [OF ids_from_subset, of V kg "[]"] 1 all by (auto simp: restrict_map_def fun_eq_iff)
    then show ?case
      using iter_loop [OF _ assms yields, of V "length its"] 1 all
      by (auto simp: wp_of_result_case comp_def) (auto simp: ids_from_def)
  qed
  then show ?thesis
    unfolding bReadAll_def Let_def
    by (rule triple_seq [OF triple_wrap])
       (auto simp: wp_simps range_perm map_of_range_map perm_order_distinct)
qed

lemma ids_triple:
  assumes kg: "reg_MatchString kg"
  shows "triple (b_at A V) (bIDs B kg)
    (\<lambda>ids w. b_at A V w \<and> set ids = dom (sv_items V kg) \<and> sorted_wrt (<) ids)
    (\<lambda>e w. b_at A V w \<and> is_wrapped e \<and> \<not> healthy)"
  unfolding bIDs_def Let_def
proof (rule triple_seq [OF triple_wrap [OF iter_triple [OF prefix_order.refl]]], goal_cases)
  case (1 its w)
  note all = all_items [OF _ kg, of V w healthy its]
  have "map (\<lambda>(k, v). snd (getKey k)) its = map (snd \<circ> getKey) (map fst its)"
    by (simp add: comp_def case_prod_unfold)
  also have "\<dots> = ids_from V kg []"
    using 1 all(1,2) kg unfolding all(1) [OF 1 [THEN conjunct1] 1 [THEN conjunct2]] map_map
    by (intro map_idI)
       (auto simp: b_at_items getKey_makeKeyName valid_no_sep dom_def split: if_splits)
  finally show ?case
    using 1 all by (simp add: wp_ret ids_from_def strict_sorted_list_of_set del: sorted_wrt_map)
qed auto

subsection \<open>Sequences\<close>

text \<open>
  One increment: a number at or above the bound \<open>m\<close> of the open sequence, and at or above every
  number issued before (\<open>N\<close>) when the sequence is exclusive.
\<close>

lemma next_wp:
  assumes at: "b_at A V w" and kg: "reg_MatchString kg" and h: "bseq w kg = Some h"
    and m: "m \<le> bnext (A (bdb w)) h" and N: "x \<longrightarrow> seq_at A kg N w"
  shows "wp (b_Seq_Next B h)
    (\<lambda>n w'. b_at A V w' \<and> m \<le> unat n \<and> seq_ge A kg (Suc (unat n)) w' \<and>
       (x \<longrightarrow> N \<le> unat n \<and> seq_at A kg (Suc (unat n)) w'))
    (\<lambda>e w'. b_at A V w' \<and> (x \<longrightarrow> seq_at A kg N w')) w"
proof -
  have key: "bhandle (A (bdb w)) h = Some (makeLogConfigKeyName kg)"
    by (rule b_at_handle [OF at h])
  show ?thesis
  proof (cases "b_Seq_Next B h w")
    case (Pair r w')
    show ?thesis
    proof (cases r)
      case (Ok n)
      note nx = next_Ok [OF key Pair [unfolded Ok]]
      then have "b_at A V w'" by (intro b_at_seq_frame [OF at kg]) auto
      moreover have "bseq w' = bseq w" using nx by (simp add: seq_frame_def)
      ultimately show ?thesis using nx m h N
        by (auto simp: wp_def Pair Ok seq_ge_def seq_at_def seq_single_def)
    next
      case (Err e)
      note nx = next_Err [OF key Pair [unfolded Err]]
      then have "b_at A V w'" by (intro b_at_seq_frame [OF at kg]) auto
      then show ?thesis using nx N
        by (auto simp: wp_def Pair Err seq_at_def seq_single_def seq_frame_def)
    next
      case Panic
      with next_no_Panic [of w h w'] key Pair show ?thesis by simp
    qed
  qed
qed

lemma getSeq_wp:
  assumes at: "b_at A V w" and kg: "reg_MatchString kg"
    and N: "x \<longrightarrow> seq_at A kg N w \<and> bseq w kg = None"
  shows "wp (b_GetSequence B (makeLogConfigKeyName kg) 100)
    (\<lambda>(h, err) w'. b_at A V (w'\<lparr>bseq := (bseq w')(kg \<mapsto> h)\<rparr>) \<and> b_at A V w' \<and>
       (healthy \<longrightarrow> err = None) \<and> (x \<longrightarrow> seq_at A kg N (w'\<lparr>bseq := (bseq w')(kg \<mapsto> h)\<rparr>)))
    (\<lambda>e w'. False) w"
proof -
  let ?k = "makeLogConfigKeyName kg"
  obtain k' where k: "?k = sep # k'" "(100 :: nat) = Suc 99"
    by (simp add: makeLogConfigKeyName_def)
  obtain h err w' where run: "b_GetSequence B ?k 100 w = (Ok (h, err), w')"
    using getSeq_value [of sep k' 99 w] unfolding k [symmetric] by auto
  have "b_GetSequence B (sep # k') (Suc 99) w = (Ok (h, err), w')" using run unfolding k .
  from getSeq_Ok [OF this]
  have gs: "seq_frame A ?k w w' \<and> bhandle (A (bdb w)) h = None \<and>
        bhandle (A (bdb w')) = (bhandle (A (bdb w)))(h \<mapsto> ?k) \<and>
        bissued (A (bdb w')) = bissued (A (bdb w)) \<and> (healthy \<longrightarrow> err = None)"
    unfolding k(1) .
  have "b_at A V w'"
  proof (rule b_at_seq_frame [OF at kg])
    fix kg' h'
    assume "bseq w kg' = Some h'"
    then have "bhandle (A (bdb w)) h' \<noteq> None" using b_at_handle [OF at] by simp
    with gs show "bhandle (A (bdb w')) h' = bhandle (A (bdb w)) h'" by auto
  qed (use gs in simp)
  moreover have "seq_at A kg N (w'\<lparr>bseq := (bseq w')(kg \<mapsto> h)\<rparr>)" if x
    using gs N that by (auto simp: seq_at_def seq_single_def)
  ultimately show ?thesis
    using gs b_at_bseq [of A V w' h kg] by (simp add: wp_def run)
qed

lemma put_item_triple:
  assumes "reg_MatchString kg" "reg_MatchString i" "int64 x"
  shows "triple (\<lambda>w. b_at A V w \<and> (q \<longrightarrow> seq_at A kg N w)) (wrap_err (bPut B (makeKeyName kg i) s x))
    (\<lambda>_ w. b_at A (upd_item kg i s V) w \<and> (q \<longrightarrow> seq_at A kg N w))
    (\<lambda>e w. b_at A V w \<and> is_wrapped e \<and> \<not> healthy \<and> (q \<longrightarrow> seq_at A kg N w))"
proof (rule tripleI)
  fix w
  assume w: "b_at A V w \<and> (q \<longrightarrow> seq_at A kg N w)"
  then show "wp (wrap_err (bPut B (makeKeyName kg i) s x))
    (\<lambda>_ w. b_at A (upd_item kg i s V) w \<and> (q \<longrightarrow> seq_at A kg N w))
    (\<lambda>e w. b_at A V w \<and> is_wrapped e \<and> \<not> healthy \<and> (q \<longrightarrow> seq_at A kg N w)) w"
    unfolding wp_wrap_err
    by (intro wp_call [OF put_triple [OF wf_key.item [OF assms(1,2)] assms(3), of w s]])
       (auto simp: b_at_def view_put_item [OF assms(1,2)] binv_same bstore_view_same
         intro: seq_at_frame bframe_same)
qed

lemma inc_triple:
  assumes kg: "reg_MatchString kg"
  shows "triple (\<lambda>w. b_at A V w \<and> seq_ge A kg m w \<and> (q \<longrightarrow> seq_at A kg N w)) (incrementSequence B kg)
    (\<lambda>n w. b_at A V w \<and> m \<le> unat n \<and> seq_ge A kg (Suc (unat n)) w \<and>
       (q \<longrightarrow> N \<le> unat n \<and> seq_at A kg (Suc (unat n)) w))
    (\<lambda>e w. b_at A V w \<and> is_wrapped e)"
    (is "triple _ _ ?Q ?E")
proof (rule tripleI)
  define Q where "Q = ?Q"
  define E where "E = ?E"
  fix w
  assume w: "b_at A V w \<and> seq_ge A kg m w \<and> (q \<longrightarrow> seq_at A kg N w)"
  have nxt: "wp (wrap_err (b_Seq_Next B h)) Q E w1"
    if "b_at A V w1" "bseq w1 kg = Some h" "m \<le> bnext (A (bdb w1)) h" "q \<longrightarrow> seq_at A kg N w1" for h w1
    unfolding wp_wrap_err Q_def E_def
    by (rule wp_mono [OF next_wp [OF that(1) kg that(2-4)]]) auto
  have "wp (incrementSequence B kg) Q E w"
  proof (cases "bseq w kg")
    case None
    then have m: "m \<le> n" for n using w by (auto simp: seq_ge_def)
    have "E (errors_New e) w1" if "b_at A V w1" for e w1 using that by (simp add: E_def)
    then have "wp (b_GetSequence B (makeLogConfigKeyName kg) 100)
      (\<lambda>x. wp (case x of (newSeq, err) \<Rightarrow>
               case err of
                 Some e \<Rightarrow> fail (errors_New e)
               | None \<Rightarrow> andthen (modify (\<lambda>w. w\<lparr>bseq := (bseq w)(kg \<mapsto> newSeq)\<rparr>))
                                  (\<lambda>_. wrap_err (b_Seq_Next B newSeq))) Q E) E w"
      by (intro wp_mono [OF getSeq_wp [of V w kg q N]])
         (use w kg None in \<open>auto simp: wp_andthen wp_modify wp_fail intro!: nxt m split: option.splits\<close>)
    then show ?thesis
      by (simp add: wp_def [of "incrementSequence B kg"] incrementSequence_def None
          wp_def [of "andthen _ _", symmetric] wp_andthen)
  next
    case (Some h)
    then show ?thesis
      using nxt [of w h] w by (auto simp: wp_def incrementSequence_def seq_ge_def)
  qed
  then show "wp (incrementSequence B kg) ?Q ?E w" by (simp only: Q_def E_def)
qed

text \<open>
  The loop that catches up with an identifier appended elsewhere ends: each increment is
  above the previous one, so \<open>unat k + 1\<close> of them reach \<open>k\<close>.
\<close>

lemma catchUp_triple:
  assumes "reg_MatchString kg" "m \<le> unat k" "unat k < m + fuel"
  shows "triple (\<lambda>w. b_at A V w \<and> seq_ge A kg m w \<and> (q \<longrightarrow> seq_at A kg N w)) (catchUp fuel B kg k)
    (\<lambda>_ w. b_at A V w \<and> (q \<and> 0 < k \<longrightarrow> (\<exists>N' > unat k. N \<le> N' \<and> seq_at A kg N' w)))
    (\<lambda>e w. b_at A V w \<and> is_wrapped e)"
  using assms(2,3)
proof (induction fuel arbitrary: m N)
  case (Suc fuel)
  show ?case
    unfolding catchUp.simps
  proof (rule tripleI, unfold wp_attempt, rule wp_call [OF inc_triple [OF assms(1)]], assumption,
      goal_cases)
    case (1 w n w')
    show ?case
    proof (cases "n < k")
      case True
      then have "Suc (unat n) \<le> unat k" by (simp add: word_less_nat_alt)
      with 1 Suc.prems have "triple
        (\<lambda>w. b_at A V w \<and> seq_ge A kg (Suc (unat n)) w \<and> (q \<longrightarrow> seq_at A kg (Suc (unat n)) w))
        (catchUp fuel B kg k)
        (\<lambda>_ w. b_at A V w \<and>
           (q \<and> 0 < k \<longrightarrow> (\<exists>N' > unat k. Suc (unat n) \<le> N' \<and> seq_at A kg N' w)))
        (\<lambda>e w. b_at A V w \<and> is_wrapped e)"
        by (intro Suc.IH) auto
      with 1 True show ?thesis
        by (simp add: wp_if) (rule wp_call, assumption, force+)
    next
      case False
      with 1 show ?thesis by (auto simp: wp_simps word_less_nat_alt intro!: exI [of _ "Suc (unat n)"])
    qed
  next
    case (2 w e w')
    then show ?case by (auto simp: wp_simps word_gt_0)
  qed
qed simp

subsection \<open>Writing\<close>

lemma update_triple:
  assumes "reg_MatchString kg" "reg_MatchString i" "int64 x"
  shows "triple (b_at A V) (bUpdate B kg i s app x)
    (\<lambda>_ w. b_at A (upd_item kg i s V) w)
    (\<lambda>e w. b_at A V w \<and> is_wrapped e \<and> (healthy \<longrightarrow> app))"
proof -
  note catchup = catchUp_triple [OF assms(1), where q = False and m = 0 and N = 0 and V = V]
  note put = put_item_triple [OF assms(1-3), where q = False and N = 0]
  show ?thesis
  unfolding bUpdate_def
  by (rule tripleI)
     (auto simp: wp_andthen wp_ret wp_fail seq_ge_def simp del: catchUp.simps split: option.splits
       intro!: wp_call [OF put] wp_call [OF catchup])
qed

text \<open>
  Appending issues an identifier and stores the value under it. With an exclusive sequence the
  identifier is at or above every number issued before.
\<close>

lemma append_triple:
  assumes "reg_MatchString kg" "int64 x"
  shows "triple (\<lambda>w. b_at A V w \<and> (q \<longrightarrow> seq_at A kg N w)) (bAppend B kg s x)
    (\<lambda>i w. b_at A (upd_item kg i s V) w \<and>
       (\<exists>n. i = FormatUint n \<and> (q \<longrightarrow> N \<le> n \<and> seq_at A kg (Suc n) w)))
    (\<lambda>e w. b_at A V w \<and> is_wrapped e)"
  unfolding bAppend_def Let_def
proof (rule tripleI)
  fix w
  assume w: "b_at A V w \<and> (q \<longrightarrow> seq_at A kg N w)"
  show "wp (andthen (wrap_err (incrementSequence B kg))
      (\<lambda>n. andthen (wrap_err (bPut B (makeKeyName kg (FormatUint (unat n))) s x))
              (\<lambda>_. ret (FormatUint (unat n)))))
    (\<lambda>i w. b_at A (upd_item kg i s V) w \<and>
       (\<exists>n. i = FormatUint n \<and> (q \<longrightarrow> N \<le> n \<and> seq_at A kg (Suc n) w)))
    (\<lambda>e w. b_at A V w \<and> is_wrapped e) w"
    unfolding wp_andthen wp_ret
    by (rule wp_call [OF triple_wrap [OF inc_triple [OF assms(1), of V 0 q N]]],
        use w in \<open>simp add: seq_ge_def\<close>,
        rule wp_call [OF put_item_triple [OF assms(1) FormatUint_valid assms(2)]])
       auto
qed

lemma delete_triple:
  assumes "reg_MatchString kg" "reg_MatchString i"
  shows "triple (b_at A V) (bDelete B kg i)
    (\<lambda>_ w. b_at A (del_item kg i V) w)
    (\<lambda>e w. b_at A V w \<and> is_wrapped e \<and> (healthy \<longrightarrow> sv_items V kg i = None))"
  unfolding bDelete_def
proof (rule tripleI, unfold wp_attempt)
  fix w
  assume at: "b_at A V w"
  show "wp (b_Update_Delete B (makeKeyName kg i))
     (\<lambda>x. wp (ret x) (\<lambda>_. b_at A (del_item kg i V))
       (\<lambda>e w. b_at A V w \<and> is_wrapped e \<and> (healthy \<longrightarrow> sv_items V kg i = None)))
     (\<lambda>e. wp (if e = b_ErrKeyNotFound B
       then fail (Wrapped (''key not found in database: '' @ i @ '' in keygroup '' @ kg))
       else fail (errors_New e))
       (\<lambda>_. b_at A (del_item kg i V))
       (\<lambda>e w. b_at A V w \<and> is_wrapped e \<and> (healthy \<longrightarrow> sv_items V kg i = None))) w"
    by (rule wp_call [OF del_triple [of w]])
       (use at assms in \<open>auto simp: wp_simps b_at_same b_at_item, auto simp: b_at_def view_del_item\<close>)
qed

lemma create_triple:
  assumes "reg_MatchString kg"
  shows "triple (b_at A V) (bCreateKeygroup B kg)
    (\<lambda>_ w. b_at A (add_kg kg V) w)
    (\<lambda>e w. b_at A V w \<and> is_wrapped e \<and> \<not> healthy)"
proof -
  define rest where "rest =
    andthen (b_GetSequence B (makeLogConfigKeyName kg) 100)
      (\<lambda>(newSeq, err). andthen (modify (\<lambda>w. w\<lparr>bseq := (bseq w)(kg \<mapsto> newSeq)\<rparr>))
         (\<lambda>_. case err of Some e \<Rightarrow> fail e | None \<Rightarrow> ret ()))"
  have rest: "wp rest (\<lambda>_. b_at A V) (\<lambda>e w. b_at A V w \<and> \<not> healthy) w" if "b_at A V w" for w
    unfolding rest_def wp_andthen
    by (rule wp_mono [OF getSeq_wp [OF that assms, of False 0]])
       (auto simp: wp_simps split: option.splits)
  have "triple (b_at A V) (b_Update_Set B (makeKeygroupConfigKeyName kg) kg rest)
    (\<lambda>_ w. b_at A (add_kg kg V) w) (\<lambda>e w. b_at A V w \<and> \<not> healthy)"
  proof (rule tripleI_cases, goal_cases)
    case (1 w u w')
    then obtain w1 where w1: "rest w = (Ok (), w1)"
      "b_to A w1 (kv_put (makeKeygroupConfigKeyName kg) kg 0 (A (bdb w1))) w'"
      using set_Ok by blast
    then have "b_at A V w1" using wp_Ok [OF rest [OF 1(1)]] by simp
    then show ?case
      using binv_put [OF _ wf_key.config [OF assms] w1(2)] blive_put [OF w1(2)]
        view_put_config [OF assms, of A w' w1]
      by (simp add: b_at_def)
  next
    case (2 w e w')
    from set_Err [OF 2(2)] show ?case
    proof (elim disjE exE)
      assume "bsame A w w' \<and> \<not> healthy"
      with 2(1) show ?thesis using b_at_same [of A w w' V] by simp
    next
      fix r w1
      assume r: "rest w = (r, w1) \<and> bsame A w1 w' \<and> (\<not> healthy \<or> r = Err e)"
      with rest [OF 2(1)] have "b_at A V w1 \<and> \<not> healthy"
        by (cases r) (auto simp: wp_def)
      with r show ?thesis using b_at_same [of A w1 w' V] by simp
    qed
  next
    case (3 w w')
    then show ?case using set_no_Panic wp_no_Panic [OF rest [OF 3]] by blast
  qed
  then show ?thesis
    unfolding bCreateKeygroup_def rest_def [symmetric]
    by (rule triple_conseq [OF triple_wrap]) auto
qed

lemma iter_same_triple:
  assumes "prefix pre p"
  shows "triple (\<lambda>w. w = w0) (b_Iterate B pre s p)
    (\<lambda>its w. bsame A w0 w \<and> iter_yields A healthy w0 s p its) (\<lambda>e w. bsame A w0 w \<and> \<not> healthy)"
  by (rule tripleI_cases)
     (use iter_Ok [OF assms] iter_Err [OF assms] iter_no_Panic in blast)+

text \<open>Deleting a prefix removes exactly the keys with that prefix.\<close>

lemma deletePrefix_triple:
  "triple (\<lambda>w. w = w0 \<and> binv A w) (bDeletePrefix B p)
    (\<lambda>_ w. binv A w \<and> blive A w = blive A w0 |` {k. \<not> prefix p k})
    (\<lambda>e w. binv A w \<and> is_wrapped e \<and> \<not> healthy)"
proof (rule tripleI)
  fix w
  assume w: "w = w0 \<and> binv A w"
  have batch: "wp (wrap_err (b_WriteBatch_Delete B (map fst its)))
      (\<lambda>_ w. binv A w \<and> blive A w = blive A w0 |` {k. \<not> prefix p k})
      (\<lambda>e w. binv A w \<and> is_wrapped e \<and> \<not> healthy) w1"
    if "bsame A w0 w1" "iter_yields A healthy w0 p p its" for its w1
  proof -
    have "blive A w1 |` (- set (map fst its)) = blive A w0 |` {k. \<not> prefix p k}"
      using that(2) blive_same [OF that(1)]
      by (auto simp: iter_yields_def restrict_map_def fun_eq_iff prefix_le)
    then show ?thesis
      unfolding wp_wrap_err
      by (intro wp_call [OF batch_triple [of w1]])
         (use w binv_same [OF that(1)] in auto)
  qed
  show "wp (bDeletePrefix B p)
      (\<lambda>_ w. binv A w \<and> blive A w = blive A w0 |` {k. \<not> prefix p k})
      (\<lambda>e w. binv A w \<and> is_wrapped e \<and> \<not> healthy) w"
    unfolding bDeletePrefix_def wp_andthen
    by (rule wp_call [OF triple_wrap [OF iter_same_triple [of "[]" p w0]]])
       (use w binv_same in \<open>auto intro: batch\<close>)
qed

lemma release_triple:
  assumes kg: "reg_MatchString kg"
  shows "triple (b_at A V) (bReleaseSequence B kg)
    (\<lambda>_ w. b_at A V w \<and> bseq w kg = None) (\<lambda>e w. b_at A V w \<and> \<not> healthy)"
proof (rule tripleI)
  fix w
  assume at: "b_at A V w"
  show "wp (bReleaseSequence B kg) (\<lambda>_ w. b_at A V w \<and> bseq w kg = None)
    (\<lambda>e w. b_at A V w \<and> \<not> healthy) w"
  proof (cases "bseq w kg")
    case None
    with at show ?thesis by (simp add: op_runs wp_def bReleaseSequence_def)
  next
    case (Some h)
    note key = b_at_handle [OF at Some]
    obtain r w1 where run: "b_Seq_Release B h w = (r, w1)" by force
    show ?thesis
    proof (cases r)
      case (Ok u)
      note rel = release_Ok [OF key run [unfolded Ok]]
      let ?w = "w\<lparr>bseq := (bseq w)(kg := None)\<rparr>" and ?w1 = "w1\<lparr>bseq := (bseq w1)(kg := None)\<rparr>"
      have "bhandle (A (bdb ?w1)) h' = bhandle (A (bdb ?w)) h'" if "bseq ?w kg' = Some h'" for kg' h'
        using that rel key b_at_handle [OF at, of kg' h'] by (auto split: if_splits)
      moreover have "seq_frame A (makeLogConfigKeyName kg) ?w ?w1"
        using rel by (simp add: seq_frame_def)
      ultimately have "b_at A V ?w1"
        using b_at_seq_frame [OF b_at_bseq_None [OF at, of kg] kg] by blast
      with run Ok Some show ?thesis by (simp add: op_runs wp_def bReleaseSequence_def)
    next
      case (Err e)
      note rel = release_Err [OF key run [unfolded Err]]
      then have "b_at A V w1" by (intro b_at_seq_frame [OF at kg]) auto
      with rel run Err Some show ?thesis by (simp add: op_runs wp_def bReleaseSequence_def)
    next
      case Panic
      with release_no_Panic [of w h w1] key run show ?thesis by simp
    qed
  qed
qed

lemma deleteKg_triple:
  assumes kg: "reg_MatchString kg"
  shows "triple (b_at A V) (bDeleteKeygroup B kg)
    (\<lambda>_ w. b_at A (del_kg kg V) w \<and> bseq w kg = None)
    (\<lambda>e w. binv A w \<and> (healthy \<longrightarrow> kg \<notin> sv_kgs V))"
    (is "triple _ _ ?Q ?E")
proof (rule tripleI)
  fix w
  assume at: "b_at A V w"
  have three: "wp (bReleaseSequence B kg) ?Q ?E w3"
    if "binv A w3" "blive A w3 = blive A w |` (- {makeKeygroupConfigKeyName kg})
      |` {k. \<not> prefix (makeKeygroupKeyName kg) k}
      |` {k. \<not> prefix (makeTriggerConfigKeyName kg []) k}" for w3
    by (rule wp_call [OF release_triple [OF kg, of "del_kg kg V"]])
       (use at that view_del_kg [OF kg that(2)] in \<open>auto simp: b_at_def\<close>)
  have two: "wp (andthen (bDeletePrefix B (makeTriggerConfigKeyName kg []))
      (\<lambda>_. bReleaseSequence B kg)) ?Q ?E w2"
    if "binv A w2" "blive A w2 = blive A w |` (- {makeKeygroupConfigKeyName kg})
      |` {k. \<not> prefix (makeKeygroupKeyName kg) k}" for w2
    unfolding wp_andthen
    by (rule wp_call [OF deletePrefix_triple [of w2]]) (use that in \<open>auto intro!: three\<close>)
  have one: "wp (andthen (bDeletePrefix B (makeKeygroupKeyName kg))
      (\<lambda>_. andthen (bDeletePrefix B (makeTriggerConfigKeyName kg []))
      (\<lambda>_. bReleaseSequence B kg))) ?Q ?E w1"
    if "binv A w1" "blive A w1 = blive A w |` (- {makeKeygroupConfigKeyName kg})" for w1
    unfolding wp_andthen [of "bDeletePrefix B (makeKeygroupKeyName kg)"]
    by (rule wp_call [OF deletePrefix_triple [of w1]]) (use that in \<open>auto intro!: two\<close>)
  show "wp (bDeleteKeygroup B kg) ?Q ?E w"
    unfolding bDeleteKeygroup_def wp_attempt
  proof (rule wp_call [OF del_triple [of w]], goal_cases)
    case (3 e w1)
    then show ?case
      using at binv_same [of A w w1] b_at_kg_live(1) [OF at, of kg]
      by (auto simp: wp_if wp_fail b_at_def)
  qed (use at in \<open>simp add: b_at_def\<close>, blast intro: one)
qed

subsection \<open>Triggers\<close>

lemma addTrig_triple:
  assumes "reg_MatchString kg"
  shows "triple (b_at A V) (bAddKeygroupTrigger B kg t h)
    (\<lambda>_ w. b_at A (if valid_tid t then add_trig kg t h V else V) w)
    (\<lambda>e w. b_at A V w \<and> is_wrapped e \<and> \<not> healthy)"
proof (rule tripleI)
  fix w
  assume "b_at A V w"
  then show "wp (bAddKeygroupTrigger B kg t h)
    (\<lambda>_ w. b_at A (if valid_tid t then add_trig kg t h V else V) w)
    (\<lambda>e w. b_at A V w \<and> is_wrapped e \<and> \<not> healthy) w"
    unfolding bAddKeygroupTrigger_def wp_wrap_err
    by (intro wp_call [OF set_triple [OF wf_key.trig [OF assms], of w]])
       (auto simp: b_at_def binv_same bstore_view_same view_put_trigger [OF assms])
qed

lemma delTrig_triple:
  assumes "reg_MatchString kg"
  shows "triple (b_at A V) (bDeleteKeygroupTrigger B kg t)
    (\<lambda>_ w. b_at A (if valid_tid t then del_trig kg t V else V) w)
    (\<lambda>e w. b_at A V w \<and> is_wrapped e \<and> (healthy \<longrightarrow> sv_trigs V kg t = None))"
proof (rule tripleI)
  fix w
  assume at: "b_at A V w"
  have "sv_trigs V kg t = None" if "blive A w (makeTriggerConfigKeyName kg t) = None"
    using that at assms by (simp add: b_at_trigs)
  then show "wp (bDeleteKeygroupTrigger B kg t)
    (\<lambda>_ w. b_at A (if valid_tid t then del_trig kg t V else V) w)
    (\<lambda>e w. b_at A V w \<and> is_wrapped e \<and> (healthy \<longrightarrow> sv_trigs V kg t = None)) w"
    unfolding bDeleteKeygroupTrigger_def wp_wrap_err using at
    by (intro wp_call [OF del_triple [of w]])
       (auto simp: b_at_def binv_same bstore_view_same view_del_trigger [OF assms])
qed

lemma iter_triggers:
  assumes at: "b_at A V w" and kg: "reg_MatchString kg"
    and its: "iter_yields A h w (makeTriggerConfigKeyName kg []) (makeTriggerConfigKeyName kg []) its"
  obtains ts where "map fst its = map (makeTriggerConfigKeyName kg) ts" "distinct ts"
    "\<And>t. t \<in> set ts \<longleftrightarrow> blive A w (makeTriggerConfigKeyName kg t) \<noteq> None"
proof -
  let ?p = "makeTriggerConfigKeyName kg []"
  have p: "prefix ?p k \<longleftrightarrow> (\<exists>t. k = makeTriggerConfigKeyName kg t)" for k
    by (auto simp: prefix_def makeTriggerConfigKeyName_def)
  have key: "k \<in> set (map fst its) \<longleftrightarrow>
      blive A w k \<noteq> None \<and> (\<exists>t. k = makeTriggerConfigKeyName kg t)" for k
    using its prefix_le [of ?p] p by (auto simp: iter_yields_def)
  then obtain f where f: "\<forall>k \<in> set (map fst its). k = makeTriggerConfigKeyName kg (f k)"
    by metis
  define ts where "ts = map f (map fst its)"
  have fst: "map fst its = map (makeTriggerConfigKeyName kg) ts"
    unfolding ts_def using f
    by (subst map_idI [of "map fst its" "makeTriggerConfigKeyName kg \<circ> f", symmetric])
      (simp_all only: comp_def map_map)
  moreover have "distinct (map fst its)"
    using its strict_sorted_iff by (auto simp: iter_yields_def)
  then have "distinct ts" unfolding fst by (simp add: distinct_map)
  moreover have "t \<in> set ts \<longleftrightarrow> blive A w (makeTriggerConfigKeyName kg t) \<noteq> None" for t
    using key [of "makeTriggerConfigKeyName kg t"] kg unfolding fst by auto
  ultimately show thesis using that by blast
qed

lemma getTrig_triple:
  assumes kg: "reg_MatchString kg"
  shows "triple (b_at A V) (bGetKeygroupTrigger B kg)
    (\<lambda>m w. b_at A V w \<and> distinct (map fst m) \<and> map_of m = sv_trigs V kg)
    (\<lambda>e w. b_at A V w \<and> is_wrapped e \<and> \<not> healthy)"
proof -
  let ?p = "makeTriggerConfigKeyName kg []"
  have "triple (b_at A V) (andthen (b_Iterate B ?p ?p ?p) (\<lambda>its. of_result (trigger_loop its [])))
    (\<lambda>m w. b_at A V w \<and> distinct (map fst m) \<and> map_of m = sv_trigs V kg)
    (\<lambda>e w. b_at A V w \<and> \<not> healthy)"
  proof (rule triple_seq [OF iter_triple [OF prefix_order.refl]], goal_cases)
    case (1 its w)
    then obtain ts where ts: "map fst its = map (makeTriggerConfigKeyName kg) ts" "distinct ts"
      and live: "\<And>t. t \<in> set ts \<longleftrightarrow> blive A w (makeTriggerConfigKeyName kg t) \<noteq> None"
      using iter_triggers [of V w kg healthy its] kg by blast
    have rs: "\<forall>(k, r) \<in> set its. r = Ok (the (blive A w k)) \<or> \<not> healthy \<and> (\<exists>e. r = Err e)"
      using 1 by (simp add: iter_yields_def)
    let ?m = "map (\<lambda>t. (t, the (blive A w (makeTriggerConfigKeyName kg t)))) (filter valid_tid ts)"
    have "map_of ?m = sv_trigs V kg"
      using 1 kg live by (auto simp: fun_eq_iff b_at_trigs map_of_map_restrict restrict_map_def)
    moreover have "trigger_loop its [] = Ok ?m \<or>
        (\<exists>k e. (k, Err e) \<in> set its \<and> trigger_loop its [] = Err e)"
      using trigger_loop_spec [OF ts(1), of "[]" "\<lambda>k. the (blive A w k)"] ts(2) kg rs
      by (auto simp: valid_no_sep)
    ultimately show ?case
      using 1 rs ts(2) by (auto simp: wp_of_result_case comp_def)
  qed
  then show ?thesis
    unfolding bGetKeygroupTrigger_def Let_def
    by (rule triple_seq [OF triple_wrap])
       (auto simp: wp_simps range_perm map_of_range_map perm_order_distinct)
qed

subsection \<open>The backend implements the contract\<close>

lemma badger_refines: "store_spec (badgerdb_Store B) (binv A) (bstore_view A) healthy"
  unfolding badgerdb_Store_def
proof (unfold_locales, unfold Store.simps, goal_cases)
  case (1 w kg)
  then show ?case by (simp add: bstore_view_def)
next
  case (2 kg i x app V v)
  then show ?case by (intro triple_conseq [OF update_triple]) (auto simp: b_at_def sat_def)
next
  case (3 kg i V)
  then show ?case by (intro triple_conseq [OF delete_triple]) (auto simp: b_at_def sat_def)
next
  case (4 kg x V v)
  then show ?case
    by (intro triple_conseq [OF append_triple [where q = False and N = 0]]) (auto simp: b_at_def sat_def)
next
  case (5 kg i V)
  then show ?case by (intro triple_conseq [OF read_triple]) (auto simp: b_at_def sat_def)
next
  case (6 kg i V n)
  then show ?case by (intro triple_conseq [OF readSome_triple]) (auto simp: b_at_def sat_def)
next
  case (7 kg V)
  then show ?case by (intro triple_conseq [OF readAll_triple]) (auto simp: b_at_def sat_def)
next
  case (8 kg V)
  then show ?case by (intro triple_conseq [OF ids_triple]) (auto simp: b_at_def sat_def)
next
  case (9 V kg i)
  then show ?case by (intro triple_conseq [OF exists_triple]) (auto simp: b_at_def sat_def)
next
  case (10 kg V)
  then show ?case by (intro triple_conseq [OF create_triple]) (auto simp: b_at_def sat_def)
next
  case (11 kg V)
  then show ?case by (intro triple_conseq [OF deleteKg_triple]) (auto simp: b_at_def sat_def)
next
  case (12 V kg)
  then show ?case by (intro triple_conseq [OF existsKg_triple]) (auto simp: b_at_def sat_def)
next
  case (13 kg V t h)
  then show ?case by (intro triple_conseq [OF addTrig_triple]) (auto simp: b_at_def sat_def)
next
  case (14 kg V t)
  then show ?case by (intro triple_conseq [OF delTrig_triple]) (auto simp: b_at_def sat_def)
next
  case (15 kg V)
  then show ?case by (intro triple_conseq [OF getTrig_triple]) (auto simp: b_at_def sat_def)
next
  case (16 w kg i v)
  then show ?case by (simp add: bstore_view_def split: if_splits)
qed

end

sublocale badger_backend \<subseteq> store: store_spec "badgerdb_Store B" "binv A" "bstore_view A" healthy
  by (rule badger_refines)

end
