(* ===== verification/Badger_Reference.thy ===== *)
theory Badger_Reference
  imports Badger_Correct
begin

text \<open>
  An executable in-memory key-value database with transactions, iterators, expiring entries and
  sequences. It satisfies what \<open>badger_backend\<close> asks of the database library, so the storage
  backend can be run on concrete inputs and every consequence of the locale holds of it.
\<close>

record memdb =
  m_kv :: "(string \<times> string \<times> 64 word) list"
  m_seqs :: "string option list"
  m_next :: "(string \<times> 64 word) list"

type_synonym mem = "memdb BadgerStorage"

definition next_of :: "memdb \<Rightarrow> string \<Rightarrow> 64 word" where
  "next_of d k = (case map_of (m_next d) k of None \<Rightarrow> 0 | Some n \<Rightarrow> n)"

definition seq_of :: "memdb \<Rightarrow> nat \<Rightarrow> string option" where
  "seq_of d h = (if h < length (m_seqs d) then m_seqs d ! h else None)"

definition mem_view :: "memdb \<Rightarrow> bview" where
  "mem_view d = \<lparr>bkv = map_of (m_kv d), bhandle = seq_of d,
     bnext = (\<lambda>h. case seq_of d h of None \<Rightarrow> 0 | Some k \<Rightarrow> unat (next_of d k)),
     bissued = (\<lambda>k. unat (next_of d k))\<rparr>"

definition mem_live :: "mem \<Rightarrow> string \<rightharpoonup> string" where
  "mem_live w k =
     (case map_of (m_kv (bdb w)) k of
        None \<Rightarrow> None
      | Some (s, x) \<Rightarrow> if x = 0 \<or> word_of_int (bclock w) < x then Some s else None)"

definition mem_put :: "string \<Rightarrow> string \<Rightarrow> 64 word \<Rightarrow> mem \<Rightarrow> mem" where
  "mem_put k s x w = w\<lparr>bdb := (bdb w)\<lparr>m_kv := (k, s, x) # m_kv (bdb w)\<rparr>\<rparr>"

definition mem_del :: "string list \<Rightarrow> mem \<Rightarrow> mem" where
  "mem_del ks w =
     w\<lparr>bdb := (bdb w)\<lparr>m_kv := filter (\<lambda>(k, v). k \<notin> set ks) (m_kv (bdb w))\<rparr>\<rparr>"

definition mem_keys :: "string \<Rightarrow> string \<Rightarrow> mem \<Rightarrow> string list" where
  "mem_keys s p w =
     sort (remdups (filter (\<lambda>k. mem_live w k \<noteq> None \<and> prefix p k \<and> s \<le> k) (map fst (m_kv (bdb w)))))"

definition memErr :: error where
  "memErr = Raw ''Key not found''"

definition mem_GetSequence :: "string \<Rightarrow> nat \<Rightarrow> (memdb, nat \<times> error option) bop" where
  "mem_GetSequence k bw w =
     (Ok (length (m_seqs (bdb w)), if k = [] \<or> bw = 0 then Some (Raw ''Key cannot be empty'') else None),
      w\<lparr>bdb := (bdb w)\<lparr>m_seqs := m_seqs (bdb w) @ [Some k]\<rparr>\<rparr>)"

definition mem_Next :: "nat \<Rightarrow> (memdb, 64 word) bop" where
  "mem_Next h w =
     (case seq_of (bdb w) h of
        None \<Rightarrow> (Panic, w)
      | Some k \<Rightarrow>
          let n = next_of (bdb w) k in
          if n + 1 \<noteq> 0
          then (Ok n, w\<lparr>bdb := (bdb w)\<lparr>m_next := (k, n + 1) # m_next (bdb w)\<rparr>\<rparr>)
          else (Err (Raw ''sequence exhausted''), w))"

definition mem_Release :: "nat \<Rightarrow> (memdb, unit) bop" where
  "mem_Release h w = (Ok (), w\<lparr>bdb := (bdb w)\<lparr>m_seqs := (m_seqs (bdb w))[h := None]\<rparr>\<rparr>)"

definition memB :: "memdb badger" where
  "memB =
     \<lparr>b_ErrKeyNotFound = memErr,
      b_View_Get = (\<lambda>k w. case mem_live w k of None \<Rightarrow> (Err memErr, w) | Some s \<Rightarrow> (Ok (Ok s), w)),
      b_Iterate = (\<lambda>pre s p w. (Ok (map (\<lambda>k. (k, Ok (the (mem_live w k)))) (mem_keys s p w)), w)),
      b_Update_Set = (\<lambda>k s rest w. case rest w of (r, w') \<Rightarrow>
         (case r of Ok u \<Rightarrow> (Ok (), mem_put k s 0 w') | Err e \<Rightarrow> (Err e, w') | Panic \<Rightarrow> (Panic, w'))),
      b_Update_SetEntry = (\<lambda>k s x w. (Ok (), mem_put k s x w)),
      b_Update_Delete = (\<lambda>k w. (Ok (), mem_del [k] w)),
      b_WriteBatch_Delete = (\<lambda>ks w. (Ok (), mem_del ks w)),
      b_GetSequence = mem_GetSequence,
      b_Seq_Next = mem_Next,
      b_Seq_Release = mem_Release,
      b_Close = ret (),
      b_range = (\<lambda>ks. ks)\<rparr>"

definition mem_new :: mem where
  "mem_new = \<lparr>bdb = \<lparr>m_kv = [], m_seqs = [], m_next = []\<rparr>, bseq = Map.empty, bclock = 1000\<rparr>"

lemma mem_live_blive: "mem_live w = blive mem_view w"
  by (simp add: mem_live_def blive_def live_def mem_view_def fun_eq_iff)

lemma map_of_filter_keys: "map_of (filter (\<lambda>(k, v). k \<notin> S) kv) = map_of kv |` (- S)"
  by (induction kv) (auto simp: restrict_map_def fun_eq_iff)

lemma mem_kv_update [simp]:
  "next_of (d\<lparr>m_kv := kv\<rparr>) = next_of d" "seq_of (d\<lparr>m_kv := kv\<rparr>) = seq_of d"
  by (simp_all add: next_of_def seq_of_def fun_eq_iff)

lemma mem_view_kv [simp]: "mem_view (d\<lparr>m_kv := kv\<rparr>) = (mem_view d)\<lparr>bkv := map_of kv\<rparr>"
  unfolding mem_view_def mem_kv_update by simp

lemma mem_put_to: "b_to mem_view w (kv_put k s x (mem_view (bdb w))) (mem_put k s x w)"
  by (simp add: b_to_def kv_put_def mem_put_def) (simp add: mem_view_def)

lemma mem_del_to: "b_to mem_view w (kv_del (set ks) (mem_view (bdb w))) (mem_del ks w)"
  by (simp add: b_to_def kv_del_def mem_del_def map_of_filter_keys) (simp add: mem_view_def)

lemma mem_yields:
  "iter_yields mem_view True w s p
     (map (\<lambda>k. (k, Ok (the (mem_live w k)))) (mem_keys s p w))"
proof -
  have "k \<in> fst ` set (m_kv (bdb w))" if "mem_live w k \<noteq> None" for k
    using that by (force simp: mem_live_def split: option.splits dest: map_of_SomeD)
  then have "set (mem_keys s p w) = {k. mem_live w k \<noteq> None \<and> prefix p k \<and> s \<le> k}"
    by (auto simp: mem_keys_def)
  moreover have "sorted_wrt (<) (mem_keys s p w)"
    by (simp add: strict_sorted_iff mem_keys_def)
  ultimately show ?thesis
    by (simp add: iter_yields_def mem_live_blive [symmetric] comp_def)
qed

lemma mem_next_Ok:
  assumes "bhandle (mem_view (bdb w)) h = Some k" "mem_Next h w = (Ok m, w')"
  shows "seq_frame mem_view k w w' \<and> bhandle (mem_view (bdb w')) = bhandle (mem_view (bdb w)) \<and>
    bnext (mem_view (bdb w)) h = unat m \<and> bnext (mem_view (bdb w')) h = Suc (unat m) \<and>
    bissued (mem_view (bdb w')) = (bissued (mem_view (bdb w)))(k := Suc (unat m)) \<and>
    bissued (mem_view (bdb w)) k = unat m"
proof -
  have k: "seq_of (bdb w) h = Some k" using assms(1) by (simp add: mem_view_def)
  with assms(2) have n: "m + 1 \<noteq> 0" "m = next_of (bdb w) k"
    and w': "w' = w\<lparr>bdb := (bdb w)\<lparr>m_next := (k, m + 1) # m_next (bdb w)\<rparr>\<rparr>"
    by (auto simp: mem_Next_def Let_def split: if_splits)
  from n(1) have m: "unat (m + 1) = Suc (unat m)" by (simp add: unatSuc add.commute)
  have seq: "seq_of (bdb w') = seq_of (bdb w)" by (simp add: w' seq_of_def fun_eq_iff)
  have "next_of (bdb w') = (next_of (bdb w))(k := m + 1)"
    by (simp add: w' next_of_def fun_eq_iff)
  with seq k m n(2) w' show ?thesis by (auto simp: mem_view_def seq_frame_def fun_eq_iff)
qed

lemma mem_release_Ok:
  assumes "bhandle (mem_view (bdb w)) h = Some k" "mem_Release h w = (r, w')"
  shows "r = Ok () \<and> seq_frame mem_view k w w' \<and>
    bhandle (mem_view (bdb w')) = (bhandle (mem_view (bdb w)))(h := None) \<and>
    bissued (mem_view (bdb w')) = bissued (mem_view (bdb w))"
  using assms by (auto simp: mem_Release_def mem_view_def seq_frame_def seq_of_def fun_eq_iff
      next_of_def nth_list_update split: if_splits)

lemma mem_getSeq:
  assumes "mem_GetSequence (c # k) (Suc bw) w = (Ok (h, err), w')"
  shows "seq_frame mem_view (c # k) w w' \<and> bhandle (mem_view (bdb w)) h = None \<and>
    bhandle (mem_view (bdb w')) = (bhandle (mem_view (bdb w)))(h \<mapsto> c # k) \<and>
    bissued (mem_view (bdb w')) = bissued (mem_view (bdb w)) \<and> err = None"
  using assms by (auto simp: mem_GetSequence_def mem_view_def seq_frame_def seq_of_def fun_eq_iff
      next_of_def nth_append)

lemma mem_next_Err:
  assumes "bhandle (mem_view (bdb w)) h = Some k" "mem_Next h w = (Err e, w')"
  shows "w' = w"
  using assms by (auto simp: mem_Next_def mem_view_def Let_def split: if_splits)

lemma mem_next_no_Panic: "bhandle (mem_view (bdb w)) h \<noteq> None \<Longrightarrow> mem_Next h w \<noteq> (Panic, w')"
  by (auto simp: mem_Next_def mem_view_def Let_def split: if_splits)

interpretation mem: badger_backend memB mem_view True
  unfolding memB_def
proof (unfold_locales, unfold badger.simps, goal_cases)
  case (7 k s rest w u w')
  then obtain w1 where "rest w = (Ok (), w1)" "w' = mem_put k s 0 w1"
    by (auto split: prod.splits result.splits)
  with mem_put_to [of w1] show ?case by auto
next
  case (8 k s rest w e w')
  then show ?case by (auto simp: bsame_def split: prod.splits result.splits)
next
  case (13 k w u w')
  with mem_del_to [of w "[k]"] show ?case by simp
next
  case (21 w h k m w')
  from mem_next_Ok [OF this] show ?case by simp
next
  case (22 w h k e w')
  from mem_next_Err [OF this] show ?case by (simp add: seq_frame_def)
next
  case (23 w h w')
  then show ?case by (rule mem_next_no_Panic)
next
  case (24 w h k u w')
  from mem_release_Ok [OF this] show ?case by simp
next
  case (25 w h k e w')
  from mem_release_Ok [OF this] show ?case by simp
next
  case (26 w h w')
  then show ?case using mem_release_Ok [of w h] by (cases "bhandle (mem_view (bdb w)) h") auto
next
  case (9 rest w k s w')
  then show ?case by (auto split: prod.splits result.splits)
next
  case (19 c k bw w h err w')
  from mem_getSeq [OF this] show ?case by simp
next
  case (4 pre p s w its w')
  then show ?case using mem_yields [of w s p] by (auto simp: bsame_def)
qed (auto simp: mem_live_blive bsame_def mem_put_to mem_del_to mem_GetSequence_def perm_order_def
    split: option.splits)

end
