(* ===== verification/Badger_Properties.thy ===== *)
theory Badger_Properties
  imports Badger_Reference
begin

text \<open>
  The properties of the BadgerDB backend, stated over its operations and the promises of the
  database library, each with a run on the reference database.
\<close>

lemma mem_new_binv [simp]: "binv mem_view mem_new"
  by (simp add: binv_def mem_new_def mem_view_def seq_of_def)

lemma mem_new_items: "sv_items (bstore_view mem_view mem_new) kg i = None"
  by (simp add: bstore_view_def blive_def live_def mem_new_def mem_view_def)

lemma mem_new_seq: "seq_at mem_view kg N mem_new \<longleftrightarrow> N = 0"
  by (auto simp: seq_at_def seq_single_def mem_new_def mem_view_def seq_of_def next_of_def)

lemma binv_view: "binv A w \<longleftrightarrow> b_at A (bstore_view A w) w"
  by (simp add: b_at_def)

lemma run_pair: "fst (m w) = r \<Longrightarrow> m w = (r, snd (m w))"
  by (metis prod.collapse)

lemma mem_keeps:
  assumes "binv mem_view w" "reg_MatchString kg"
  shows "reg_MatchString i \<Longrightarrow> binv mem_view (snd (bUpdate memB kg i v False 0 w))"
    and "binv mem_view (snd (bAppend memB kg v 0 w))"
    and "binv mem_view (snd (bCreateKeygroup memB kg w))"
    and "binv mem_view (snd (bAddKeygroupTrigger memB kg t h w))"
  using mem.store.store_keeps [OF assms(2)] assms(1)
  by (auto simp: keeps_def badgerdb_Store_def int64_def)

text \<open>C22: keys. A key built from a valid keygroup and item name is parsed back into them, no two
  items share a key, and the prefix that \<^verbatim>\<open>ReadAll\<close>, \<^verbatim>\<open>IDs\<close> and \<^verbatim>\<open>DeleteKeygroup\<close> iterate over
  matches the items of its own keygroup and no configuration entry.\<close>

theorem key_encoding:
  assumes "reg_MatchString kg" "reg_MatchString kg'" "reg_MatchString i" "reg_MatchString i'"
  shows "getKey (makeKeyName kg i) = (kg, i) \<and>
    (makeKeyName kg i = makeKeyName kg' i' \<longleftrightarrow> kg = kg' \<and> i = i') \<and>
    (prefix (makeKeygroupKeyName kg) (makeKeyName kg' i') \<longleftrightarrow> kg = kg') \<and>
    \<not> prefix (makeKeygroupKeyName kg) (makeKeygroupConfigKeyName kg') \<and>
    \<not> prefix (makeKeygroupKeyName kg) (makeTriggerConfigKeyName kg' t)"
  using assms
  by (simp add: getKey_makeKeyName valid_no_sep prefix_keygroup_item prefix_keygroup_config)

theorem key_encoding_witness:
  "getKey (makeKeyName ''kg'' ''a'') = (''kg'', ''a'') \<and>
   \<not> prefix (makeKeygroupKeyName ''kg'') (makeKeyName ''kgb'' ''a'')"
proof -
  have v: "reg_MatchString ''kg''" "reg_MatchString ''kgb''" "reg_MatchString ''a''" by code_simp+
  show ?thesis using key_encoding [OF v(1,2,3,3)] by simp
qed

text \<open>C3: the backend implements the contract of \<^verbatim>\<open>fred.Store\<close>: every operation on every branch acts
  on the stored items, keygroups and triggers as the contract says, as long as the database
  library behaves as documented.\<close>

theorem badger_store_refines:
  assumes "badger_backend B A healthy"
  shows "store_spec (badgerdb_Store B) (binv A) (bstore_view A) healthy"
  using assms by (rule badger_backend.badger_refines)

theorem badger_store_refines_witness:
  "store_spec (badgerdb_Store memB) (binv mem_view) (bstore_view mem_view) True"
  by (rule badger_store_refines [OF mem.badger_backend_axioms])

text \<open>an update that succeeds is what the next read of the item returns, and a read of any
  other item finds exactly what it found before.\<close>

theorem badger_read_update:
  assumes "badger_backend B A True" "binv A w" "int64 x"
    and "reg_MatchString kg" "reg_MatchString i" "reg_MatchString kg'" "reg_MatchString i'"
    and "fst (bUpdate B kg i v False x w) = Ok ()"
  shows "fst (bRead B kg' i' (snd (bUpdate B kg i v False x w))) = Ok s \<longleftrightarrow>
    (if kg' = kg \<and> i' = i then s = v else fst (bRead B kg' i' w) = Ok s)"
  using store_spec.read_update [OF badger_backend.badger_refines [OF assms(1)] TrueI assms(2-7)]
    assms(8) by (simp add: badgerdb_Store_def)

theorem badger_read_update_witness:
  "fst (bUpdate memB ''kg'' ''a'' ''v'' False 60 mem_new) = Ok () \<and>
   fst (bRead memB ''kg'' ''a'' (snd (bUpdate memB ''kg'' ''a'' ''v'' False 60 mem_new))) = Ok ''v''"
proof -
  have v: "reg_MatchString ''kg''" "reg_MatchString ''a''" "int64 60" by code_simp+
  have ok: "fst (bUpdate memB ''kg'' ''a'' ''v'' False 60 mem_new) = Ok ()" by code_simp
  show ?thesis
    using badger_read_update [OF mem.badger_backend_axioms mem_new_binv v(3,1,2,1,2) ok] ok by simp
qed

text \<open>deleting a keygroup that succeeds leaves no item and no trigger of it and does not know it
  any more, and does not touch the items and triggers of any other keygroup.\<close>

theorem badger_delete_keygroup:
  assumes "badger_backend B A True" "binv A w" "reg_MatchString kg" "reg_MatchString kg'"
    and "fst (bDeleteKeygroup B kg w) = Ok ()"
  defines "w' \<equiv> snd (bDeleteKeygroup B kg w)"
  shows "binv A w' \<and> sv_kgs (bstore_view A w') = sv_kgs (bstore_view A w) - {kg} \<and>
    (\<exists>m t. fst (bReadAll B kg' w') = Ok m \<and> fst (bGetKeygroupTrigger B kg' w') = Ok t \<and>
       map_of m = (if kg' = kg then Map.empty else sv_items (bstore_view A w) kg') \<and>
       map_of t = (if kg' = kg then Map.empty else sv_trigs (bstore_view A w) kg'))"
proof -
  note spec = badger_backend.badger_refines [OF assms(1)]
  have view: "binv A w'" "bstore_view A w' = del_kg kg (bstore_view A w)"
    using store_spec.deleteKg_view [OF spec assms(2,3)] assms(5)
    by (simp_all add: badgerdb_Store_def w'_def)
  show ?thesis
    using view(1) store_spec.readAll_value [OF spec TrueI view(1) assms(4)]
      store_spec.getTrig_value [OF spec TrueI view(1) assms(4)]
    by (auto simp: view(2) badgerdb_Store_def sview_simps)
qed

definition mem_two :: mem where
  "mem_two = snd (bUpdate memB ''kgb'' ''a'' ''v'' False 0
     (snd (bUpdate memB ''kg'' ''a'' ''v'' False 0 (snd (bCreateKeygroup memB ''kg'' mem_new)))))"

lemma names_valid [simp]:
  "reg_MatchString ''kg''" "reg_MatchString ''kgb''" "reg_MatchString ''a''" "reg_MatchString ''b''"
  by code_simp+

lemma mem_two_binv [simp]: "binv mem_view mem_two"
  unfolding mem_two_def by (intro mem_keeps) simp_all

theorem badger_delete_keygroup_witness:
  "fst (bDeleteKeygroup memB ''kg'' mem_two) = Ok () \<and>
   (\<exists>m. fst (bReadAll memB ''kg'' (snd (bDeleteKeygroup memB ''kg'' mem_two))) = Ok m \<and>
        map_of m = Map.empty)"
proof -
  have ok: "fst (bDeleteKeygroup memB ''kg'' mem_two) = Ok ()" by code_simp
  show ?thesis
    using badger_delete_keygroup [OF mem.badger_backend_axioms mem_two_binv names_valid(1,1) ok] ok
    by auto
qed

text \<open>C21: a scan returns the items with the first \<open>n\<close> identifiers from the start identifier on, in
  byte order of the identifiers, the start itself included when it exists.\<close>

theorem badger_scan:
  assumes "badger_backend B A True" "binv A w" "reg_MatchString kg" "reg_MatchString i"
  shows "\<exists>m. fst (bReadSome B kg i n w) = Ok m \<and> distinct (map fst m) \<and>
    map_of m = sv_items (bstore_view A w) kg |`
      set (take (unat n)
        (sorted_list_of_set {j. sv_items (bstore_view A w) kg j \<noteq> None \<and> i \<le> j}))"
  using store_spec.readSome_value [OF badger_backend.badger_refines [OF assms(1)] TrueI assms(2-4), of n]
  by (simp add: badgerdb_Store_def scan_ids_def)

theorem badger_scan_witness:
  "\<exists>m. fst (bReadSome memB ''kg'' ''a'' 2 mem_two) = Ok m \<and> distinct (map fst m)"
  using badger_scan [OF mem.badger_backend_axioms mem_two_binv names_valid(1,3), of 2] by blast

text \<open>C23: catching up with an identifier appended on another node always ends: for every target
  \<open>k\<close>, one more increment than \<open>k\<close> is enough, whatever numbers the sequence issues, and the
  items do not change.\<close>

theorem catchUp_returns:
  assumes "badger_backend B A healthy" "binv A w" "reg_MatchString kg"
  shows "\<exists>r w'. catchUp (Suc (unat k)) B kg k w = (r, w') \<and> r \<noteq> Panic \<and> binv A w' \<and>
    bstore_view A w' = bstore_view A w"
proof -
  have "wp (catchUp (Suc (unat k)) B kg k)
      (\<lambda>_ w'. b_at A (bstore_view A w) w') (\<lambda>_ w'. b_at A (bstore_view A w) w') w"
    by (rule wp_call [OF badger_backend.catchUp_triple [OF assms(1,3), of 0 k "Suc (unat k)"
            "bstore_view A w" False 0]])
       (use assms in \<open>auto simp: seq_ge_def b_at_def\<close>)
  then show ?thesis
    by (cases "catchUp (Suc (unat k)) B kg k w") (auto simp: wp_def b_at_def split: result.splits)
qed

theorem catchUp_returns_witness:
  "\<exists>r w'. catchUp (Suc (unat (3 :: 64 word))) memB ''kg'' 3 mem_new = (r, w') \<and> r \<noteq> Panic"
  using catchUp_returns [OF mem.badger_backend_axioms mem_new_binv names_valid(1), of 3] by blast

definition log_ok :: "('db \<Rightarrow> bview) \<Rightarrow> string \<Rightarrow> 'db BadgerStorage \<Rightarrow> bool" where
  "log_ok A kg w \<longleftrightarrow> binv A w \<and>
     (\<exists>N. seq_at A kg N w \<and> (\<forall>n. sv_items (bstore_view A w) kg (FormatUint n) \<noteq> None \<longrightarrow> n < N))"

lemma append_fresh_effect:
  assumes "badger_backend B A healthy" "reg_MatchString kg" "int64 x" "log_ok A kg w"
    and run: "bAppend B kg v x w = (Ok i, w')"
  shows "sv_items (bstore_view A w) kg i = None \<and> log_ok A kg w' \<and>
    bstore_view A w' = upd_item kg i v (bstore_view A w)"
proof -
  obtain N where N: "seq_at A kg N w"
    "\<forall>n. sv_items (bstore_view A w) kg (FormatUint n) \<noteq> None \<longrightarrow> n < N" and at: "b_at A (bstore_view A w) w"
    using assms(4) by (auto simp: log_ok_def b_at_def)
  from triple_Ok [OF badger_backend.append_triple [OF assms(1,2,3), of "bstore_view A w" True N v] _ run]
  obtain n where n: "i = FormatUint n" "N \<le> n" "seq_at A kg (Suc n) w'"
    and at': "b_at A (upd_item kg i v (bstore_view A w)) w'"
    using at N(1) by auto
  have "sv_items (bstore_view A w) kg i = None" using N(2) n(1,2) by fastforce
  moreover have "log_ok A kg w'"
    unfolding log_ok_def using at' n N(2)
    by (auto simp: b_at_def sview_simps intro!: exI [of _ "Suc n"] split: if_splits)
  ultimately show ?thesis using at' by (simp add: b_at_def)
qed

lemma log_ok_same: "bsame A w w' \<Longrightarrow> log_ok A kg w \<Longrightarrow> log_ok A kg w'"
  unfolding log_ok_def using seq_at_frame [OF bframe_same] by (metis binv_same bstore_view_same)

lemma badger_log_store:
  assumes B: "badger_backend B A healthy"
  shows "log_store (badgerdb_Store B) (binv A) (bstore_view A) healthy (log_ok A)"
proof (rule log_store.intro)
  show "store_spec (badgerdb_Store B) (binv A) (bstore_view A) healthy"
    by (rule badger_backend.badger_refines [OF B])
  have ex: "log_ok A kg w'" if "binv A w" "log_ok A kg w" "bExistsKeygroup B kg' w = (Ok b, w')" for kg kg' w b w'
  proof -
    obtain r w1 where get: "b_View_Get B (makeKeygroupConfigKeyName kg') w = (r, w1)" by force
    then have "bsame A w w1"
      using badger_backend.get_Ok [OF B] badger_backend.get_Err [OF B] badger_backend.get_no_Panic [OF B]
      by (cases r) metis+
    moreover have "w' = w1" using that(3) get by (cases r) (auto simp: bExistsKeygroup_def op_defs)
    ultimately show ?thesis using log_ok_same that(2) by blast
  qed
  show "log_store_axioms (badgerdb_Store B) (binv A) (bstore_view A) (log_ok A)"
  proof (unfold_locales, unfold badgerdb_Store_def Store.simps, goal_cases)
    case (1 kg x w v i w')
    from append_fresh_effect [OF B 1(1,2,4,5)] show ?case by simp
  next
    case (2 w kg kg' b w')
    then show ?case by (rule ex)
  qed
qed

interpretation memlog: log_store "badgerdb_Store memB" "binv mem_view" "bstore_view mem_view" True "log_ok mem_view"
  by (rule badger_log_store [OF mem.badger_backend_axioms])

text \<open>C19: appending does not overwrite while the log is in order. As long as the backend's open sequence
  is the only one on the keygroup and every stored item that is named by a number is below the numbers
  the sequence has issued (\<open>log_ok\<close>), the identifier of an appended item was not in use, the same
  condition holds afterwards, and the new item is the only thing that changed. (Items stored under a
  number without advancing the sequence, as for missed appends at a restart, end the condition.)\<close>

theorem badger_append_fresh:
  assumes "badger_backend B A healthy" "reg_MatchString kg" "int64 x" "log_ok A kg w"
    and "fst (bAppend B kg v x w) = Ok i"
  defines "w' \<equiv> snd (bAppend B kg v x w)"
  shows "sv_items (bstore_view A w) kg i = None \<and> log_ok A kg w' \<and>
    bstore_view A w' = upd_item kg i v (bstore_view A w)"
  using append_fresh_effect [OF assms(1-4)] run_pair [of "bAppend B kg v x" w, OF assms(5)]
  unfolding w'_def by blast

theorem badger_append_fresh_witness:
  "log_ok mem_view ''kg'' mem_new \<and> fst (bAppend memB ''kg'' ''v'' 0 mem_new) = Ok ''0'' \<and>
   log_ok mem_view ''kg'' (snd (bAppend memB ''kg'' ''v'' 0 mem_new))"
proof -
  have ok: "fst (bAppend memB ''kg'' ''v'' 0 mem_new) = Ok ''0''" by code_simp
  have log: "log_ok mem_view ''kg'' mem_new"
    using mem_new_items by (simp add: log_ok_def mem_new_seq)
  have "int64 0" by (simp add: int64_def)
  with log ok show ?thesis
    using badger_append_fresh [OF mem.badger_backend_axioms names_valid(1) _ log ok] by blast
qed

end
