(* ===== verification/Remote_Properties.thy ===== *)
theory Remote_Properties
  imports Remote_Storage Badger_Properties
begin

text \<open>
  The properties of the remote store, and a connection on which they are applied: the server runs
  in the same world, over the BadgerDB backend; a connection that does not work runs the method and
  loses the answer, or all but the first message of a stream.
\<close>

section \<open>A reference connection\<close>

definition status_error :: "error \<Rightarrow> error" where
  "status_error e = (case e of Wrapped s \<Rightarrow> Raw (''rpc error: '' @ s) | Raw s \<Rightarrow> Raw (''rpc error: '' @ s))"

definition via :: "bool \<Rightarrow> ('w, 'a) op \<Rightarrow> ('w, 'a) op" where
  "via up run = attempt run (\<lambda>e. fail (status_error e))
     (\<lambda>x. if up then ret x else fail (Raw ''unavailable''))"

definition via_stream ::
  "bool \<Rightarrow> ((nat \<Rightarrow> error option) \<Rightarrow> ('w, 'm list \<times> error option) op) \<Rightarrow> ('w, 'm stream) op" where
  "via_stream up run = andthen (run (\<lambda>_. None))
     (\<lambda>(ms, err). ret (if up then stream_with ms (map_option status_error err)
                       else stream_with (take 1 ms) (Some (Raw ''unavailable''))))"

definition direct :: "'w Store \<Rightarrow> bool \<Rightarrow> 'w StorageClient" where
  "direct S up = (let s = NewStorageServer S in \<lparr>dbClient = \<lparr>
     db_Update = \<lambda>kg i v app x. via up (storage_Update s kg i v app x),
     db_Append = \<lambda>kg v x. via up (storage_Append s kg v x),
     db_Delete = \<lambda>kg i. via up (storage_Delete s kg i),
     db_Read = \<lambda>kg i. via up (storage_Read s kg i),
     db_Scan = \<lambda>kg i n. via_stream up (\<lambda>send. storage_Scan s send kg i n),
     db_ReadAll = \<lambda>kg. via_stream up (\<lambda>send. storage_ReadAll s send kg),
     db_IDs = \<lambda>kg. via_stream up (\<lambda>send. storage_IDs s send kg),
     db_Exists = \<lambda>kg i. via up (storage_Exists s kg i),
     db_CreateKeygroup = \<lambda>kg. via up (storage_CreateKeygroup s kg),
     db_DeleteKeygroup = \<lambda>kg. via up (storage_DeleteKeygroup s kg),
     db_ExistsKeygroup = \<lambda>kg. via up (storage_ExistsKeygroup s kg),
     db_AddKeygroupTrigger = \<lambda>kg t h. via up (storage_AddKeygroupTrigger s kg t h),
     db_DeleteKeygroupTrigger = \<lambda>kg t. via up (storage_DeleteKeygroupTrigger s kg t),
     db_GetKeygroupTrigger = \<lambda>kg. via_stream up (\<lambda>send. storage_GetKeygroupTrigger s send kg),
     con_Close = ret ()\<rparr>\<rparr>)"

lemma via_transport: "transport run (via up run) up"
  unfolding transport_def
proof
  fix w
  show "(\<exists>e e'. via up run w = (Err e, snd (run w)) \<and> fst (run w) = Err e') \<or>
     (\<exists>x. fst (run w) = Ok x \<and> via up run w = run w) \<or> fst (run w) = Panic \<or>
     (\<not> up \<and> (\<exists>e. via up run w = (Err e, w) \<or> via up run w = (Err e, snd (run w))))"
    by (cases "run w"; cases "fst (run w)") (auto simp: via_def op_defs)
qed

lemma via_stream_transport:
  "stream_transport (\<lambda>send. stream_of send m) (via_stream up (\<lambda>send. stream_of send m)) up"
  unfolding stream_transport_def
proof
  fix w
  let ?s = "\<lambda>_::nat. None :: error option"
  obtain r w1 where r: "m w = (r, w1)" by force
  have "stream_outcome up w (stream_of ?s m w) (via_stream up (\<lambda>send. stream_of send m) w)"
  proof (cases r)
    case (Ok xs)
    then have "stream_of ?s m w = (Ok (xs, None), w1)"
      using r by (simp add: stream_of_def op_runs send_all_works)
    then show ?thesis by (cases up) (auto simp: stream_outcome_def via_stream_def op_runs)
  next
    case (Err e)
    then have "stream_of ?s m w = (Ok ([], Some e), w1)"
      using r by (simp add: stream_of_def op_runs)
    then show ?thesis by (cases up) (auto simp: stream_outcome_def via_stream_def op_runs intro: exI [of _ "[]"])
  qed (use r in \<open>simp add: stream_of_def stream_outcome_def\<close>)
  then show "\<exists>send. (up \<longrightarrow> send = ?s) \<and>
      stream_outcome up w (stream_of send m w) (via_stream up (\<lambda>send. stream_of send m) w)"
    by blast
qed

lemma direct_remote:
  assumes "store_spec S I view healthy"
  shows "remote_store S I view healthy (direct S up) up"
  using assms unfolding remote_store_def remote_store_axioms_def direct_def Let_def
    StorageClient.simps storage_stub.simps storage_Scan_def storage_ReadAll_def storage_IDs_def
    storage_GetKeygroupTrigger_def
  by (simp add: via_transport via_stream_transport)

interpretation mem_remote: remote_store "badgerdb_Store memB" "binv mem_view" "bstore_view mem_view" True
  "direct (badgerdb_Store memB) up" up for up
  by (rule direct_remote [OF mem.store.store_spec_axioms])

interpretation mem_remote_up: remote_store_up "badgerdb_Store memB" "binv mem_view"
  "bstore_view mem_view" True "direct (badgerdb_Store memB) True"
  unfolding remote_store_up_def by (rule mem_remote.remote_store_axioms)

section \<open>Properties\<close>

text \<open>C31: a storage client whose connection works implements the contract of \<^verbatim>\<open>fred.Store\<close> over the
  contents of the store behind the server, for every operation on every branch, so that a node can
  use it in place of a local backend.\<close>

theorem remote_store_refines:
  assumes "remote_store S I view healthy c True"
  shows "store_spec (storageclient_Store c) I view healthy"
  using assms by (rule remote_store_up.remote_refines [OF remote_store_up.intro])

theorem remote_store_refines_witness:
  "store_spec (storageclient_Store (direct (badgerdb_Store memB) True)) (binv mem_view)
     (bstore_view mem_view) True"
  by (rule remote_store_refines [OF mem_remote.remote_store_axioms])

text \<open>C32: over a connection that works, every method of the storage client changes the world exactly as
  the method of the store behind the server does and returns the same value; it only fails when that
  one fails, with a \<^verbatim>\<open>*errors.Error\<close>.\<close>

theorem remote_store_equivalent:
  assumes "remote_store S I view healthy c True" "I w" "int64 x"
    and "reg_MatchString kg" "reg_MatchString i"
  shows "agrees w (st_Update S kg i v app x) (sc_Update c kg i v app x) \<and>
    agrees w (st_Delete S kg i) (sc_Delete c kg i) \<and>
    agrees w (st_Append S kg v x) (sc_Append c kg v x) \<and>
    agrees w (st_Read S kg i) (sc_Read c kg i) \<and>
    agrees w (st_ReadSome S kg i cnt) (sc_ReadSome c kg i cnt) \<and>
    agrees w (st_ReadAll S kg) (sc_ReadAll c kg) \<and>
    agrees w (st_IDs S kg) (sc_IDs c kg) \<and>
    agrees w (st_Exists S kg i) (sc_Exists c kg i) \<and>
    agrees w (st_CreateKeygroup S kg) (sc_CreateKeygroup c kg) \<and>
    agrees w (st_DeleteKeygroup S kg) (sc_DeleteKeygroup c kg) \<and>
    agrees w (st_ExistsKeygroup S kg) (sc_ExistsKeygroup c kg) \<and>
    agrees w (st_AddKeygroupTrigger S kg t h) (sc_AddKeygroupTrigger c kg t h) \<and>
    agrees w (st_DeleteKeygroupTrigger S kg t) (sc_DeleteKeygroupTrigger c kg t) \<and>
    agrees w (st_GetKeygroupTrigger S kg) (sc_GetKeygroupTrigger c kg)"
proof -
  have r: "remote_store_up S I view healthy c" by (rule remote_store_up.intro [OF assms(1)])
  show ?thesis
    by (intro conjI remote_store_up.agrees_items [OF r assms(2,4,5,3)]
        remote_store_up.agrees_keygroups [OF r assms(2,4)])
qed

theorem remote_store_equivalent_witness:
  "fst (st_Update (badgerdb_Store memB) ''kg'' ''a'' ''v'' False 60 mem_new) = Ok () \<and>
   fst (sc_Update (direct (badgerdb_Store memB) True) ''kg'' ''a'' ''v'' False 60 mem_new) = Ok () \<and>
   snd (sc_Update (direct (badgerdb_Store memB) True) ''kg'' ''a'' ''v'' False 60 mem_new) =
     snd (bUpdate memB ''kg'' ''a'' ''v'' False 60 mem_new)"
proof -
  have v: "int64 60" "reg_MatchString ''kg''" "reg_MatchString ''a''" by code_simp+
  have ok: "fst (st_Update (badgerdb_Store memB) ''kg'' ''a'' ''v'' False 60 mem_new) = Ok ()" by code_simp
  show ?thesis
    using remote_store_equivalent [OF mem_remote.remote_store_axioms mem_new_binv v,
        of "''v''" False 0 "[]" "[]"] ok
    by (simp add: agrees_def badgerdb_Store_def)
qed

text \<open>C33: an update through the storage client never panics and never happens in part or twice: when it
  reports success the item has the new value and nothing else changed; when it reports an error,
  nothing changed, or, only if the connection does not work, exactly this update was made.\<close>

theorem remote_update_at_most_once:
  assumes "remote_store S I view healthy c up" "I w" "int64 x"
    and "reg_MatchString kg" "reg_MatchString i" "sc_Update c kg i v app x w = (r, w')"
  shows "r \<noteq> Panic \<and> I w' \<and>
    (r = Ok () \<longrightarrow> view w' = upd_item kg i v (view w)) \<and>
    (\<forall>e. r = Err e \<longrightarrow> is_wrapped e \<and>
       (view w' = view w \<or> \<not> up \<and> view w' = upd_item kg i v (view w)))"
proof -
  have at: "sat I view (view w) w" using assms(2) by (rule sat_view)
  show ?thesis
    using triple_run [OF remote_store.remote_update_at [OF assms(1,4,5,3)] at assms(6)]
    by (cases r) (auto simp: sat_def)
qed

theorem remote_update_at_most_once_witness:
  "\<exists>w'. sc_Update (direct (badgerdb_Store memB) False) ''kg'' ''a'' ''v'' False 60 mem_new =
     (Err (Wrapped ''unavailable''), w') \<and> binv mem_view w'"
proof -
  have v: "int64 60" "reg_MatchString ''kg''" "reg_MatchString ''a''" by code_simp+
  have "fst (sc_Update (direct (badgerdb_Store memB) False) ''kg'' ''a'' ''v'' False 60 mem_new) =
      Err (Wrapped ''unavailable'')"
    by code_simp
  then obtain w' where
    "sc_Update (direct (badgerdb_Store memB) False) ''kg'' ''a'' ''v'' False 60 mem_new =
       (Err (Wrapped ''unavailable''), w')"
    by (metis prod.collapse)
  with remote_update_at_most_once [OF mem_remote.remote_store_axioms mem_new_binv v this]
  show ?thesis by blast
qed

end
