(* ===== verification/Dynamo_Storage.thy ===== *)
theory Dynamo_Storage
  imports Store_Contract
begin

text \<open>
  pkg/dynamo/dynamo.go: the storage backend on a DynamoDB table. One table holds the items of all
  keygroups under \<open>kg|id\<close>, an entry \<open>kg|\<close> per keygroup and the triggers. The AWS SDK is a parameter:
  the calls of the service, the filter builder and the conversion of Go structs from and to rows.

  A row of the table is of an abstract type; \<open>d_Marshal\<close> makes one of the struct with \<^verbatim>\<open>Key\<close>, \<^verbatim>\<open>Value\<close>
  and, where the code sets it, \<^verbatim>\<open>Expiry\<close>.
\<close>

section \<open>Parameters\<close>

record drow =
  r_Key :: string
  r_Value :: string
  r_Expiry :: "int option"

text \<open>Filter expressions: attributes are given by name, also on the right of \<^verbatim>\<open>GreaterThan\<close>.\<close>

datatype dfilter = BeginsWith string string | GreaterThan string string | AndF dfilter dfilter

record ('w, 'av) dynamo =
  d_table :: string
  d_NewSession :: "string \<Rightarrow> ('w, unit) op"
  d_DescribeTable :: "string \<Rightarrow> ('w, (string \<times> string) list) op"
  d_GetItem :: "string \<Rightarrow> string \<Rightarrow> ('w, 'av option) op"
  d_PutItem :: "string \<Rightarrow> 'av \<Rightarrow> ('w, unit) op"
  d_DeleteItem :: "string \<Rightarrow> string \<Rightarrow> ('w, unit) op"
  d_Scan :: "string \<Rightarrow> dfilter \<Rightarrow> int option \<Rightarrow> ('w, 'av list) op"
  d_Build :: "dfilter \<Rightarrow> unit result"
  d_Marshal :: "drow \<Rightarrow> 'av result"
  d_Unmarshal :: "'av \<Rightarrow> (string \<times> string) result"
  d_UnmarshalKey :: "'av \<Rightarrow> string result"
  d_Now :: "('w, int) op"
  d_range :: order

abbreviation keyName :: string where
  "keyName \<equiv> ''Key''"

section \<open>Keys\<close>

definition dmakeKeyName :: "string \<Rightarrow> string \<Rightarrow> string" where
  "dmakeKeyName kgname i = kgname @ [sep] @ i"

definition dmakeKeygroupKeyName :: "string \<Rightarrow> string" where
  "dmakeKeygroupKeyName kgname = kgname @ [sep]"

definition dmakeTriggerConfigKeyName :: "string \<Rightarrow> string \<Rightarrow> string" where
  "dmakeTriggerConfigKeyName kgname tid =
     [sep] @ ''fred'' @ [sep] @ ''triggers'' @ [sep] @ kgname @ [sep] @ tid"

definition dgetTriggerConfigKey :: "string \<Rightarrow> string \<times> string" where
  "dgetTriggerConfigKey key =
     (let s = split_on sep key in if length s = 5 then (s ! 3, s ! 4) else ([], []))"

definition dgetKey :: "string \<Rightarrow> string \<times> string" where
  "dgetKey key = (let s = split_on sep key in (s ! 0, if 2 \<le> length s then s ! 1 else []))"

section \<open>Operations\<close>

text \<open>
  \<^verbatim>\<open>New\<close>: the table has to exist with one key attribute; it is refused when the name and the type
  of that attribute are both wrong.
\<close>

definition dNew :: "('w, 'av) dynamo \<Rightarrow> string \<Rightarrow> string \<Rightarrow> ('w, ('w, 'av) dynamo) op" where
  "dNew D table region =
     andthen (attempt (d_NewSession D region) (\<lambda>_. panic) ret) (\<lambda>_.
     andthen (wrap_err (d_DescribeTable D table)) (\<lambda>schema.
       case schema of
         [(name, ty)] \<Rightarrow>
           if name \<noteq> keyName \<and> ty \<noteq> ''HASH''
           then fail (Wrapped ''expected the primary key to be named Key and be of type range'')
           else ret (D\<lparr>d_table := table\<rparr>)
       | _ \<Rightarrow> fail (Wrapped ''expected a single primary range key with name Key'')))"

definition dClose :: "('w, 'av) dynamo \<Rightarrow> ('w, unit) op" where
  "dClose D = ret ()"

definition dRead :: "('w, 'av) dynamo \<Rightarrow> string \<Rightarrow> string \<Rightarrow> ('w, string) op" where
  "dRead D kg i =
     andthen (wrap_err (d_GetItem D (d_table D) (dmakeKeyName kg i))) (\<lambda>item.
       case item of
         None \<Rightarrow> fail (Wrapped (''could not find item '' @ i @ '' in keygroup '' @ kg))
       | Some av \<Rightarrow> andthen (wrap_err (of_result (d_Unmarshal D av))) (\<lambda>kv. ret (snd kv)))"

text \<open>One \<^verbatim>\<open>Scan\<close> call with a filter; further pages are not asked for.\<close>

definition scan_table :: "('w, 'av) dynamo \<Rightarrow> dfilter \<Rightarrow> int option \<Rightarrow> ('w, 'av list) op" where
  "scan_table D filt limit =
     andthen (wrap_err (of_result (d_Build D filt))) (\<lambda>_. wrap_err (d_Scan D (d_table D) filt limit))"

text \<open>The loop over the rows found, into a map; \<open>idof\<close> gets the identifier from a key.\<close>

fun rows_map ::
  "('w, 'av) dynamo \<Rightarrow> (string \<Rightarrow> string) \<Rightarrow> string \<Rightarrow> 'av list \<Rightarrow> (string \<times> string) list
     \<Rightarrow> (string \<times> string) list result" where
  "rows_map D idof key [] items = Ok items"
| "rows_map D idof key (av # avs) items =
     (case d_Unmarshal D av of
        Err e \<Rightarrow> Err (errors_New e)
      | Panic \<Rightarrow> Panic
      | Ok (k, v) \<Rightarrow>
          if k = key then rows_map D idof key avs items
          else rows_map D idof key avs (map_put (idof k) v items))"

definition collect_rows ::
  "('w, 'av) dynamo \<Rightarrow> (string \<Rightarrow> string) \<Rightarrow> string \<Rightarrow> 'av list \<Rightarrow> ('w, (string \<times> string) list) op" where
  "collect_rows D idof key avs =
     andthen (of_result (rows_map D idof key avs [])) (\<lambda>items. ret (range_map (d_range D) items))"

text \<open>The limit is \<^verbatim>\<open>int64(count)\<close>.\<close>

definition dReadSome :: "('w, 'av) dynamo \<Rightarrow> string \<Rightarrow> string \<Rightarrow> 64 word \<Rightarrow> ('w, (string \<times> string) list) op" where
  "dReadSome D kg i cnt =
     (let key = dmakeKeygroupKeyName kg; start = dmakeKeyName kg i in
      andthen (scan_table D (AndF (BeginsWith keyName key) (GreaterThan key start)) (Some (sint cnt)))
        (collect_rows D (\<lambda>k. snd (dgetKey k)) key))"

definition dReadAll :: "('w, 'av) dynamo \<Rightarrow> string \<Rightarrow> ('w, (string \<times> string) list) op" where
  "dReadAll D kg =
     (let key = dmakeKeygroupKeyName kg in
      andthen (scan_table D (BeginsWith keyName key) None) (collect_rows D (\<lambda>k. snd (dgetKey k)) key))"

text \<open>The largest number among the identifiers, or the first one that is not a number.\<close>

fun newest_of :: "('w, 'av) dynamo \<Rightarrow> string \<Rightarrow> 'av list \<Rightarrow> 64 word \<Rightarrow> 64 word result" where
  "newest_of D key [] newest = Ok newest"
| "newest_of D key (av # avs) newest =
     (case d_UnmarshalKey D av of
        Err e \<Rightarrow> Err (errors_New e)
      | Panic \<Rightarrow> Panic
      | Ok k \<Rightarrow>
          if k = key then newest_of D key avs newest
          else (case ParseUint (snd (dgetKey k)) of
                  None \<Rightarrow> Err (Wrapped ''strconv.ParseUint: parsing'')
                | Some p \<Rightarrow> newest_of D key avs (if newest < of_nat p then of_nat p else newest)))"

text \<open>\<^verbatim>\<open>time.Now().Unix() + int64(expiry)\<close>, in 64 bits.\<close>

definition expiry_at :: "int \<Rightarrow> int \<Rightarrow> int" where
  "expiry_at now expiry = sint (word_of_int (now + expiry) :: 64 word)"

definition put_row :: "('w, 'av) dynamo \<Rightarrow> drow \<Rightarrow> ('w, unit) op" where
  "put_row D r =
     andthen (wrap_err (of_result (d_Marshal D r))) (\<lambda>av. wrap_err (d_PutItem D (d_table D) av))"

definition dAppend :: "('w, 'av) dynamo \<Rightarrow> string \<Rightarrow> string \<Rightarrow> int \<Rightarrow> ('w, string) op" where
  "dAppend D kg v expiry =
     (let key = dmakeKeygroupKeyName kg in
      andthen (scan_table D (BeginsWith keyName key) None) (\<lambda>avs.
      andthen (if avs = [] then ret (- 1) else of_result (newest_of D key avs 0)) (\<lambda>newest.
      andthen (d_Now D) (\<lambda>now.
      (let i = FormatUint (unat (newest + 1)) in
       andthen (put_row D \<lparr>r_Key = i, r_Value = v, r_Expiry = Some (expiry_at now expiry)\<rparr>) (\<lambda>_.
       ret i))))))"

fun rows_ids :: "('w, 'av) dynamo \<Rightarrow> string \<Rightarrow> 'av list \<Rightarrow> string list \<Rightarrow> string list result" where
  "rows_ids D key [] ids = Ok ids"
| "rows_ids D key (av # avs) ids =
     (case d_UnmarshalKey D av of
        Err e \<Rightarrow> Err (errors_New e)
      | Panic \<Rightarrow> Panic
      | Ok k \<Rightarrow>
          if k = key then rows_ids D key avs ids else rows_ids D key avs (ids @ [snd (dgetKey k)]))"

definition dIDs :: "('w, 'av) dynamo \<Rightarrow> string \<Rightarrow> ('w, string list) op" where
  "dIDs D kg =
     (let key = dmakeKeygroupKeyName kg in
      andthen (scan_table D (BeginsWith keyName key) None) (\<lambda>avs. of_result (rows_ids D key avs [])))"

definition dUpdate :: "('w, 'av) dynamo \<Rightarrow> string \<Rightarrow> string \<Rightarrow> string \<Rightarrow> bool \<Rightarrow> int \<Rightarrow> ('w, unit) op" where
  "dUpdate D kg i v app expiry =
     andthen (d_Now D) (\<lambda>now.
     put_row D \<lparr>r_Key = dmakeKeyName kg i, r_Value = v, r_Expiry = Some (expiry_at now expiry)\<rparr>)"

definition dDelete :: "('w, 'av) dynamo \<Rightarrow> string \<Rightarrow> string \<Rightarrow> ('w, unit) op" where
  "dDelete D kg i = wrap_err (d_DeleteItem D (d_table D) (dmakeKeyName kg i))"

definition has_key :: "('w, 'av) dynamo \<Rightarrow> string \<Rightarrow> ('w, bool) op" where
  "has_key D key =
     attempt (d_GetItem D (d_table D) key) (\<lambda>_. ret False) (\<lambda>item. ret (item \<noteq> None))"

definition dExists :: "('w, 'av) dynamo \<Rightarrow> string \<Rightarrow> string \<Rightarrow> ('w, bool) op" where
  "dExists D kg i = has_key D (dmakeKeyName kg i)"

definition dExistsKeygroup :: "('w, 'av) dynamo \<Rightarrow> string \<Rightarrow> ('w, bool) op" where
  "dExistsKeygroup D kg = has_key D (dmakeKeygroupKeyName kg)"

definition dCreateKeygroup :: "('w, 'av) dynamo \<Rightarrow> string \<Rightarrow> ('w, unit) op" where
  "dCreateKeygroup D kg =
     put_row D \<lparr>r_Key = dmakeKeygroupKeyName kg, r_Value = dmakeKeygroupKeyName kg, r_Expiry = None\<rparr>"

text \<open>Deleting the rows that a scan found, one by one.\<close>

definition delete_row :: "('w, 'av) dynamo \<Rightarrow> 'av \<Rightarrow> ('w, unit) op" where
  "delete_row D av =
     andthen (wrap_err (of_result (d_UnmarshalKey D av))) (\<lambda>k. wrap_err (d_DeleteItem D (d_table D) k))"

definition dDeleteKeygroup :: "('w, 'av) dynamo \<Rightarrow> string \<Rightarrow> ('w, unit) op" where
  "dDeleteKeygroup D kg =
     andthen (scan_table D (BeginsWith keyName (dmakeKeygroupKeyName kg)) None) (\<lambda>avs.
     andthen (foreach (delete_row D) avs) (\<lambda>_.
     andthen (scan_table D (BeginsWith keyName (dmakeTriggerConfigKeyName kg [])) None) (\<lambda>avs'.
     foreach (delete_row D) avs')))"

definition dAddKeygroupTrigger :: "('w, 'av) dynamo \<Rightarrow> string \<Rightarrow> string \<Rightarrow> string \<Rightarrow> ('w, unit) op" where
  "dAddKeygroupTrigger D kg i host =
     put_row D \<lparr>r_Key = dmakeTriggerConfigKeyName kg i, r_Value = host, r_Expiry = None\<rparr>"

definition dDeleteKeygroupTrigger :: "('w, 'av) dynamo \<Rightarrow> string \<Rightarrow> string \<Rightarrow> ('w, unit) op" where
  "dDeleteKeygroupTrigger D kg i = wrap_err (d_DeleteItem D (d_table D) (dmakeTriggerConfigKeyName kg i))"

definition dGetKeygroupTrigger :: "('w, 'av) dynamo \<Rightarrow> string \<Rightarrow> ('w, (string \<times> string) list) op" where
  "dGetKeygroupTrigger D kg =
     (let key = dmakeTriggerConfigKeyName kg [] in
      andthen (scan_table D (BeginsWith keyName key) None)
        (collect_rows D (\<lambda>k. snd (dgetTriggerConfigKey k)) key))"

definition dynamo_Store :: "('w, 'av) dynamo \<Rightarrow> 'w Store" where
  "dynamo_Store D = \<lparr>
     st_Update = dUpdate D, st_Delete = dDelete D, st_Append = dAppend D, st_Read = dRead D,
     st_ReadSome = dReadSome D, st_ReadAll = dReadAll D, st_IDs = dIDs D, st_Exists = dExists D,
     st_CreateKeygroup = dCreateKeygroup D, st_DeleteKeygroup = dDeleteKeygroup D,
     st_ExistsKeygroup = dExistsKeygroup D, st_AddKeygroupTrigger = dAddKeygroupTrigger D,
     st_DeleteKeygroupTrigger = dDeleteKeygroupTrigger D, st_GetKeygroupTrigger = dGetKeygroupTrigger D,
     st_Close = dClose D\<rparr>"

end
