(* ===== verification/Dynamo_Correct.thy ===== *)
theory Dynamo_Correct
  imports Dynamo_Storage
begin

text \<open>
  What the backend on DynamoDB does to its table, over what the service documents: rows are found
  under their key, a scan returns rows that satisfy its filter, and all of them as long as they fit
  into one page (\<open>fits\<close>). \<^verbatim>\<open>GetItem\<close> and \<^verbatim>\<open>Scan\<close> are called without \<^verbatim>\<open>ConsistentRead\<close>, so they are
  eventually consistent: what they find is the state of the table only once it has \<open>settled\<close>, that is
  when the last writes have reached all copies; before that they may return rows that were
  overwritten or deleted and miss new ones. No row expires meanwhile. A write that fails may have
  been made.
\<close>

section \<open>The service\<close>

text \<open>The string attributes of a row; comparing with an attribute that is missing is false.\<close>

definition attr :: "drow \<Rightarrow> string \<Rightarrow> string option" where
  "attr r name = (if name = keyName then Some (r_Key r) else if name = ''Value'' then Some (r_Value r) else None)"

fun dmatches :: "dfilter \<Rightarrow> drow \<Rightarrow> bool" where
  "dmatches (BeginsWith name p) r \<longleftrightarrow> (case attr r name of Some s \<Rightarrow> prefix p s | None \<Rightarrow> False)"
| "dmatches (GreaterThan name name') r \<longleftrightarrow>
     (case (attr r name, attr r name') of (Some a, Some b) \<Rightarrow> b < a | _ \<Rightarrow> False)"
| "dmatches (AndF f g) r \<longleftrightarrow> dmatches f r \<and> dmatches g r"

type_synonym dtable = "string \<rightharpoonup> string \<times> int option"

definition store_row :: "drow \<Rightarrow> dtable \<Rightarrow> dtable" where
  "store_row r T = T(r_Key r \<mapsto> (r_Value r, r_Expiry r))"

definition in_table :: "dtable \<Rightarrow> drow \<Rightarrow> bool" where
  "in_table T r \<longleftrightarrow> T (r_Key r) = Some (r_Value r, r_Expiry r)"

text \<open>A keygroup that exists and has no items.\<close>

definition no_items :: "dtable \<Rightarrow> string \<Rightarrow> bool" where
  "no_items T kg \<longleftrightarrow> T (kg @ [sep]) \<noteq> None \<and> (\<forall>k. prefix (kg @ [sep]) k \<and> T k \<noteq> None \<longrightarrow> k = kg @ [sep])"

text \<open>The rows of a keygroup are its entry and items with names without the separator.\<close>

definition only_items :: "dtable \<Rightarrow> string \<Rightarrow> bool" where
  "only_items T kg \<longleftrightarrow>
     (\<forall>k. prefix (kg @ [sep]) k \<and> T k \<noteq> None \<longrightarrow> (\<exists>i. k = dmakeKeyName kg i \<and> sep \<notin> set i))"

definition add_row :: "(string \<Rightarrow> string) \<Rightarrow> string \<Rightarrow> drow \<Rightarrow> (string \<times> string) list \<Rightarrow> (string \<times> string) list" where
  "add_row idof key r items = (if r_Key r = key then items else map_put (idof (r_Key r)) (r_Value r) items)"

text \<open>The map that rows of a table make, when their identifiers are different.\<close>

lemma fold_rows:
  assumes "\<forall>r \<in> set rs. T (r_Key r) = Some (r_Value r, r_Expiry r)" "inj_on idof (r_Key ` set rs)"
  shows "distinct (map fst (fold (add_row idof key) rs [])) \<and>
    (map_of (fold (add_row idof key) rs []) i = Some v \<longleftrightarrow>
       (\<exists>r \<in> set rs. r_Key r \<noteq> key \<and> idof (r_Key r) = i \<and> r_Value r = v))"
  using assms
proof (induction rs rule: rev_induct)
  case (snoc r rs)
  let ?m = "fold (add_row idof key) rs []"
  have IH: "distinct (map fst ?m)" "map_of ?m i = Some v \<longleftrightarrow>
      (\<exists>r \<in> set rs. r_Key r \<noteq> key \<and> idof (r_Key r) = i \<and> r_Value r = v)"
    using snoc by (auto intro: inj_on_subset)
  have same: "r_Value r' = r_Value r" if "r' \<in> set rs" "idof (r_Key r') = idof (r_Key r)" for r'
  proof -
    from snoc.prems(2) that have "r_Key r' = r_Key r" by (auto simp: inj_on_def)
    with snoc.prems(1) that(1) show ?thesis by (auto dest!: bspec)
  qed
  have step: "fold (add_row idof key) (rs @ [r]) [] =
      (if r_Key r = key then ?m else map_put (idof (r_Key r)) (r_Value r) ?m)"
    by (simp add: add_row_def [of idof key r])
  show ?case
  proof (cases "r_Key r = key")
    case True
    then have eq: "fold (add_row idof key) (rs @ [r]) [] = ?m" using step by simp
    from IH True show ?thesis unfolding eq by auto
  next
    case False
    then have eq: "fold (add_row idof key) (rs @ [r]) [] = map_put (idof (r_Key r)) (r_Value r) ?m" using step by simp
    have d: "distinct (map fst (map_put (idof (r_Key r)) (r_Value r) ?m))" using IH(1) by (rule distinct_map_put)
    show ?thesis
    proof (cases "i = idof (r_Key r)")
      case True
      with False same d show ?thesis unfolding eq map_of_map_put by auto
    next
      case neq: False
      with False IH(2) d show ?thesis unfolding eq map_of_map_put by auto
    qed
  qed
qed simp

text \<open>The table holds \<open>T\<close>, and has settled if \<open>b\<close> says so.\<close>

abbreviation holds ::
  "('w \<Rightarrow> bool) \<Rightarrow> ('w \<Rightarrow> dtable) \<Rightarrow> ('w \<Rightarrow> bool) \<Rightarrow> dtable \<Rightarrow> bool \<Rightarrow> 'w \<Rightarrow> bool" where
  "holds I tab settled T b \<equiv> \<lambda>w. sat I tab T w \<and> (b \<longrightarrow> settled w)"

locale dynamo_backend =
  fixes D :: "('w, 'av) dynamo"
    and inv :: "'w \<Rightarrow> bool"
    and tab :: "'w \<Rightarrow> dtable"
    and settled :: "'w \<Rightarrow> bool"
    and row_of :: "'av \<Rightarrow> drow"
    and fits :: "dtable \<Rightarrow> bool"
  assumes now: "triple (holds inv tab settled T b) (d_Now D) (\<lambda>_. holds inv tab settled T b) (\<lambda>_ _. False)"
    and marshal: "d_Marshal D r \<noteq> Panic" "d_Marshal D r = Ok av \<Longrightarrow> row_of av = r"
    and unmarshal: "d_Unmarshal D av \<noteq> Panic"
      "d_Unmarshal D av = Ok kv \<Longrightarrow> kv = (r_Key (row_of av), r_Value (row_of av))"
    and unmarshalKey: "d_UnmarshalKey D av \<noteq> Panic" "d_UnmarshalKey D av = Ok k \<Longrightarrow> k = r_Key (row_of av)"
    and build: "d_Build D f \<noteq> Panic"
    and range: "perm_order (d_range D)"
    and get: "triple (holds inv tab settled T b) (d_GetItem D (d_table D) k)
      (\<lambda>r w. holds inv tab settled T b w \<and> (case r of None \<Rightarrow> b \<longrightarrow> T k = None
         | Some av \<Rightarrow> r_Key (row_of av) = k \<and> (b \<longrightarrow> in_table T (row_of av))))
      (\<lambda>e. holds inv tab settled T b)"
    and put: "triple (sat inv tab T) (d_PutItem D (d_table D) av)
      (\<lambda>_ w. sat inv tab (store_row (row_of av) T) w)
      (\<lambda>e w. sat inv tab T w \<or> sat inv tab (store_row (row_of av) T) w)"
    and del: "triple (sat inv tab T) (d_DeleteItem D (d_table D) k)
      (\<lambda>_ w. sat inv tab (T(k := None)) w) (\<lambda>e w. sat inv tab T w \<or> sat inv tab (T(k := None)) w)"
    and scan: "triple (holds inv tab settled T b) (d_Scan D (d_table D) f lim)
      (\<lambda>avs w. holds inv tab settled T b w \<and>
         (\<forall>av \<in> set avs. dmatches f (row_of av) \<and> (b \<longrightarrow> in_table T (row_of av))) \<and>
         (b \<and> fits T \<and> lim = None \<longrightarrow>
            (\<forall>r. in_table T r \<and> dmatches f r \<longrightarrow> r \<in> row_of ` set avs)))
      (\<lambda>e. holds inv tab settled T b)"
begin

abbreviation tat :: "dtable \<Rightarrow> 'w \<Rightarrow> bool" where
  "tat T \<equiv> sat inv tab T"

abbreviation tatS :: "dtable \<Rightarrow> bool \<Rightarrow> 'w \<Rightarrow> bool" where
  "tatS T b \<equiv> holds inv tab settled T b"

lemma put_row_at:
  "triple (tat T) (put_row D r) (\<lambda>_ w. tat (store_row r T) w)
    (\<lambda>e w. is_wrapped e \<and> (tat T w \<or> tat (store_row r T) w))"
  unfolding put_row_def
  by (rule tripleI, unfold wp_andthen wp_wrap_err wp_of_result_case)
     (auto split: result.split dest: marshal(2) simp: marshal(1) intro!: wp_call [OF put])

lemma scan_table_at:
  "triple (tatS T b) (scan_table D f lim)
    (\<lambda>avs w. tatS T b w \<and> (\<forall>av \<in> set avs. dmatches f (row_of av) \<and> (b \<longrightarrow> in_table T (row_of av))) \<and>
       (b \<and> fits T \<and> lim = None \<longrightarrow> (\<forall>r. in_table T r \<and> dmatches f r \<longrightarrow> r \<in> row_of ` set avs)))
    (\<lambda>e w. is_wrapped e \<and> tatS T b w)"
  unfolding scan_table_def
  by (rule tripleI, unfold wp_andthen wp_wrap_err wp_of_result_case)
     (auto split: result.split simp: build intro!: wp_call [OF scan])

lemma scan_settled_at:
  "triple (tatS T True) (scan_table D f None)
    (\<lambda>avs w. tatS T True w \<and> (\<forall>av \<in> set avs. in_table T (row_of av) \<and> dmatches f (row_of av)) \<and>
       (fits T \<longrightarrow> (\<forall>r. in_table T r \<and> dmatches f r \<longrightarrow> r \<in> row_of ` set avs)))
    (\<lambda>e w. is_wrapped e \<and> tatS T True w)"
  by (rule triple_conseq [OF scan_table_at]) auto

lemma dRead_at:
  "triple (tatS T b) (dRead D kg i)
    (\<lambda>s w. tatS T b w \<and> (b \<longrightarrow> (\<exists>x. T (dmakeKeyName kg i) = Some (s, x)))) (\<lambda>e w. is_wrapped e \<and> tatS T b w)"
  unfolding dRead_def
  by (rule tripleI, unfold wp_andthen wp_wrap_err, rule wp_call [OF get])
     (auto simp: wp_simps wp_of_result_case in_table_def unmarshal(1) split: option.splits result.split
       dest!: unmarshal(2))

lemma dUpdate_at:
  "triple (tat T) (dUpdate D kg i v app x)
    (\<lambda>_ w. \<exists>now. tat (T(dmakeKeyName kg i \<mapsto> (v, Some (expiry_at now x)))) w)
    (\<lambda>e w. is_wrapped e \<and> (tat T w \<or> (\<exists>now. tat (T(dmakeKeyName kg i \<mapsto> (v, Some (expiry_at now x)))) w)))"
  unfolding dUpdate_def
  by (rule triple_seq [OF now [of T False, simplified]], rule wp_call [OF put_row_at]) (auto simp: store_row_def)

text \<open>The expiry counts from what the clock says at the beginning.\<close>

lemma dUpdate_now:
  assumes "dUpdate D kg i v app x w = (Ok (), w')" "tat T w"
  obtains t w0 where "d_Now D w = (Ok t, w0)"
    "tat (T(dmakeKeyName kg i \<mapsto> (v, Some (expiry_at t x)))) w'"
proof -
  from assms(1) obtain t w0 where now': "d_Now D w = (Ok t, w0)" and put':
    "put_row D \<lparr>r_Key = dmakeKeyName kg i, r_Value = v, r_Expiry = Some (expiry_at t x)\<rparr> w0 = (Ok (), w')"
    unfolding dUpdate_def by (elim andthen_OkE)
  have "tat T w0" using triple_run(2) [OF now [of T False, simplified] assms(2) now'] by simp
  from triple_run(2) [OF put_row_at this put'] show ?thesis
    by (intro that [OF now']) (simp add: store_row_def)
qed

lemma dDelete_at:
  "triple (tat T) (dDelete D kg i) (\<lambda>_ w. tat (T(dmakeKeyName kg i := None)) w)
    (\<lambda>e w. is_wrapped e \<and> (tat T w \<or> tat (T(dmakeKeyName kg i := None)) w))"
  unfolding dDelete_def by (rule tripleI, unfold wp_wrap_err, rule wp_call [OF del]) auto

lemma has_key_at:
  "triple (tatS T True) (has_key D k) (\<lambda>b w. tatS T True w \<and> (b \<longrightarrow> T k \<noteq> None)) (\<lambda>_ _. False)"
  unfolding has_key_def
  by (rule tripleI, unfold wp_attempt, rule wp_call [OF get])
     (auto simp: wp_ret in_table_def split: option.splits)

lemma delete_row_at:
  "triple (tat T) (delete_row D av) (\<lambda>_ w. tat (T(r_Key (row_of av) := None)) w)
    (\<lambda>e w. is_wrapped e \<and> (tat T w \<or> tat (T(r_Key (row_of av) := None)) w))"
  unfolding delete_row_def
  by (rule tripleI, unfold wp_andthen wp_wrap_err wp_of_result_case)
     (auto split: result.split simp: unmarshalKey(1) dest!: unmarshalKey(2) intro!: wp_call [OF del])

text \<open>Scanning from an identifier on never finds anything: the filter compares attributes that no row has.\<close>

lemma dReadSome_at:
  assumes "reg_MatchString kg"
  shows "triple (tatS T b) (dReadSome D kg i n) (\<lambda>m w. tatS T b w \<and> m = []) (\<lambda>e w. is_wrapped e \<and> tatS T b w)"
proof -
  have "sep \<in> set (dmakeKeygroupKeyName kg)" by (simp add: dmakeKeygroupKeyName_def)
  moreover have "sep \<notin> set keyName" "sep \<notin> set ''Value''" by (simp_all add: sep_def)
  ultimately have none: "attr r (dmakeKeygroupKeyName kg) = None" for r by (auto simp: attr_def)
  have rng: "range_map (d_range D) [] = []" using range by (simp add: range_map_def perm_order_def) (metis mset_zero_iff)
  show ?thesis
    unfolding dReadSome_def Let_def
    by (rule triple_seq [OF scan_table_at])
       (auto simp: none collect_rows_def wp_andthen wp_of_result_case wp_ret rng Ball_def)
qed

text \<open>Reading a keygroup: all its items, each once.\<close>

lemma rows_map_fold:
  "case rows_map D idof key avs m of
     Ok items \<Rightarrow> items = fold (add_row idof key) (map row_of avs) m | Err e \<Rightarrow> is_wrapped e | Panic \<Rightarrow> False"
proof (induction avs arbitrary: m)
  case (Cons av avs)
  show ?case
  proof (cases "d_Unmarshal D av")
    case (Ok kv)
    with unmarshal(2) [OF Ok] Cons [of m] Cons [of "map_put (idof (fst kv)) (snd kv) m"]
    show ?thesis by (auto simp: add_row_def split: result.splits)
  qed (use unmarshal(1) in auto)
qed simp

lemma rows_ids_map:
  "case rows_ids D key avs ids of
     Ok xs \<Rightarrow> xs = ids @ map (\<lambda>r. snd (dgetKey (r_Key r))) (filter (\<lambda>r. r_Key r \<noteq> key) (map row_of avs))
   | Err e \<Rightarrow> is_wrapped e | Panic \<Rightarrow> False"
proof (induction avs arbitrary: ids)
  case (Cons av avs)
  show ?case
  proof (cases "d_UnmarshalKey D av")
    case (Ok k)
    with unmarshalKey(2) [OF Ok] Cons [of ids] Cons [of "ids @ [snd (dgetKey k)]"]
    show ?thesis by (auto split: result.splits)
  qed (use unmarshalKey(1) in auto)
qed simp

lemma item_of_key:
  assumes "reg_MatchString kg" "sep \<notin> set i"
  shows "snd (dgetKey (dmakeKeyName kg i)) = i" "dmakeKeyName kg i = dmakeKeygroupKeyName kg \<longleftrightarrow> i = []"
  using valid_no_sep [OF assms(1)] assms(2)
  by (simp_all add: dgetKey_def dmakeKeyName_def dmakeKeygroupKeyName_def split_on_append)

lemma rows_of_keygroup:
  assumes "reg_MatchString kg" "only_items T kg" "fits T"
    and "\<forall>av \<in> set avs. in_table T (row_of av) \<and> dmatches (BeginsWith keyName (dmakeKeygroupKeyName kg)) (row_of av)"
    and "fits T \<longrightarrow> (\<forall>r. in_table T r \<and> dmatches (BeginsWith keyName (dmakeKeygroupKeyName kg)) r \<longrightarrow> r \<in> row_of ` set avs)"
  shows "\<forall>r \<in> row_of ` set avs. \<exists>i. r_Key r = dmakeKeyName kg i \<and> sep \<notin> set i"
    and "(\<exists>r \<in> row_of ` set avs. r_Key r \<noteq> dmakeKeygroupKeyName kg \<and> snd (dgetKey (r_Key r)) = i \<and> r_Value r = v) \<longleftrightarrow>
      i \<noteq> [] \<and> sep \<notin> set i \<and> (\<exists>e. T (dmakeKeyName kg i) = Some (v, e))"
proof -
  show keys: "\<forall>r \<in> row_of ` set avs. \<exists>i. r_Key r = dmakeKeyName kg i \<and> sep \<notin> set i"
    using assms(2,4) by (force simp: only_items_def in_table_def attr_def dmakeKeygroupKeyName_def)
  have "\<lparr>r_Key = dmakeKeyName kg i, r_Value = v, r_Expiry = e\<rparr> \<in> row_of ` set avs"
    if "T (dmakeKeyName kg i) = Some (v, e)" for e
    using assms(3,5) that by (auto simp: in_table_def attr_def dmakeKeyName_def dmakeKeygroupKeyName_def)
  moreover have "in_table T r" if "r \<in> row_of ` set avs" for r using assms(4) that by auto
  ultimately show "(\<exists>r \<in> row_of ` set avs. r_Key r \<noteq> dmakeKeygroupKeyName kg \<and> snd (dgetKey (r_Key r)) = i \<and> r_Value r = v) \<longleftrightarrow>
      i \<noteq> [] \<and> sep \<notin> set i \<and> (\<exists>e. T (dmakeKeyName kg i) = Some (v, e))"
    using keys item_of_key [OF assms(1)] unfolding in_table_def by (metis drow.select_convs(1,2))
qed

lemma dReadAll_at:
  assumes "reg_MatchString kg" "only_items T kg" "fits T"
  shows "triple (tatS T True) (dReadAll D kg)
    (\<lambda>m w. tatS T True w \<and> distinct (map fst m) \<and> (\<forall>i v. map_of m i = Some v \<longleftrightarrow>
        i \<noteq> [] \<and> sep \<notin> set i \<and> (\<exists>e. T (dmakeKeyName kg i) = Some (v, e))))
    (\<lambda>e w. is_wrapped e \<and> tatS T True w)"
  unfolding dReadAll_def Let_def
proof (rule triple_seq [OF scan_settled_at])
  let ?key = "dmakeKeygroupKeyName kg" and ?id = "\<lambda>k. snd (dgetKey k)"
  fix avs w
  assume a: "tatS T True w \<and> (\<forall>av \<in> set avs. in_table T (row_of av) \<and> dmatches (BeginsWith keyName ?key) (row_of av)) \<and>
     (fits T \<longrightarrow>
        (\<forall>r. in_table T r \<and> dmatches (BeginsWith keyName ?key) r \<longrightarrow> r \<in> row_of ` set avs))"
  then have rows: "\<forall>av \<in> set avs. in_table T (row_of av) \<and> dmatches (BeginsWith keyName ?key) (row_of av)"
    "fits T \<longrightarrow> (\<forall>r. in_table T r \<and> dmatches (BeginsWith keyName ?key) r \<longrightarrow> r \<in> row_of ` set avs)" by auto
  note keys = rows_of_keygroup [OF assms rows]
  have "inj_on ?id (r_Key ` set (map row_of avs))"
  proof (rule inj_onI)
    fix k k'
    assume k: "k \<in> r_Key ` set (map row_of avs)" "k' \<in> r_Key ` set (map row_of avs)" "?id k = ?id k'"
    have "\<exists>i. l = dmakeKeyName kg i \<and> sep \<notin> set i" if "l \<in> r_Key ` set (map row_of avs)" for l
      using keys(1) that by auto
    from this [OF k(1)] this [OF k(2)] k(3) show "k = k'" using item_of_key(1) [OF assms(1)] by auto
  qed
  moreover have "\<forall>r \<in> set (map row_of avs). T (r_Key r) = Some (r_Value r, r_Expiry r)"
    using rows(1) by (auto simp: in_table_def)
  ultimately have m: "distinct (map fst (fold (add_row ?id ?key) (map row_of avs) []))"
    "map_of (fold (add_row ?id ?key) (map row_of avs) []) i = Some v \<longleftrightarrow>
      i \<noteq> [] \<and> sep \<notin> set i \<and> (\<exists>e. T (dmakeKeyName kg i) = Some (v, e))" for i v
    using fold_rows [of "map row_of avs" T ?id ?key i v] keys(2) [of i v] by simp_all
  show "wp (collect_rows D ?id ?key avs) (\<lambda>m w. tatS T True w \<and> distinct (map fst m) \<and> (\<forall>i v. map_of m i = Some v \<longleftrightarrow>
        i \<noteq> [] \<and> sep \<notin> set i \<and> (\<exists>e. T (dmakeKeyName kg i) = Some (v, e)))) (\<lambda>e w. is_wrapped e \<and> tatS T True w) w"
    using rows_map_fold [of ?id ?key avs "[]"] m a range
    by (auto simp: collect_rows_def wp_andthen wp_of_result_case wp_ret map_of_range_map perm_order_distinct
        split: result.splits)
qed auto

lemma dIDs_at:
  assumes "reg_MatchString kg" "only_items T kg" "fits T"
  shows "triple (tatS T True) (dIDs D kg)
    (\<lambda>ids w. tatS T True w \<and> set ids = {i. i \<noteq> [] \<and> sep \<notin> set i \<and> T (dmakeKeyName kg i) \<noteq> None})
    (\<lambda>e w. is_wrapped e \<and> tatS T True w)"
  unfolding dIDs_def Let_def
proof (rule triple_seq [OF scan_settled_at])
  let ?key = "dmakeKeygroupKeyName kg" and ?id = "\<lambda>r. snd (dgetKey (r_Key r))"
  fix avs w
  assume a: "tatS T True w \<and> (\<forall>av \<in> set avs. in_table T (row_of av) \<and> dmatches (BeginsWith keyName ?key) (row_of av)) \<and>
     (fits T \<longrightarrow>
        (\<forall>r. in_table T r \<and> dmatches (BeginsWith keyName ?key) r \<longrightarrow> r \<in> row_of ` set avs))"
  then have rows: "\<forall>av \<in> set avs. in_table T (row_of av) \<and> dmatches (BeginsWith keyName ?key) (row_of av)"
    "fits T \<longrightarrow> (\<forall>r. in_table T r \<and> dmatches (BeginsWith keyName ?key) r \<longrightarrow> r \<in> row_of ` set avs)" by auto
  have "set (map ?id (filter (\<lambda>r. r_Key r \<noteq> ?key) (map row_of avs))) =
      {i. i \<noteq> [] \<and> sep \<notin> set i \<and> T (dmakeKeyName kg i) \<noteq> None}" (is "?L = ?R")
  proof (rule set_eqI)
    fix i
    have "i \<in> ?L \<longleftrightarrow> (\<exists>v. \<exists>r \<in> row_of ` set avs. r_Key r \<noteq> ?key \<and> ?id r = i \<and> r_Value r = v)" by auto
    also have "\<dots> \<longleftrightarrow> i \<in> ?R" unfolding rows_of_keygroup(2) [OF assms rows] by auto
    finally show "i \<in> ?L \<longleftrightarrow> i \<in> ?R" .
  qed
  with a rows_ids_map [where key = ?key and avs = avs and ids = "[]"]
  show "wp (of_result (rows_ids D ?key avs []))
      (\<lambda>ids w. tatS T True w \<and> set ids = {i. i \<noteq> [] \<and> sep \<notin> set i \<and> T (dmakeKeyName kg i) \<noteq> None})
      (\<lambda>e w. is_wrapped e \<and> tatS T True w) w"
    by (auto simp: wp_of_result_case split: result.splits)
qed auto

text \<open>Appending to a keygroup without items always gives the number 1.\<close>

lemma newest_only_key:
  "\<forall>av \<in> set avs. r_Key (row_of av) = key \<Longrightarrow>
   (case newest_of D key avs n of Ok m \<Rightarrow> m = n | Err e \<Rightarrow> is_wrapped e | Panic \<Rightarrow> False)"
proof (induction avs)
  case (Cons av avs)
  then show ?case using unmarshalKey(1) [of av] by (auto split: result.splits dest: unmarshalKey(2))
qed simp

lemma dAppend_at:
  assumes "no_items T kg" "fits T"
  shows "triple (tatS T True) (dAppend D kg v x)
    (\<lambda>i w. i = ''1'' \<and> (\<exists>now. tat (T(''1'' \<mapsto> (v, Some (expiry_at now x)))) w)) (\<lambda>e w. is_wrapped e \<and> inv w)"
proof -
  let ?key = "dmakeKeygroupKeyName kg"
  let ?row = "\<lambda>now. \<lparr>r_Key = ''1'', r_Value = v, r_Expiry = Some (expiry_at now x)\<rparr>"
  have "digit_char 1 = CHR ''1''" by code_simp
  then have one: "FormatUint (unat (0 + 1 :: 64 word)) = ''1''" by (simp add: FormatUint.simps)
  have put1: "wp (put_row D (?row now)) (\<lambda>_. wp (ret ''1'') (\<lambda>i w. i = ''1'' \<and>
      (\<exists>now. tat (T(''1'' \<mapsto> (v, Some (expiry_at now x)))) w)) E) (\<lambda>e w. is_wrapped e \<and> inv w) w"
    if "tat T w" for now w E
    by (rule wp_call [OF put_row_at that]) (auto simp: wp_ret store_row_def dest: sat_inv)
  show ?thesis
    unfolding dAppend_def Let_def
  proof (rule triple_seq [OF scan_settled_at])
    fix avs w
    assume a: "tatS T True w \<and> (\<forall>av \<in> set avs. in_table T (row_of av) \<and> dmatches (BeginsWith keyName ?key) (row_of av)) \<and>
       (fits T \<longrightarrow>
          (\<forall>r. in_table T r \<and> dmatches (BeginsWith keyName ?key) r \<longrightarrow> r \<in> row_of ` set avs))"
    from assms(1) obtain s e where "T ?key = Some (s, e)" by (auto simp: no_items_def dmakeKeygroupKeyName_def)
    then have "in_table T \<lparr>r_Key = ?key, r_Value = s, r_Expiry = e\<rparr> \<and>
        dmatches (BeginsWith keyName ?key) \<lparr>r_Key = ?key, r_Value = s, r_Expiry = e\<rparr>"
      by (simp add: in_table_def attr_def)
    with a assms(2) have ne: "avs \<noteq> []" by auto
    have "\<forall>av \<in> set avs. r_Key (row_of av) = ?key"
      using a assms(1) by (force simp: no_items_def dmakeKeygroupKeyName_def in_table_def attr_def)
    from newest_only_key [OF this, of 0] ne
    show "wp (andthen (if avs = [] then ret (- 1) else of_result (newest_of D ?key avs 0)) (\<lambda>newest.
        andthen (d_Now D) (\<lambda>now. andthen (put_row D \<lparr>r_Key = FormatUint (unat (newest + 1)), r_Value = v,
          r_Expiry = Some (expiry_at now x)\<rparr>) (\<lambda>_. ret (FormatUint (unat (newest + 1)))))))
      (\<lambda>i w. i = ''1'' \<and> (\<exists>now. tat (T(''1'' \<mapsto> (v, Some (expiry_at now x)))) w)) (\<lambda>e w. is_wrapped e \<and> inv w) w"
      using a one by (auto simp: wp_andthen wp_of_result_case split: result.splits dest: sat_inv
          intro!: wp_call [OF now [of T False, simplified]] put1)
  qed (auto dest: sat_inv)
qed

text \<open>Deleting a keygroup: the rows of its items and triggers are gone, all others stay.\<close>

lemma delete_rows_at:
  "triple (tat T) (foreach (delete_row D) avs)
    (\<lambda>_ w. tat (T |` (- (\<lambda>av. r_Key (row_of av)) ` set avs)) w) (\<lambda>e w. is_wrapped e \<and> inv w)"
proof -
  let ?I = "\<lambda>done w. tat (T |` (- (\<lambda>av. r_Key (row_of av)) ` set done)) w"
  have "triple (?I done) (delete_row D av) (\<lambda>_. ?I (done @ [av])) (\<lambda>e w. is_wrapped e \<and> inv w)" for av "done"
  proof (rule triple_conseq [OF delete_row_at])
    have "(T |` (- (\<lambda>av. r_Key (row_of av)) ` set done))(r_Key (row_of av) := None) =
        T |` (- (\<lambda>av. r_Key (row_of av)) ` set (done @ [av]))"
      by (auto simp: restrict_map_def fun_eq_iff)
    then show "tat ((T |` (- (\<lambda>av. r_Key (row_of av)) ` set done))(r_Key (row_of av) := None)) w \<Longrightarrow>
        ?I (done @ [av]) w" for w by simp
  qed (auto dest: sat_inv)
  moreover have "T |` UNIV = T" by (simp add: restrict_map_def)
  ultimately show ?thesis using triple_foreach [of avs ?I "delete_row D" _ "[]"] by simp
qed

lemma delete_prefix_at:
  assumes "fits T"
  shows "triple (tatS T True) (andthen (scan_table D (BeginsWith keyName p) None) (foreach (delete_row D)))
    (\<lambda>_ w. tat (T |` {k. \<not> prefix p k}) w) (\<lambda>e w. is_wrapped e \<and> inv w)"
proof (rule triple_seq [OF scan_settled_at])
  fix avs w
  assume a: "tatS T True w \<and> (\<forall>av \<in> set avs. in_table T (row_of av) \<and> dmatches (BeginsWith keyName p) (row_of av)) \<and>
     (fits T \<longrightarrow>
        (\<forall>r. in_table T r \<and> dmatches (BeginsWith keyName p) r \<longrightarrow> r \<in> row_of ` set avs))"
  have "T k = None" if "prefix p k" "k \<notin> (\<lambda>av. r_Key (row_of av)) ` set avs" for k
  proof (rule ccontr)
    assume "T k \<noteq> None"
    then obtain s e where "T k = Some (s, e)" by auto
    with that(1) have "in_table T \<lparr>r_Key = k, r_Value = s, r_Expiry = e\<rparr> \<and>
        dmatches (BeginsWith keyName p) \<lparr>r_Key = k, r_Value = s, r_Expiry = e\<rparr>"
      by (simp add: in_table_def attr_def)
    with a assms have "\<lparr>r_Key = k, r_Value = s, r_Expiry = e\<rparr> \<in> row_of ` set avs" by blast
    then obtain av where "av \<in> set avs" "row_of av = \<lparr>r_Key = k, r_Value = s, r_Expiry = e\<rparr>" by auto
    with that(2) show False by (metis (mono_tags, lifting) drow.select_convs(1) image_eqI)
  qed
  moreover have "\<forall>av \<in> set avs. prefix p (r_Key (row_of av))" using a by (simp add: attr_def)
  ultimately have eq: "T |` (- (\<lambda>av. r_Key (row_of av)) ` set avs) = T |` {k. \<not> prefix p k}"
    by (auto simp: restrict_map_def fun_eq_iff)
  show "wp (foreach (delete_row D) avs) (\<lambda>_ w. tat (T |` {k. \<not> prefix p k}) w) (\<lambda>e w. is_wrapped e \<and> inv w) w"
    by (rule wp_call [OF delete_rows_at conjunct1 [OF conjunct1 [OF a]]]) (simp_all only: eq)
qed (auto dest: sat_inv)

text \<open>The scan for the triggers comes right after the items were deleted and may be stale: all items
  are gone, and no row outside the keygroup is, but rows of triggers may be left.\<close>

lemma delete_some_at:
  "triple (tat T) (andthen (scan_table D (BeginsWith keyName p) None) (foreach (delete_row D)))
    (\<lambda>_ w. \<exists>A. tat (T |` A) w \<and> {k. \<not> prefix p k} \<subseteq> A) (\<lambda>e w. is_wrapped e \<and> inv w)"
proof (rule triple_seq [OF scan_table_at [of T False, simplified]])
  fix avs w
  assume a: "tat T w \<and> (\<forall>av \<in> set avs. dmatches (BeginsWith keyName p) (row_of av))"
  then have "{k. \<not> prefix p k} \<subseteq> - (\<lambda>av. r_Key (row_of av)) ` set avs" by (auto simp: attr_def)
  then show "wp (foreach (delete_row D) avs) (\<lambda>_ w. \<exists>A. tat (T |` A) w \<and> {k. \<not> prefix p k} \<subseteq> A)
      (\<lambda>e w. is_wrapped e \<and> inv w) w"
    by (intro wp_call [OF delete_rows_at conjunct1 [OF a]]) blast+
qed (auto dest: sat_inv)

lemma dDeleteKeygroup_at:
  assumes "\<And>T. fits T"
  shows "triple (tatS T True) (dDeleteKeygroup D kg)
    (\<lambda>_ w. \<exists>A. tat (T |` A) w \<and>
       {k. \<not> prefix (dmakeKeygroupKeyName kg) k \<and> \<not> prefix (dmakeTriggerConfigKeyName kg []) k} \<subseteq> A \<and>
       A \<subseteq> {k. \<not> prefix (dmakeKeygroupKeyName kg) k})
    (\<lambda>e w. is_wrapped e \<and> inv w)"
proof -
  have "andthen (andthen m f) g = andthen m (\<lambda>x. andthen (f x) g)"
    for m :: "('w, 'av list) op" and f :: "'av list \<Rightarrow> ('w, unit) op" and g :: "unit \<Rightarrow> ('w, unit) op"
    by (rule ext) (simp add: op_defs split: prod.split result.split)
  then have eq: "dDeleteKeygroup D kg =
      andthen (andthen (scan_table D (BeginsWith keyName (dmakeKeygroupKeyName kg)) None) (foreach (delete_row D)))
        (\<lambda>_. andthen (scan_table D (BeginsWith keyName (dmakeTriggerConfigKeyName kg [])) None) (foreach (delete_row D)))"
    by (simp add: dDeleteKeygroup_def)
  have r: "T |` A |` B = T |` (B \<inter> A)" for A B by (auto simp: restrict_map_def fun_eq_iff)
  have post: "\<exists>A. tat (T |` A) w \<and>
       {k. \<not> prefix (dmakeKeygroupKeyName kg) k \<and> \<not> prefix (dmakeTriggerConfigKeyName kg []) k} \<subseteq> A \<and>
       A \<subseteq> {k. \<not> prefix (dmakeKeygroupKeyName kg) k}"
    if "tat (T |` {k. \<not> prefix (dmakeKeygroupKeyName kg) k} |` B) w"
      "{k. \<not> prefix (dmakeTriggerConfigKeyName kg []) k} \<subseteq> B" for B w
    using that unfolding r by (intro exI [of _ "B \<inter> {k. \<not> prefix (dmakeKeygroupKeyName kg) k}"]) blast
  show ?thesis unfolding eq
    by (rule triple_seq [OF delete_prefix_at [OF assms]], rule wp_call [OF delete_some_at])
       (auto intro: post)
qed

end

end
