(* ===== verification/Dynamo_Properties.thy ===== *)
theory Dynamo_Properties
  imports Dynamo_Correct
begin

text \<open>The properties of the backend on DynamoDB, and a table in memory on which they are applied.\<close>

section \<open>A reference table\<close>

text \<open>Rows are written to the first list and read from the second, a copy that lags behind until it
  catches up.\<close>

type_synonym rtable = "(string \<times> drow) list"

definition catch_up :: "rtable \<times> rtable \<Rightarrow> rtable \<times> rtable" where
  "catch_up w = (fst w, fst w)"

definition mem_dynamo :: "(rtable \<times> rtable, drow) dynamo" where
  "mem_dynamo = \<lparr>d_table = ''fred'', d_NewSession = (\<lambda>_. ret ()),
     d_DescribeTable = (\<lambda>_. ret [(keyName, ''HASH'')]),
     d_GetItem = (\<lambda>_ k. gets (\<lambda>w. map_of (snd w) k)),
     d_PutItem = (\<lambda>_ r. modify (apfst (map_put (r_Key r) r))),
     d_DeleteItem = (\<lambda>_ k. modify (apfst (filter (\<lambda>(k', r). k' \<noteq> k)))),
     d_Scan = (\<lambda>_ f lim. gets (\<lambda>w. (case lim of None \<Rightarrow> id | Some n \<Rightarrow> take (nat n))
       (filter (dmatches f) (map snd (snd w))))),
     d_Build = (\<lambda>_. Ok ()), d_Marshal = Ok, d_Unmarshal = (\<lambda>r. Ok (r_Key r, r_Value r)),
     d_UnmarshalKey = (\<lambda>r. Ok (r_Key r)), d_Now = ret 1000, d_range = id\<rparr>"

definition rt_inv :: "rtable \<Rightarrow> bool" where
  "rt_inv t \<longleftrightarrow> distinct (map fst t) \<and> (\<forall>(k, r) \<in> set t. r_Key r = k)"

definition rt_tab :: "rtable \<Rightarrow> dtable" where
  "rt_tab t k = map_option (\<lambda>r. (r_Value r, r_Expiry r)) (map_of t k)"

lemma rt_row: "rt_inv t \<Longrightarrow> map_of t k = Some r \<Longrightarrow> r_Key r = k"
  by (auto simp: rt_inv_def dest: map_of_SomeD)

lemma rt_in: "rt_inv t \<Longrightarrow> in_table (rt_tab t) r \<longleftrightarrow> r \<in> snd ` set t"
proof -
  assume inv: "rt_inv t"
  have "in_table (rt_tab t) r \<longleftrightarrow> map_of t (r_Key r) = Some r"
    using rt_row [OF inv] by (cases r) (auto simp: in_table_def rt_tab_def)
  also have "\<dots> \<longleftrightarrow> r \<in> snd ` set t"
    using inv by (force simp: rt_inv_def dest: map_of_SomeD)
  finally show ?thesis .
qed

lemma rt_put:
  assumes "rt_inv t"
  shows "rt_inv (map_put (r_Key r) r t) \<and> rt_tab (map_put (r_Key r) r t) = store_row r (rt_tab t)"
proof
  have "set (map_put k v m) \<subseteq> insert (k, v) (set m)" for k :: string and v :: drow and m
    by (induction m) (auto split: if_splits)
  then have "\<forall>(k, r') \<in> set (map_put (r_Key r) r t). r_Key r' = k"
    using assms unfolding rt_inv_def by blast
  then show "rt_inv (map_put (r_Key r) r t)" using assms by (simp add: rt_inv_def distinct_map_put)
  show "rt_tab (map_put (r_Key r) r t) = store_row r (rt_tab t)"
    by (simp add: rt_tab_def fun_eq_iff map_of_map_put store_row_def)
qed

lemma rt_del:
  "rt_inv t \<Longrightarrow> rt_inv (filter (\<lambda>(k', r). k' \<noteq> k) t) \<and>
     rt_tab (filter (\<lambda>(k', r). k' \<noteq> k) t) = (rt_tab t)(k := None)"
proof -
  have "map_of (filter (\<lambda>(k', r). k' \<noteq> k) t) j = (if j = k then None else map_of t j)" for j
    by (induction t) auto
  then show "rt_inv t \<Longrightarrow> ?thesis"
    by (auto simp: rt_inv_def distinct_map_filter rt_tab_def fun_eq_iff)
qed

definition rw_inv :: "rtable \<times> rtable \<Rightarrow> bool" where
  "rw_inv w \<longleftrightarrow> rt_inv (fst w) \<and> rt_inv (snd w)"

definition rw_tab :: "rtable \<times> rtable \<Rightarrow> dtable" where
  "rw_tab w = rt_tab (fst w)"

definition rw_settled :: "rtable \<times> rtable \<Rightarrow> bool" where
  "rw_settled w \<longleftrightarrow> snd w = fst w"

lemma caught_up:
  "rw_inv w \<Longrightarrow> rw_inv (catch_up w) \<and> rw_tab (catch_up w) = rw_tab w \<and> rw_settled (catch_up w)"
  by (simp add: catch_up_def rw_inv_def rw_tab_def rw_settled_def)

interpretation memd: dynamo_backend mem_dynamo rw_inv rw_tab rw_settled "\<lambda>r. r" "\<lambda>_. True"
proof (unfold_locales, goal_cases)
  case (10 T b k)
  then show ?case
    by (auto simp: mem_dynamo_def triple_def wp_gets sat_def rw_inv_def rw_tab_def rw_settled_def rt_tab_def
        in_table_def split: option.split dest: rt_row)
next
  case (11 T av)
  then show ?case using rt_put by (auto simp: mem_dynamo_def triple_def wp_modify sat_def rw_inv_def rw_tab_def)
next
  case (12 T k)
  then show ?case using rt_del by (auto simp: mem_dynamo_def triple_def wp_modify sat_def rw_inv_def rw_tab_def)
next
  case (13 T b f lim)
  have "set ((case lim of None \<Rightarrow> id | Some n \<Rightarrow> take (nat n)) xs) \<subseteq> set xs" for xs :: "drow list"
    by (auto split: option.splits dest: in_set_takeD)
  then show ?case
    by (force simp: mem_dynamo_def triple_def wp_gets sat_def rw_inv_def rw_tab_def rw_settled_def rt_in)
qed (auto simp: mem_dynamo_def triple_def wp_ret perm_order_def)

section \<open>Properties\<close>

text \<open>C38: items on DynamoDB. An update that succeeds writes exactly one row, with the new value and the
  expiry added to what the clock said when the update began (an expiry of 0 thus marks it as expiring
  at once). Once the write has reached all copies of the table (\<open>w1\<close>), a read of the item that
  succeeds returns the new value, and a read of any other item what was stored before.\<close>

theorem dynamo_read_update:
  assumes D: "dynamo_backend D I tab settled row_of fits" and w: "I w"
    and n: "reg_MatchString kg" "reg_MatchString i" "reg_MatchString kg'" "reg_MatchString i'"
    and upd: "dUpdate D kg i v app x w = (Ok (), w')"
    and copied: "I w1" "tab w1 = tab w'" "settled w1"
    and rd: "dRead D kg' i' w1 = (Ok s, w2)"
  shows "(\<exists>now w0. d_Now D w = (Ok now, w0) \<and>
      tab w' = (tab w)(dmakeKeyName kg i \<mapsto> (v, Some (expiry_at now x)))) \<and>
    (if kg' = kg \<and> i' = i then s = v else \<exists>e. tab w (dmakeKeyName kg' i') = Some (s, e))"
proof -
  have "sat I tab (tab w) w" using w by (rule sat_view)
  from dynamo_backend.dUpdate_now [OF D upd this] obtain now w0 where now: "d_Now D w = (Ok now, w0)"
    and w': "sat I tab ((tab w)(dmakeKeyName kg i \<mapsto> (v, Some (expiry_at now x)))) w'" by metis
  then have "holds I tab settled ((tab w)(dmakeKeyName kg i \<mapsto> (v, Some (expiry_at now x)))) True w1"
    using copied by (simp add: sat_def)
  from triple_run(2) [OF dynamo_backend.dRead_at [OF D] this rd] obtain e where
    s: "((tab w)(dmakeKeyName kg i \<mapsto> (v, Some (expiry_at now x)))) (dmakeKeyName kg' i') = Some (s, e)" by blast
  have key: "dmakeKeyName kg' i' = dmakeKeyName kg i \<longleftrightarrow> kg' = kg \<and> i' = i"
    using valid_no_sep [OF n(1)] valid_no_sep [OF n(3)]
    by (auto simp: dmakeKeyName_def append_eq_append_conv2 append_eq_Cons_conv Cons_eq_append_conv)
  show ?thesis using now w' s key by (auto simp: sat_def split: if_splits)
qed

theorem dynamo_read_update_witness:
  "rw_tab (snd (dUpdate mem_dynamo ''kg'' ''a'' ''v'' False 60 ([], []))) ''kg|a'' = Some (''v'', Some 1060) \<and>
     fst (dRead mem_dynamo ''kg'' ''a'' (catch_up (snd (dUpdate mem_dynamo ''kg'' ''a'' ''v'' False 60 ([], []))))) = Ok ''v''"
proof -
  have n: "reg_MatchString ''kg''" "reg_MatchString ''a''" by code_simp+
  have i: "rw_inv ([], [])" by (simp add: rw_inv_def rt_inv_def)
  let ?w = "snd (dUpdate mem_dynamo ''kg'' ''a'' ''v'' False 60 ([], []))"
  have u: "dUpdate mem_dynamo ''kg'' ''a'' ''v'' False 60 ([], []) = (Ok (), ?w)" by code_simp
  have r: "dRead mem_dynamo ''kg'' ''a'' (catch_up ?w) = (Ok ''v'', catch_up ?w)" by code_simp
  have k: "dmakeKeyName ''kg'' ''a'' = ''kg|a''" and x: "expiry_at 1000 60 = 1060" by code_simp+
  have c: "rw_inv ?w" using triple_run(2) [OF memd.dUpdate_at sat_view [of rw_inv, OF i] u] by (auto simp: sat_def)
  from dynamo_read_update [OF memd.dynamo_backend_axioms i n n u _ _ _ r] caught_up [OF c]
  have "\<exists>now w0. d_Now mem_dynamo ([], []) = (Ok now, w0) \<and>
      rw_tab ?w = (rw_tab ([], []))(''kg|a'' \<mapsto> (''v'', Some (expiry_at now 60)))"
    unfolding k by blast
  then have "rw_tab ?w ''kg|a'' = Some (''v'', Some (expiry_at 1000 60))"
    by (auto simp: mem_dynamo_def ret_run)
  with r show ?thesis unfolding x by simp
qed

text \<open>C39: append on DynamoDB loses items. The row of an appended item carries only the number, not the
  keygroup. So the first append to each keygroup without items gets the number 1, and so does the
  next one, made once the first has reached all copies of the table: it overwrites the first, also
  when it goes to another keygroup, and once it has reached all copies no read finds either of
  them.\<close>

theorem dynamo_append_overwrites:
  assumes D: "dynamo_backend D I tab settled row_of (\<lambda>_. True)" and w: "I w" "settled w"
    and kg: "no_items (tab w) kg" "reg_MatchString kg" and kg': "no_items (tab w) kg'" "reg_MatchString kg'"
    and one: "dAppend D kg v x w = (Ok i, w1)"
    and copied: "I u1" "tab u1 = tab w1" "settled u1"
    and two: "dAppend D kg' v' x' u1 = (Ok i', w2)"
    and copied': "I u2" "tab u2 = tab w2" "settled u2"
  shows "i = ''1'' \<and> i' = ''1'' \<and> (\<exists>e. tab w2 = (tab w)(''1'' \<mapsto> (v', e))) \<and>
    fst (dRead D kg i u2) \<noteq> Ok s \<and> fst (dRead D kg' i' u2) \<noteq> Ok s"
proof -
  have "holds I tab settled (tab w) True w" using w by (simp add: sat_view)
  from triple_run(2) [OF dynamo_backend.dAppend_at [OF D kg(1) TrueI] this one] obtain now where
    1: "i = ''1''" "sat I tab ((tab w)(''1'' \<mapsto> (v, Some (expiry_at now x)))) w1" by blast
  have no: "\<not> prefix (k @ [sep]) ''1''" for k using in_set_conv_decomp [of sep "''1''"]
    by (auto simp: prefix_def sep_def)
  have "kg' @ [sep] \<noteq> ''1''" using no [of kg'] by auto
  with kg'(1) no have items: "no_items ((tab w)(''1'' \<mapsto> y)) kg'" for y unfolding no_items_def by (metis fun_upd_apply)
  have "holds I tab settled ((tab w)(''1'' \<mapsto> (v, Some (expiry_at now x)))) True u1"
    using 1(2) copied by (simp add: sat_def)
  from triple_run(2) [OF dynamo_backend.dAppend_at [OF D items TrueI] this two] obtain now' where
    2: "i' = ''1''" "sat I tab ((tab w)(''1'' \<mapsto> (v', Some (expiry_at now' x')))) w2" by auto
  have u2: "holds I tab settled ((tab w)(''1'' \<mapsto> (v', Some (expiry_at now' x')))) True u2"
    using 2(2) copied' by (simp add: sat_def)
  have "fst (dRead D k ''1'' u2) \<noteq> Ok s" if "no_items (tab w) k" for k
  proof
    assume "fst (dRead D k ''1'' u2) = Ok s"
    then obtain w3 where "dRead D k ''1'' u2 = (Ok s, w3)" by (metis prod.collapse)
    from triple_run(2) [OF dynamo_backend.dRead_at [OF D] u2 this] obtain e where
      "((tab w)(''1'' \<mapsto> (v', Some (expiry_at now' x')))) (k @ [sep] @ ''1'') = Some (s, e)"
      by (auto simp: dmakeKeyName_def)
    moreover have "k @ [sep] @ ''1'' \<noteq> ''1''" "prefix (k @ [sep]) (k @ [sep] @ ''1'')" "k @ [sep] @ ''1'' \<noteq> k @ [sep]"
      by (auto simp: prefix_def)
    ultimately show False using that unfolding no_items_def by (metis fun_upd_apply option.distinct(1))
  qed
  with 1 2 kg(1) kg'(1) show ?thesis by (auto simp: sat_def)
qed

theorem dynamo_append_overwrites_witness:
  "let t = catch_up (snd (dCreateKeygroup mem_dynamo ''kg'' ([], [])));
       t1 = catch_up (snd (dAppend mem_dynamo ''kg'' ''first'' 0 t));
       t2 = catch_up (snd (dAppend mem_dynamo ''kg'' ''second'' 0 t1))
   in fst (dAppend mem_dynamo ''kg'' ''first'' 0 t) = Ok ''1'' \<and>
      fst (dAppend mem_dynamo ''kg'' ''second'' 0 t1) = Ok ''1'' \<and>
      fst (dRead mem_dynamo ''kg'' ''1'' t2) \<noteq> Ok ''first''"
proof -
  let ?t = "catch_up (snd (dCreateKeygroup mem_dynamo ''kg'' ([], [])))"
  let ?w1 = "snd (dAppend mem_dynamo ''kg'' ''first'' 0 ?t)"
  let ?w2 = "snd (dAppend mem_dynamo ''kg'' ''second'' 0 (catch_up ?w1))"
  have t: "?t = ([(''kg|'', \<lparr>r_Key = ''kg|'', r_Value = ''kg|'', r_Expiry = None\<rparr>)],
    [(''kg|'', \<lparr>r_Key = ''kg|'', r_Value = ''kg|'', r_Expiry = None\<rparr>)])" by code_simp
  have inv: "rw_inv ?t" "rw_settled ?t" unfolding t by (simp_all add: rw_inv_def rt_inv_def rw_settled_def)
  have n: "reg_MatchString ''kg''" by code_simp
  have no: "no_items (rw_tab ?t) ''kg''" unfolding t by (auto simp: no_items_def rw_tab_def rt_tab_def sep_def)
  have a: "dAppend mem_dynamo ''kg'' ''first'' 0 ?t = (Ok ''1'', ?w1)"
    "dAppend mem_dynamo ''kg'' ''second'' 0 (catch_up ?w1) = (Ok ''1'', ?w2)" by code_simp+
  have w: "rw_inv ?w1" "rw_inv ?w2" by code_simp+
  note c = caught_up [OF w(1)] caught_up [OF w(2)]
  from dynamo_append_overwrites [OF memd.dynamo_backend_axioms inv no n no n a(1) _ _ _ a(2), of "catch_up ?w2"] c
  have "fst (dRead mem_dynamo ''kg'' ''1'' (catch_up ?w2)) \<noteq> Ok ''first''" by blast
  with arg_cong [OF a(1), of fst] arg_cong [OF a(2), of fst] show ?thesis unfolding Let_def fst_conv by blast
qed

end
