(* ===== verification/Store_Service.thy ===== *)
theory Store_Service
  imports Store_Contract
begin

text \<open>
  pkg/fred/storeservice.go: the checks in front of the storage backend (valid names, the
  keygroup exists in the local store) and the conversion of its maps into items and triggers.
  The second half specifies every operation over the contract of the store, on every branch.
\<close>

section \<open>Operations\<close>

record 'w storeService =
  iS :: "'w Store"

definition newStoreService :: "'w Store \<Rightarrow> 'w storeService" where
  "newStoreService s = \<lparr>iS = s\<rparr>"

definition no_such_keygroup :: "KeygroupName \<Rightarrow> error" where
  "no_such_keygroup kg = Wrapped (''no such keygroup in store: '' @ kg)"

definition items_of :: "KeygroupName \<Rightarrow> (string \<times> string) list \<Rightarrow> Item list" where
  "items_of kg data = map (\<lambda>(i, v). \<lparr>iKeygroup = kg, iID = i, iVal = v\<rparr>) data"

text \<open>The guard every operation but \<open>append\<close> and \<open>createKeygroup\<close> starts with.\<close>

definition in_keygroup ::
  "'w storeService \<Rightarrow> unit result \<Rightarrow> KeygroupName \<Rightarrow> ('w, 'a) op \<Rightarrow> ('w, 'a) op" where
  "in_keygroup s chk kg m =
     andthen (of_result chk)
       (\<lambda>_. andthen (st_ExistsKeygroup (iS s) kg)
       (\<lambda>ex. if \<not> ex then fail (no_such_keygroup kg) else m))"

definition ss_read :: "'w storeService \<Rightarrow> KeygroupName \<Rightarrow> string \<Rightarrow> ('w, string) op" where
  "ss_read s kg i = in_keygroup s (checkKGandID kg i) kg (st_Read (iS s) kg i)"

definition ss_exists :: "'w storeService \<Rightarrow> Item \<Rightarrow> ('w, bool) op" where
  "ss_exists s it = st_Exists (iS s) (iKeygroup it) (iID it)"

definition ss_scan ::
  "'w storeService \<Rightarrow> KeygroupName \<Rightarrow> string \<Rightarrow> 64 word \<Rightarrow> ('w, Item list) op" where
  "ss_scan s kg i cnt =
     in_keygroup s (checkKGandID kg i) kg
       (andthen (ss_exists s \<lparr>iKeygroup = kg, iID = i, iVal = []\<rparr>)
         (\<lambda>ex. if \<not> ex then fail (Wrapped (''no such item '' @ i @ '' in keygroup '' @ kg))
               else andthen (st_ReadSome (iS s) kg i cnt) (\<lambda>data. ret (items_of kg data))))"

definition ss_readAll :: "'w storeService \<Rightarrow> KeygroupName \<Rightarrow> ('w, Item list) op" where
  "ss_readAll s kg =
     in_keygroup s (checkKeygroup [kg]) kg
       (andthen (st_ReadAll (iS s) kg) (\<lambda>data. ret (items_of kg data)))"

definition ss_update :: "'w storeService \<Rightarrow> Item \<Rightarrow> bool \<Rightarrow> int \<Rightarrow> ('w, unit) op" where
  "ss_update s it app expiry =
     in_keygroup s (checkItem [it]) (iKeygroup it)
       (st_Update (iS s) (iKeygroup it) (iID it) (iVal it) app expiry)"

definition ss_delete :: "'w storeService \<Rightarrow> KeygroupName \<Rightarrow> string \<Rightarrow> ('w, unit) op" where
  "ss_delete s kg i = in_keygroup s (checkKGandID kg i) kg (st_Delete (iS s) kg i)"

definition ss_append :: "'w storeService \<Rightarrow> Item \<Rightarrow> int \<Rightarrow> ('w, Item) op" where
  "ss_append s it expiry =
     andthen (st_ExistsKeygroup (iS s) (iKeygroup it))
       (\<lambda>ex. if \<not> ex then fail (no_such_keygroup (iKeygroup it))
             else andthen (st_Append (iS s) (iKeygroup it) (iVal it) expiry)
                    (\<lambda>k. ret (it\<lparr>iID := k\<rparr>)))"

definition ss_createKeygroup :: "'w storeService \<Rightarrow> KeygroupName \<Rightarrow> ('w, unit) op" where
  "ss_createKeygroup s kg =
     andthen (of_result (checkKeygroup [kg]))
       (\<lambda>_. andthen (st_ExistsKeygroup (iS s) kg)
       (\<lambda>ex. if ex then fail (Wrapped (''keygroup already in store: '' @ kg))
             else st_CreateKeygroup (iS s) kg))"

definition ss_deleteKeygroup :: "'w storeService \<Rightarrow> KeygroupName \<Rightarrow> ('w, unit) op" where
  "ss_deleteKeygroup s kg =
     in_keygroup s (checkKeygroup [kg]) kg (st_DeleteKeygroup (iS s) kg)"

definition ss_addKeygroupTrigger ::
  "'w storeService \<Rightarrow> KeygroupName \<Rightarrow> Trigger \<Rightarrow> ('w, unit) op" where
  "ss_addKeygroupTrigger s kg t =
     in_keygroup s (checkKeygroup [kg]) kg (st_AddKeygroupTrigger (iS s) kg (tID t) (tHost t))"

definition ss_deleteKeygroupTrigger ::
  "'w storeService \<Rightarrow> KeygroupName \<Rightarrow> Trigger \<Rightarrow> ('w, unit) op" where
  "ss_deleteKeygroupTrigger s kg t =
     in_keygroup s (checkKeygroup [kg]) kg (st_DeleteKeygroupTrigger (iS s) kg (tID t))"

definition ss_getKeygroupTrigger :: "'w storeService \<Rightarrow> KeygroupName \<Rightarrow> ('w, Trigger list) op" where
  "ss_getKeygroupTrigger s kg =
     in_keygroup s (checkKeygroup [kg]) kg
       (andthen (st_GetKeygroupTrigger (iS s) kg)
         (\<lambda>t. ret (map (\<lambda>(i, host). \<lparr>tID = i, tHost = host\<rparr>) t)))"

section \<open>Specifications over the contract of the store\<close>

lemma check_error:
  "checkKGandID kg i = Err e \<Longrightarrow> is_wrapped e \<and> \<not> (reg_MatchString kg \<and> reg_MatchString i)"
  "checkKeygroup [kg] = Err e \<Longrightarrow> is_wrapped e \<and> \<not> reg_MatchString kg"
  "checkItem [it] = Err e \<Longrightarrow>
     is_wrapped e \<and> \<not> (reg_MatchString (iKeygroup it) \<and> reg_MatchString (iID it))"
  by (auto simp: checkKGandID_def checkItem.simps checkKeygroup.simps split: if_splits)

lemma set_items_of:
  "distinct (map fst m) \<Longrightarrow> set (items_of kg m) =
     {\<lparr>iKeygroup = kg, iID = j, iVal = v\<rparr> | j v. map_of m j = Some v}"
  by (auto simp: items_of_def)

context store_spec
begin

abbreviation at :: "sview \<Rightarrow> 'w \<Rightarrow> bool" where
  "at \<equiv> sat inv view"

lemma at_valid: "at V w \<Longrightarrow> kg \<in> sv_kgs V \<Longrightarrow> reg_MatchString kg"
  by (auto simp: sat_def dest: kgs_valid)

text \<open>The guard: it stops with a wrapped error and nothing changed, or goes on in the keygroup.\<close>

lemma in_keygroup_at:
  assumes chk: "chk \<noteq> Panic" "\<And>e. chk = Err e \<Longrightarrow> is_wrapped e \<and> \<not> ok" "chk = Ok () \<Longrightarrow> ok"
    and m: "ok \<Longrightarrow> kg \<in> sv_kgs V \<Longrightarrow> triple (at V) m Q E"
    and E: "\<And>e w. at V w \<Longrightarrow> is_wrapped e \<Longrightarrow> (healthy \<longrightarrow> \<not> ok \<or> kg \<notin> sv_kgs V) \<Longrightarrow> E e w"
  shows "triple (at V) (in_keygroup \<lparr>iS = S\<rparr> chk kg m) Q E"
proof (rule tripleI)
  fix w
  assume w: "at V w"
  show "wp (in_keygroup \<lparr>iS = S\<rparr> chk kg m) Q E w"
  proof (cases chk)
    case (Ok u)
    have "wp m Q E w1" if "at V w1" "kg \<in> sv_kgs V" for w1
      using m chk(3) Ok that by (simp add: triple_def)
    then show ?thesis
      unfolding in_keygroup_def wp_andthen storeService.simps Ok wp_of_result
      by (intro wp_call [OF existsKg_spec [of V] w])
         (auto simp: wp_if wp_fail no_such_keygroup_def intro!: E)
  qed (use w chk E in \<open>auto simp: in_keygroup_def wp_andthen wp_of_result\<close>)
qed

lemma read_at:
  "triple (at V) (ss_read \<lparr>iS = S\<rparr> kg i)
    (\<lambda>v w. at V w \<and> kg \<in> sv_kgs V \<and> sv_items V kg i = Some v)
    (\<lambda>e w. at V w \<and> is_wrapped e \<and>
       (healthy \<longrightarrow> \<not> (reg_MatchString kg \<and> reg_MatchString i) \<or> kg \<notin> sv_kgs V \<or> sv_items V kg i = None))"
  unfolding ss_read_def storeService.simps
  by (rule in_keygroup_at [where ok = "reg_MatchString kg \<and> reg_MatchString i"])
     (auto dest: check_error intro: triple_conseq [OF read_spec])

lemma exists_at:
  "triple (at V) (ss_exists \<lparr>iS = S\<rparr> it)
    (\<lambda>b w. at V w \<and> (reg_MatchString (iKeygroup it) \<and> reg_MatchString (iID it) \<longrightarrow>
       (b \<longrightarrow> sv_items V (iKeygroup it) (iID it) \<noteq> None) \<and>
       (healthy \<longrightarrow> sv_items V (iKeygroup it) (iID it) \<noteq> None \<longrightarrow> b)))
    (\<lambda>e w. False)"
  unfolding ss_exists_def storeService.simps by (rule exists_spec)

lemma scan_at:
  "triple (at V) (ss_scan \<lparr>iS = S\<rparr> kg i n)
    (\<lambda>its w. at V w \<and> kg \<in> sv_kgs V \<and> sv_items V kg i \<noteq> None \<and>
       set its = {\<lparr>iKeygroup = kg, iID = j, iVal = v\<rparr> | j v.
                   j \<in> scan_ids (sv_items V kg) i (unat n) \<and> sv_items V kg j = Some v})
    (\<lambda>e w. at V w \<and> is_wrapped e \<and>
       (healthy \<longrightarrow> \<not> (reg_MatchString kg \<and> reg_MatchString i) \<or> kg \<notin> sv_kgs V \<or> sv_items V kg i = None))"
    (is "triple _ _ ?Q ?E")
proof -
  have some: "wp (andthen (st_ReadSome S kg i n) (\<lambda>data. ret (items_of kg data))) ?Q ?E w"
    if "at V w" "kg \<in> sv_kgs V" "reg_MatchString kg" "reg_MatchString i" "sv_items V kg i \<noteq> None" for w
    unfolding wp_andthen wp_ret
    by (rule wp_call [OF readSome_spec [OF that(3,4)] that(1)])
       (use that in \<open>auto simp: set_items_of restrict_map_def split: if_splits\<close>)
  show ?thesis
    unfolding ss_scan_def storeService.simps
  proof (rule in_keygroup_at [where ok = "reg_MatchString kg \<and> reg_MatchString i"], goal_cases)
    case 4
    then show ?case
      by (intro triple_seq [OF exists_at [of V]]) (auto simp: wp_if wp_fail intro!: wp_mono [OF some])
  qed (auto dest: check_error)
qed

lemma readAll_at:
  "triple (at V) (ss_readAll \<lparr>iS = S\<rparr> kg)
    (\<lambda>its w. at V w \<and> kg \<in> sv_kgs V \<and>
       set its = {\<lparr>iKeygroup = kg, iID = j, iVal = v\<rparr> | j v. sv_items V kg j = Some v})
    (\<lambda>e w. at V w \<and> is_wrapped e \<and> (healthy \<longrightarrow> \<not> reg_MatchString kg \<or> kg \<notin> sv_kgs V))"
  unfolding ss_readAll_def storeService.simps
  by (rule in_keygroup_at [where ok = "reg_MatchString kg"])
     (auto dest: check_error simp: wp_ret set_items_of intro!: triple_seq [OF readAll_spec [of kg V]])

lemma update_at:
  assumes "int64 x"
  shows "triple (at V) (ss_update \<lparr>iS = S\<rparr> it app x)
    (\<lambda>_ w. at (upd_item (iKeygroup it) (iID it) (iVal it) V) w \<and> iKeygroup it \<in> sv_kgs V \<and>
       reg_MatchString (iID it))
    (\<lambda>e w. at V w \<and> is_wrapped e \<and>
       (healthy \<longrightarrow> \<not> (reg_MatchString (iKeygroup it) \<and> reg_MatchString (iID it)) \<or>
          iKeygroup it \<notin> sv_kgs V \<or> app))"
  unfolding ss_update_def storeService.simps
  by (rule in_keygroup_at [where ok = "reg_MatchString (iKeygroup it) \<and> reg_MatchString (iID it)"])
     (auto dest: check_error intro: triple_conseq [OF update_spec] assms)

lemma delete_at:
  "triple (at V) (ss_delete \<lparr>iS = S\<rparr> kg i)
    (\<lambda>_ w. at (del_item kg i V) w \<and> kg \<in> sv_kgs V \<and> reg_MatchString i)
    (\<lambda>e w. at V w \<and> is_wrapped e \<and>
       (healthy \<longrightarrow> \<not> (reg_MatchString kg \<and> reg_MatchString i) \<or> kg \<notin> sv_kgs V \<or> sv_items V kg i = None))"
  unfolding ss_delete_def storeService.simps
  by (rule in_keygroup_at [where ok = "reg_MatchString kg \<and> reg_MatchString i"])
     (auto dest: check_error intro: triple_conseq [OF delete_spec])

lemma append_at:
  assumes "int64 x"
  shows "triple (at V) (ss_append \<lparr>iS = S\<rparr> it x)
    (\<lambda>it' w. iKeygroup it \<in> sv_kgs V \<and> all_digits (iID it') \<and> it' = it\<lparr>iID := iID it'\<rparr> \<and>
       at (upd_item (iKeygroup it) (iID it') (iVal it) V) w)
    (\<lambda>e w. at V w \<and> is_wrapped e)"
proof -
  have app: "wp (andthen (st_Append S (iKeygroup it) (iVal it) x) (\<lambda>k. ret (it\<lparr>iID := k\<rparr>)))
      (\<lambda>it' w. iKeygroup it \<in> sv_kgs V \<and> all_digits (iID it') \<and> it' = it\<lparr>iID := iID it'\<rparr> \<and>
         at (upd_item (iKeygroup it) (iID it') (iVal it) V) w)
      (\<lambda>e w. at V w \<and> is_wrapped e) w"
    if "at V w" "iKeygroup it \<in> sv_kgs V" for w
    unfolding wp_andthen wp_ret
    by (rule wp_call [OF append_spec [OF at_valid [OF that] assms] that(1)]) (use that in auto)
  show ?thesis
    unfolding ss_append_def storeService.simps
    by (rule triple_seq [OF existsKg_spec [of V]])
       (auto simp: wp_if wp_fail no_such_keygroup_def intro!: wp_mono [OF app])
qed

lemma createKeygroup_at:
  "triple (at V) (ss_createKeygroup \<lparr>iS = S\<rparr> kg)
    (\<lambda>_ w. at (add_kg kg V) w \<and> reg_MatchString kg \<and> (healthy \<longrightarrow> kg \<notin> sv_kgs V))
    (\<lambda>e w. at V w \<and> is_wrapped e \<and> (healthy \<longrightarrow> \<not> reg_MatchString kg \<or> kg \<in> sv_kgs V))"
    (is "triple _ _ ?Q ?E")
proof (cases "reg_MatchString kg")
  case True
  then have create: "wp (st_CreateKeygroup S kg) ?Q ?E w"
    if "at V w" "healthy \<longrightarrow> kg \<notin> sv_kgs V" for w
    by (intro wp_call [OF create_spec [OF True] that(1)]) (use that in auto)
  show ?thesis
    unfolding ss_createKeygroup_def storeService.simps checkKeygroup_single [THEN iffD2, OF True]
    by (rule tripleI, unfold wp_andthen wp_of_result, rule wp_call [OF existsKg_spec [of V]])
       (use True in \<open>auto simp: wp_if wp_fail intro!: wp_mono [OF create]\<close>)
qed (auto simp: ss_createKeygroup_def triple_def wp_andthen wp_of_result checkKeygroup.simps)

lemma deleteKeygroup_at:
  "triple (at V) (ss_deleteKeygroup \<lparr>iS = S\<rparr> kg)
    (\<lambda>_ w. at (del_kg kg V) w \<and> kg \<in> sv_kgs V)
    (\<lambda>e w. inv w \<and> (healthy \<longrightarrow> at V w \<and> is_wrapped e \<and> kg \<notin> sv_kgs V))"
  unfolding ss_deleteKeygroup_def storeService.simps
  by (rule in_keygroup_at [where ok = "reg_MatchString kg"])
     (auto dest: check_error at_valid sat_inv intro: triple_conseq [OF deleteKg_spec])

lemma addKeygroupTrigger_at:
  "triple (at V) (ss_addKeygroupTrigger \<lparr>iS = S\<rparr> kg t)
    (\<lambda>_ w. at (if valid_tid (tID t) then add_trig kg (tID t) (tHost t) V else V) w \<and> kg \<in> sv_kgs V)
    (\<lambda>e w. at V w \<and> is_wrapped e \<and> (healthy \<longrightarrow> \<not> reg_MatchString kg \<or> kg \<notin> sv_kgs V))"
  unfolding ss_addKeygroupTrigger_def storeService.simps
  by (rule in_keygroup_at [where ok = "reg_MatchString kg"])
     (auto dest: check_error intro: triple_conseq [OF addTrig_spec])

lemma deleteKeygroupTrigger_at:
  "triple (at V) (ss_deleteKeygroupTrigger \<lparr>iS = S\<rparr> kg t)
    (\<lambda>_ w. at (if valid_tid (tID t) then del_trig kg (tID t) V else V) w \<and> kg \<in> sv_kgs V)
    (\<lambda>e w. at V w \<and> is_wrapped e \<and>
       (healthy \<longrightarrow> \<not> reg_MatchString kg \<or> kg \<notin> sv_kgs V \<or> sv_trigs V kg (tID t) = None))"
  unfolding ss_deleteKeygroupTrigger_def storeService.simps
  by (rule in_keygroup_at [where ok = "reg_MatchString kg"])
     (auto dest: check_error intro: triple_conseq [OF delTrig_spec])

lemma getKeygroupTrigger_at:
  "triple (at V) (ss_getKeygroupTrigger \<lparr>iS = S\<rparr> kg)
    (\<lambda>ts w. at V w \<and> kg \<in> sv_kgs V \<and> distinct (map tID ts) \<and>
       set ts = {\<lparr>tID = t, tHost = h\<rparr> | t h. sv_trigs V kg t = Some h})
    (\<lambda>e w. at V w \<and> is_wrapped e \<and> (healthy \<longrightarrow> \<not> reg_MatchString kg \<or> kg \<notin> sv_kgs V))"
proof -
  have m: "map tID (map (\<lambda>(i, host). \<lparr>tID = i, tHost = host\<rparr>) m) = map fst m \<and>
      (distinct (map fst m) \<longrightarrow> set (map (\<lambda>(i, host). \<lparr>tID = i, tHost = host\<rparr>) m) =
         {\<lparr>tID = t, tHost = h\<rparr> | t h. map_of m t = Some h})" for m :: "(string \<times> string) list"
    by (force simp: comp_def case_prod_unfold)
  show ?thesis
    unfolding ss_getKeygroupTrigger_def storeService.simps
    by (rule in_keygroup_at [where ok = "reg_MatchString kg"])
       (auto dest: check_error simp: wp_ret m simp del: set_map map_map
         intro!: triple_seq [OF getTrig_spec [of kg V]])
qed

end

end
