(* ===== verification/Trigger_Service.thy ===== *)
theory Trigger_Service
  imports Store_Service
begin

text \<open>
  pkg/fred/trigger.go: trigger nodes of a keygroup are told about every update and delete of an
  item. The connection to a trigger node is a parameter. A connection that cannot be created
  ends the process (\<^verbatim>\<open>log.Fatal\<close>); errors of single trigger nodes are collected and do not keep
  the others from being told.
\<close>

datatype EnumTriggerStatus = TRIGGER_OK | TRIGGER_ERROR

text \<open>
  \<open>tr_Dial\<close> creates the connection, the two calls give the response (\<open>None\<close>: no response and
  no error), \<open>tr_Close\<close> closes it.
\<close>

record 'w TriggerNode =
  tr_Dial :: "string \<Rightarrow> ('w, unit) op"
  tr_PutItemTrigger ::
    "string \<Rightarrow> string \<Rightarrow> string \<Rightarrow> string \<Rightarrow> ('w, (EnumTriggerStatus \<times> string) option) op"
  tr_DeleteItemTrigger ::
    "string \<Rightarrow> string \<Rightarrow> string \<Rightarrow> ('w, (EnumTriggerStatus \<times> string) option) op"
  tr_Close :: "string \<Rightarrow> ('w, unit) op"

record 'w triggerService =
  t_tc :: "'w TriggerNode"
  t_s :: "'w storeService"

definition getConnAndClient :: "'w triggerService \<Rightarrow> string \<Rightarrow> ('w, unit) op" where
  "getConnAndClient t host = attempt (tr_Dial (t_tc t) host) (\<lambda>_. panic) ret"

text \<open>The error to report, if any.\<close>

definition dealWithStatusResponse ::
  "('w, (EnumTriggerStatus \<times> string) option) op \<Rightarrow> ('w, error option) op" where
  "dealWithStatusResponse m =
     attempt m (\<lambda>e. ret (Some e)) (\<lambda>res.
       case res of
         None \<Rightarrow> ret None
       | Some (st, msg) \<Rightarrow>
           (case st of TRIGGER_ERROR \<Rightarrow> ret (Some (Wrapped msg)) | TRIGGER_OK \<Rightarrow> ret None))"

definition add_error :: "error option \<Rightarrow> error option \<Rightarrow> error option" where
  "add_error e err = (case err of None \<Rightarrow> e | Some _ \<Rightarrow> Some (Wrapped ''trigger error''))"

text \<open>One round of the loops of \<^verbatim>\<open>triggerUpdate\<close> and \<^verbatim>\<open>triggerDelete\<close>.\<close>

definition trigger_node ::
  "'w triggerService \<Rightarrow> (string \<Rightarrow> ('w, (EnumTriggerStatus \<times> string) option) op)
     \<Rightarrow> string \<Rightarrow> error option \<Rightarrow> ('w, error option) op" where
  "trigger_node t call host e =
     andthen (getConnAndClient t host)
       (\<lambda>_. andthen (dealWithStatusResponse (call host))
       (\<lambda>err. attempt (tr_Close (t_tc t) host)
          (\<lambda>err'. ret (add_error (add_error e err) (Some err')))
          (\<lambda>_. ret (add_error e err))))"

fun trigger_nodes ::
  "'w triggerService \<Rightarrow> (string \<Rightarrow> ('w, (EnumTriggerStatus \<times> string) option) op)
     \<Rightarrow> Trigger list \<Rightarrow> error option \<Rightarrow> ('w, error option) op" where
  "trigger_nodes t call [] e = ret e"
| "trigger_nodes t call (node # nodes) e =
     andthen (trigger_node t call (tHost node) e) (trigger_nodes t call nodes)"

definition trigger_all ::
  "'w triggerService \<Rightarrow> KeygroupName \<Rightarrow> (string \<Rightarrow> ('w, (EnumTriggerStatus \<times> string) option) op)
     \<Rightarrow> ('w, unit) op" where
  "trigger_all t kg call =
     andthen (ss_getKeygroupTrigger (t_s t) kg)
       (\<lambda>nodes. andthen (trigger_nodes t call nodes None)
          (\<lambda>e. case e of None \<Rightarrow> ret () | Some err \<Rightarrow> fail err))"

definition triggerDelete :: "'w triggerService \<Rightarrow> Item \<Rightarrow> ('w, unit) op" where
  "triggerDelete t i =
     trigger_all t (iKeygroup i)
       (\<lambda>host. tr_DeleteItemTrigger (t_tc t) host (iKeygroup i) (iID i))"

definition triggerUpdate :: "'w triggerService \<Rightarrow> Item \<Rightarrow> ('w, unit) op" where
  "triggerUpdate t i =
     trigger_all t (iKeygroup i)
       (\<lambda>host. tr_PutItemTrigger (t_tc t) host (iKeygroup i) (iID i) (iVal i))"

definition addTrigger :: "'w triggerService \<Rightarrow> Keygroup \<Rightarrow> Trigger \<Rightarrow> ('w, unit) op" where
  "addTrigger t k tn = ss_addKeygroupTrigger (t_s t) (Name k) tn"

definition getTrigger :: "'w triggerService \<Rightarrow> Keygroup \<Rightarrow> ('w, Trigger list) op" where
  "getTrigger t k = ss_getKeygroupTrigger (t_s t) (Name k)"

definition removeTrigger :: "'w triggerService \<Rightarrow> Keygroup \<Rightarrow> Trigger \<Rightarrow> ('w, unit) op" where
  "removeTrigger t k tn = ss_deleteKeygroupTrigger (t_s t) (Name k) tn"

section \<open>Every trigger node is told\<close>

text \<open>
  \<open>I done\<close> says that exactly the hosts in \<open>done\<close> were called, in this order. If every call
  extends it, whether it succeeds or fails, the loop reaches all trigger nodes of the keygroup,
  whatever single nodes answer.
\<close>

definition trigger_calls ::
  "(string list \<Rightarrow> 'w \<Rightarrow> bool) \<Rightarrow> 'w TriggerNode
     \<Rightarrow> (string \<Rightarrow> ('w, (EnumTriggerStatus \<times> string) option) op) \<Rightarrow> bool" where
  "trigger_calls I tn call \<longleftrightarrow>
     (\<forall>done host. triple (I done) (tr_Dial tn host) (\<lambda>_. I done) (\<lambda>_ _. False)) \<and>
     (\<forall>done host. triple (I done) (call host) (\<lambda>_. I (done @ [host])) (\<lambda>_. I (done @ [host]))) \<and>
     (\<forall>done host. triple (I done) (tr_Close tn host) (\<lambda>_. I done) (\<lambda>_. I done))"

lemma trigger_node_at:
  assumes "trigger_calls I tn call"
  shows "triple (I done) (trigger_node \<lparr>t_tc = tn, t_s = s\<rparr> call host e)
    (\<lambda>_. I (done @ [host])) (\<lambda>_ _. False)"
proof -
  have calls: "triple (I done) (tr_Dial tn host) (\<lambda>_. I done) (\<lambda>_ _. False)"
    "triple (I done) (call host) (\<lambda>_. I (done @ [host])) (\<lambda>_. I (done @ [host]))"
    "triple (I done) (tr_Close tn host) (\<lambda>_. I done) (\<lambda>_. I done)" for "done" host
    using assms by (simp_all add: trigger_calls_def)
  have close: "wp (attempt (tr_Close tn host) (\<lambda>e'. ret (f e')) (\<lambda>_. ret g))
      (\<lambda>_. I (done @ [host])) (\<lambda>_ _. False) w" if "I (done @ [host]) w" for w g and f :: "error \<Rightarrow> error option"
    unfolding wp_attempt wp_ret by (rule wp_call [OF calls(3) that]) simp_all
  have deal: "wp (dealWithStatusResponse (call host)) (\<lambda>_. I (done @ [host])) (\<lambda>_ _. False) w"
    if "I done w" for w
    unfolding dealWithStatusResponse_def wp_attempt
    by (rule wp_call [OF calls(2) that])
       (auto simp: wp_ret split: option.splits EnumTriggerStatus.splits)
  show ?thesis
    unfolding trigger_node_def getConnAndClient_def triggerService.simps
    by (rule tripleI, unfold wp_andthen wp_attempt [of "tr_Dial _ _"], rule wp_call [OF calls(1)])
       (auto simp: wp_ret wp_panic intro!: wp_mono [OF deal] close)
qed

lemma trigger_nodes_at:
  assumes "trigger_calls I tn call"
  shows "triple (I done) (trigger_nodes \<lparr>t_tc = tn, t_s = s\<rparr> call nodes e)
    (\<lambda>_. I (done @ map tHost nodes)) (\<lambda>_ _. False)"
proof (induction nodes arbitrary: "done" e)
  case (Cons node nodes)
  have "wp (trigger_nodes \<lparr>t_tc = tn, t_s = s\<rparr> call nodes e') (\<lambda>_. I (done @ map tHost (node # nodes)))
      (\<lambda>_ _. False) w" if "I (done @ [tHost node]) w" for e' w
    by (rule wp_call [OF Cons.IH that]) simp_all
  then show ?case
    unfolding trigger_nodes.simps by (intro triple_seq [OF trigger_node_at [OF assms]]) auto
qed (simp add: triple_def wp_ret)

text \<open>A trigger round only reports errors of its own making, and they carry a stack trace.\<close>

lemma add_error_wrapped:
  "(\<forall>x. e = Some x \<longrightarrow> is_wrapped x) \<Longrightarrow> add_error e err = Some y \<Longrightarrow> is_wrapped y"
  by (auto simp: add_error_def split: option.splits)

lemma trigger_node_wrapped:
  assumes "\<forall>x. e = Some x \<longrightarrow> is_wrapped x"
  shows "trigger_node t call host e w = (Ok e', w') \<Longrightarrow> e' = Some x \<Longrightarrow> is_wrapped x"
  using assms unfolding trigger_node_def
  by (elim andthen_OkE attempt_OkE) (auto simp: ret_run dest!: add_error_wrapped [rotated])

lemma trigger_nodes_wrapped:
  assumes "\<forall>x. e = Some x \<longrightarrow> is_wrapped x"
  shows "trigger_nodes t call nodes e w = (Ok e', w') \<Longrightarrow> e' = Some x \<Longrightarrow> is_wrapped x"
  using assms
proof (induction nodes arbitrary: e w)
  case (Cons node nodes)
  then show ?case by (auto elim!: andthen_OkE dest: trigger_node_wrapped)
qed (simp add: ret_run)

end
