(* ===== verification/World_Parts.thy ===== *)
theory World_Parts
  imports Store_Contract
begin

text \<open>
  Operations on one part of the world, seen as operations on the whole: a part is given by how to
  read it (\<open>g\<close>) and how to write it (\<open>p\<close>). A store on a part keeps its contract, together with any
  property \<open>F\<close> of the rest.
\<close>

definition lift_op :: "('w \<Rightarrow> 's) \<Rightarrow> ('s \<Rightarrow> 'w \<Rightarrow> 'w) \<Rightarrow> ('s, 'a) op \<Rightarrow> ('w, 'a) op" where
  "lift_op g p m w = (case m (g w) of (r, s) \<Rightarrow> (r, p s w))"

lemma wp_lift:
  assumes "\<And>s w. g (p s w) = s" "\<And>s w. F (p s w) = F w"
    and "wp m Q E (g w)" "F w"
  shows "wp (lift_op g p m) (\<lambda>x w. Q x (g w) \<and> F w) (\<lambda>e w. E e (g w) \<and> F w) w"
  using assms by (auto simp: wp_def lift_op_def split: prod.splits result.splits)

lemma triple_lift:
  assumes "\<And>s w. g (p s w) = s" "\<And>s w. F (p s w) = F w" "triple P m Q E"
  shows "triple (\<lambda>w. P (g w) \<and> F w) (lift_op g p m) (\<lambda>x w. Q x (g w) \<and> F w) (\<lambda>e w. E e (g w) \<and> F w)"
proof (rule tripleI, elim conjE)
  fix w assume "P (g w)" and F: "F w"
  then have "wp m Q E (g w)" using assms(3) by (simp add: triple_def)
  from wp_lift [OF assms(1,2) this F]
  show "wp (lift_op g p m) (\<lambda>x w. Q x (g w) \<and> F w) (\<lambda>e w. E e (g w) \<and> F w) w" .
qed

definition lift_Store :: "('w \<Rightarrow> 's) \<Rightarrow> ('s \<Rightarrow> 'w \<Rightarrow> 'w) \<Rightarrow> 's Store \<Rightarrow> 'w Store" where
  "lift_Store g p S =
     \<lparr>st_Update = (\<lambda>kg i v app x. lift_op g p (st_Update S kg i v app x)),
      st_Delete = (\<lambda>kg i. lift_op g p (st_Delete S kg i)),
      st_Append = (\<lambda>kg v x. lift_op g p (st_Append S kg v x)),
      st_Read = (\<lambda>kg i. lift_op g p (st_Read S kg i)),
      st_ReadSome = (\<lambda>kg i n. lift_op g p (st_ReadSome S kg i n)),
      st_ReadAll = (\<lambda>kg. lift_op g p (st_ReadAll S kg)),
      st_IDs = (\<lambda>kg. lift_op g p (st_IDs S kg)),
      st_Exists = (\<lambda>kg i. lift_op g p (st_Exists S kg i)),
      st_CreateKeygroup = (\<lambda>kg. lift_op g p (st_CreateKeygroup S kg)),
      st_DeleteKeygroup = (\<lambda>kg. lift_op g p (st_DeleteKeygroup S kg)),
      st_ExistsKeygroup = (\<lambda>kg. lift_op g p (st_ExistsKeygroup S kg)),
      st_AddKeygroupTrigger = (\<lambda>kg t h. lift_op g p (st_AddKeygroupTrigger S kg t h)),
      st_DeleteKeygroupTrigger = (\<lambda>kg t. lift_op g p (st_DeleteKeygroupTrigger S kg t)),
      st_GetKeygroupTrigger = (\<lambda>kg. lift_op g p (st_GetKeygroupTrigger S kg)),
      st_Close = lift_op g p (st_Close S)\<rparr>"

lemma sat_lift: "sat (\<lambda>w. I (g w) \<and> F w) (\<lambda>w. view (g w)) V w \<longleftrightarrow> sat I view V (g w) \<and> F w"
  by (auto simp: sat_def)

lemma lift_store_spec:
  assumes S: "store_spec S I view h" and lens: "\<And>s w. g (p s w) = s" "\<And>s w. F (p s w) = F w"
  shows "store_spec (lift_Store g p S) (\<lambda>w. I (g w) \<and> F w) (\<lambda>w. view (g w)) h"
proof -
  have lift: "triple (sat (\<lambda>w. I (g w) \<and> F w) (\<lambda>w. view (g w)) V) (lift_op g p m) Q' E'"
    if "triple (sat I view V) m Q E" "\<And>x w. Q x (g w) \<Longrightarrow> F w \<Longrightarrow> Q' x w" "\<And>e w. E e (g w) \<Longrightarrow> F w \<Longrightarrow> E' e w"
    for V m Q E Q' E'
    by (rule triple_conseq [OF triple_lift [where F = F, OF lens that(1)]]) (use that(2,3) in \<open>auto simp: sat_lift\<close>)
  show ?thesis
    by (unfold_locales, unfold lift_Store_def Store.simps)
       (auto simp: sat_lift dest: store_spec.kgs_valid [OF S] store_spec.items_valid [OF S]
         intro: lift [OF store_spec.update_spec [OF S]] lift [OF store_spec.delete_spec [OF S]]
           lift [OF store_spec.append_spec [OF S]] lift [OF store_spec.read_spec [OF S]]
           lift [OF store_spec.readSome_spec [OF S]] lift [OF store_spec.readAll_spec [OF S]]
           lift [OF store_spec.ids_spec [OF S]] lift [OF store_spec.exists_spec [OF S]]
           lift [OF store_spec.create_spec [OF S]] lift [OF store_spec.deleteKg_spec [OF S]]
           lift [OF store_spec.existsKg_spec [OF S]] lift [OF store_spec.addTrig_spec [OF S]]
           lift [OF store_spec.delTrig_spec [OF S]] lift [OF store_spec.getTrig_spec [OF S]])
qed

lemma lift_log_store:
  assumes S: "log_store S I view h logged" and lens: "\<And>s w. g (p s w) = s" "\<And>s w. F (p s w) = F w"
  shows "log_store (lift_Store g p S) (\<lambda>w. I (g w) \<and> F w) (\<lambda>w. view (g w)) h (\<lambda>kg w. logged kg (g w))"
proof (rule log_store.intro)
  show "store_spec (lift_Store g p S) (\<lambda>w. I (g w) \<and> F w) (\<lambda>w. view (g w)) h"
    by (rule lift_store_spec [where F = F and g = g and p = p, OF log_store.axioms(1) [OF S] lens])
  have run: "\<exists>s. m (g w) = (r, s) \<and> g w' = s" if "lift_op g p m w = (r, w')" for m :: "('a, 'c) op" and w r w'
  proof -
    from that have "m (g w) = (r, snd (m (g w)))" "w' = p (snd (m (g w))) w"
      by (simp_all add: lift_op_def case_prod_beta prod_eq_iff)
    then show ?thesis using lens(1) by metis
  qed
  show "log_store_axioms (lift_Store g p S) (\<lambda>w. I (g w) \<and> F w) (\<lambda>w. view (g w)) (\<lambda>kg w. logged kg (g w))"
  proof (unfold_locales, unfold lift_Store_def Store.simps, goal_cases)
    case (1 kg x w v i w')
    with run [OF 1(5)] log_store.append_fresh [OF S 1(1,2)] show ?case by blast
  next
    case (2 w kg kg' b w')
    with run [OF 2(3)] log_store.existsKg_logged [OF S] show ?case by blast
  qed
qed

end
