(* ===== verification/Trigger_Node.thy ===== *)
theory Trigger_Node
  imports Trigger_Service World_Parts Badger_Properties
begin

text \<open>
  cmd/simpletrigger/main.go: a trigger node that keeps a log of what it is told. Together with the
  trigger service of pkg/fred: after an update every trigger node of the keygroup has exactly
  one new entry per trigger that points to it, and no other node has one. \<open>log_json\<close> is what the HTTP page
  of the node shows; the server of that page is in \<open>Tls_Setup\<close>.
\<close>

section \<open>The trigger node\<close>

record LogEntry =
  l_Op :: string
  l_Kg :: string
  l_ID :: string
  l_Val :: string

record TriggerServer =
  tlog :: "LogEntry list"

definition PutItemTrigger ::
  "string \<Rightarrow> string \<Rightarrow> string \<Rightarrow> (TriggerServer, (EnumTriggerStatus \<times> string) option) op" where
  "PutItemTrigger kg i v =
     andthen (modify (\<lambda>s. s\<lparr>tlog := tlog s @ [\<lparr>l_Op = ''put'', l_Kg = kg, l_ID = i, l_Val = v\<rparr>]\<rparr>))
       (\<lambda>_. ret (Some (TRIGGER_OK, [])))"

definition DeleteItemTrigger ::
  "string \<Rightarrow> string \<Rightarrow> (TriggerServer, (EnumTriggerStatus \<times> string) option) op" where
  "DeleteItemTrigger kg i =
     andthen (modify (\<lambda>s. s\<lparr>tlog := tlog s @ [\<lparr>l_Op = ''del'', l_Kg = kg, l_ID = i, l_Val = []\<rparr>]\<rparr>))
       (\<lambda>_. ret (Some (TRIGGER_OK, [])))"

text \<open>
  The page with the log: the entries as JSON, in the order in which they came, with the names of the
  struct tags. \<open>quote\<close> is how \<^verbatim>\<open>encoding/json\<close> writes a string.
\<close>

definition entry_json :: "(string \<Rightarrow> string) \<Rightarrow> LogEntry \<Rightarrow> string" where
  "entry_json quote e =
     (let field = (\<lambda>n v. quote n @ '':'' @ quote v) in
      ''{'' @ field ''op'' (l_Op e) @ '','' @ field ''kg'' (l_Kg e) @ '','' @ field ''id'' (l_ID e) @ '','' @
      field ''val'' (l_Val e) @ ''}'')"

fun entries_json :: "(string \<Rightarrow> string) \<Rightarrow> LogEntry list \<Rightarrow> string" where
  "entries_json quote [] = []"
| "entries_json quote [e] = entry_json quote e"
| "entries_json quote (e # es) = entry_json quote e @ '','' @ entries_json quote es"

definition log_json :: "(string \<Rightarrow> string) \<Rightarrow> TriggerServer \<Rightarrow> string" where
  "log_json quote s = ''['' @ entries_json quote (tlog s) @ '']''"

section \<open>The network of trigger nodes\<close>

text \<open>
  \<open>servers\<close> are the trigger nodes in the world, by host, \<open>up\<close> those that answer: a call to one of them
  runs its method. A call to another host fails; it may have run the method before the answer was
  lost. \<^verbatim>\<open>grpc.Dial\<close> does not wait for the connection, so that it creates one also to a host that is
  down, and \<^verbatim>\<open>Close\<close> only fails on a connection that was closed before.
\<close>

locale trigger_net =
  fixes tn :: "'w TriggerNode"
    and inv :: "'w \<Rightarrow> bool"
    and view :: "'w \<Rightarrow> sview"
    and servers :: "'w \<Rightarrow> string \<Rightarrow> TriggerServer"
    and up :: "string \<Rightarrow> bool"
  assumes dial: "triple (\<lambda>w. sat inv view V w \<and> servers w = Z) (tr_Dial tn host)
      (\<lambda>_ w. sat inv view V w \<and> servers w = Z) (\<lambda>_ _. False)"
    and hang_up: "triple (\<lambda>w. sat inv view V w \<and> servers w = Z) (tr_Close tn host)
      (\<lambda>_ w. sat inv view V w \<and> servers w = Z) (\<lambda>_ _. False)"
    and call_put: "triple (\<lambda>w. sat inv view V w \<and> servers w = Z) (tr_PutItemTrigger tn host kg i v)
      (\<lambda>r w. up host \<and> sat inv view V w \<and> (Ok r, servers w host) = PutItemTrigger kg i v (Z host) \<and>
         servers w = Z(host := servers w host))
      (\<lambda>_ w. \<not> up host \<and> sat inv view V w \<and>
         (servers w = Z \<or> servers w = Z(host := snd (PutItemTrigger kg i v (Z host)))))"
    and call_delete: "triple (\<lambda>w. sat inv view V w \<and> servers w = Z) (tr_DeleteItemTrigger tn host kg i)
      (\<lambda>r w. up host \<and> sat inv view V w \<and> (Ok r, servers w host) = DeleteItemTrigger kg i (Z host) \<and>
         servers w = Z(host := servers w host))
      (\<lambda>_ w. \<not> up host \<and> sat inv view V w \<and>
         (servers w = Z \<or> servers w = Z(host := snd (DeleteItemTrigger kg i (Z host)))))"
begin

text \<open>The nodes after calls to \<open>hosts\<close> told them \<open>e\<close>: an entry for every call that was answered, and at
  most one for every other.\<close>

definition told :: "LogEntry \<Rightarrow> (string \<Rightarrow> TriggerServer) \<Rightarrow> string list \<Rightarrow> (string \<Rightarrow> TriggerServer) \<Rightarrow> bool" where
  "told e Z hosts Z' \<longleftrightarrow> (\<exists>n. (\<forall>h. Z' h = (Z h)\<lparr>tlog := tlog (Z h) @ replicate (n h) e\<rparr>) \<and>
     (\<forall>h. n h \<le> count_list hosts h \<and> (up h \<longrightarrow> n h = count_list hosts h)))"

lemma told_Nil: "told e Z [] Z"
  by (auto simp: told_def intro!: exI [of _ "\<lambda>_. 0"])

lemma told_snoc: "told e Z hosts Z' \<Longrightarrow> told e Z (hosts @ [h]) (Z'(h := (Z' h)\<lparr>tlog := tlog (Z' h) @ [e]\<rparr>))"
  unfolding told_def
proof (elim exE conjE)
  fix n
  assume n: "\<forall>h. Z' h = (Z h)\<lparr>tlog := tlog (Z h) @ replicate (n h) e\<rparr>"
    "\<forall>h. n h \<le> count_list hosts h \<and> (up h \<longrightarrow> n h = count_list hosts h)"
  show "\<exists>n. (\<forall>h'. (Z'(h := (Z' h)\<lparr>tlog := tlog (Z' h) @ [e]\<rparr>)) h' = (Z h')\<lparr>tlog := tlog (Z h') @ replicate (n h') e\<rparr>) \<and>
     (\<forall>h'. n h' \<le> count_list (hosts @ [h]) h' \<and> (up h' \<longrightarrow> n h' = count_list (hosts @ [h]) h'))"
    using n by (intro exI [of _ "n(h := Suc (n h))"])
      (auto simp: replicate_append_same count_list_append)
qed

lemma told_lost: "told e Z hosts Z' \<Longrightarrow> \<not> up h \<Longrightarrow> told e Z (hosts @ [h]) Z'"
  unfolding told_def by (elim exE conjE, rule exI, intro conjI, assumption) (auto simp: count_list_append le_SucI)

abbreviation after :: "sview \<Rightarrow> LogEntry \<Rightarrow> (string \<Rightarrow> TriggerServer) \<Rightarrow> string list \<Rightarrow> 'w \<Rightarrow> bool" where
  "after V e Z hosts w \<equiv> sat inv view V w \<and> told e Z hosts (servers w)"

text \<open>The answer of a call and what it leaves.\<close>

lemma put_call:
  "triple (after V \<lparr>l_Op = ''put'', l_Kg = kg, l_ID = i, l_Val = v\<rparr> Z hosts) (tr_PutItemTrigger tn h kg i v)
    (\<lambda>r w. r = Some (TRIGGER_OK, []) \<and> up h \<and>
       after V \<lparr>l_Op = ''put'', l_Kg = kg, l_ID = i, l_Val = v\<rparr> Z (hosts @ [h]) w)
    (\<lambda>_ w. \<not> up h \<and> after V \<lparr>l_Op = ''put'', l_Kg = kg, l_ID = i, l_Val = v\<rparr> Z (hosts @ [h]) w)"
  by (rule tripleI, elim conjE, rule wp_call [OF call_put], rule conjI, assumption, rule refl)
     (auto simp: PutItemTrigger_def op_runs intro: told_snoc told_lost, (metis fun_upd_def told_snoc)?)

lemma delete_call:
  "triple (after V \<lparr>l_Op = ''del'', l_Kg = kg, l_ID = i, l_Val = []\<rparr> Z hosts) (tr_DeleteItemTrigger tn h kg i)
    (\<lambda>r w. r = Some (TRIGGER_OK, []) \<and> up h \<and>
       after V \<lparr>l_Op = ''del'', l_Kg = kg, l_ID = i, l_Val = []\<rparr> Z (hosts @ [h]) w)
    (\<lambda>_ w. \<not> up h \<and> after V \<lparr>l_Op = ''del'', l_Kg = kg, l_ID = i, l_Val = []\<rparr> Z (hosts @ [h]) w)"
  by (rule tripleI, elim conjE, rule wp_call [OF call_delete], rule conjI, assumption, rule refl)
     (auto simp: DeleteItemTrigger_def op_runs intro: told_snoc told_lost, (metis fun_upd_def told_snoc)?)

lemma keep_after:
  "triple (after V e Z hosts) (tr_Dial tn h) (\<lambda>_. after V e Z hosts) (\<lambda>_ _. False)"
  "triple (after V e Z hosts) (tr_Close tn h) (\<lambda>_. after V e Z hosts) (\<lambda>_ _. False)"
  by (rule tripleI, elim conjE, rule wp_call [OF dial] wp_call [OF hang_up],
      rule conjI, assumption, rule refl, simp_all)+

text \<open>The loop: it goes on after an error, and its own error says whether there was one.\<close>

lemma trigger_node_told:
  assumes "\<And>hosts h. triple (after V x Z hosts) (call h)
    (\<lambda>r w. r = Some (TRIGGER_OK, []) \<and> up h \<and> after V x Z (hosts @ [h]) w)
    (\<lambda>_ w. \<not> up h \<and> after V x Z (hosts @ [h]) w)"
  shows "triple (after V x Z hosts) (trigger_node \<lparr>t_tc = tn, t_s = s\<rparr> call h e)
    (\<lambda>e' w. after V x Z (hosts @ [h]) w \<and> (e' = None \<longleftrightarrow> e = None \<and> up h)) (\<lambda>_ _. False)"
proof -
  have deal: "wp (dealWithStatusResponse (call h))
      (\<lambda>err w. after V x Z (hosts @ [h]) w \<and> (err = None \<longleftrightarrow> up h)) (\<lambda>_ _. False) w"
    if "after V x Z hosts w" for w
    unfolding dealWithStatusResponse_def wp_attempt
    by (rule wp_call [OF assms that]) (auto simp: wp_ret)
  have close: "wp (attempt (tr_Close tn h) (\<lambda>e'. ret (f e')) (\<lambda>_. ret (add_error e err)))
      (\<lambda>e' w. after V x Z (hosts @ [h]) w \<and> (e' = None \<longleftrightarrow> e = None \<and> up h)) (\<lambda>_ _. False) w"
    if "after V x Z (hosts @ [h]) w \<and> (err = None \<longleftrightarrow> up h)" for w err and f :: "error \<Rightarrow> error option"
    unfolding wp_attempt wp_ret
    by (rule wp_call [OF keep_after(2) conjunct1 [OF that]]) (use that in \<open>auto simp: add_error_def\<close>)
  show ?thesis
    unfolding trigger_node_def getConnAndClient_def triggerService.simps
    by (rule tripleI, unfold wp_andthen wp_attempt [of "tr_Dial _ _"], rule wp_call [OF keep_after(1)], assumption)
       (simp_all only: wp_ret, rule wp_mono [OF deal], assumption, erule close, simp)
qed

lemma trigger_nodes_told:
  assumes "\<And>hosts h. triple (after V x Z hosts) (call h)
    (\<lambda>r w. r = Some (TRIGGER_OK, []) \<and> up h \<and> after V x Z (hosts @ [h]) w)
    (\<lambda>_ w. \<not> up h \<and> after V x Z (hosts @ [h]) w)"
  shows "triple (after V x Z hosts) (trigger_nodes \<lparr>t_tc = tn, t_s = s\<rparr> call ts e)
    (\<lambda>e' w. after V x Z (hosts @ map tHost ts) w \<and> (e' = None \<longleftrightarrow> e = None \<and> (\<forall>t \<in> set ts. up (tHost t))))
    (\<lambda>_ _. False)"
proof (induction ts arbitrary: hosts e)
  case (Cons t ts)
  show ?case
    unfolding trigger_nodes.simps
    by (rule triple_seq [OF trigger_node_told [OF assms]], rule wp_call [OF Cons.IH]) auto
qed (simp add: triple_def wp_ret)

end

lemma count_hosts:
  assumes "distinct (map tID ts)" "set ts = {\<lparr>tID = t, tHost = h\<rparr> | t h. f t = Some h}"
  shows "count_list (map tHost ts) h = card {t. f t = Some h}"
proof -
  have "count_list (map tHost ts) h = length (filter (\<lambda>t. tHost t = h) ts)"
    by (induction ts) auto
  also have "\<dots> = card (set (map tID (filter (\<lambda>t. tHost t = h) ts)))"
    using distinct_card [of "map tID (filter (\<lambda>t. tHost t = h) ts)"] assms(1) by (simp add: distinct_map_filter)
  also have "set (map tID (filter (\<lambda>t. tHost t = h) ts)) = {t. f t = Some h}"
    using assms(2) by (force simp: image_iff)
  finally show ?thesis .
qed

lemma trigger_all_told:
  assumes S: "\<And>Z. store_spec S (\<lambda>w. I w \<and> servers w = Z) view True"
    and net: "trigger_net tn I view servers up"
    and calls: "\<And>hosts h. triple (\<lambda>w. sat I view V w \<and> trigger_net.told up x Z hosts (servers w)) (call h)
      (\<lambda>r w. r = Some (TRIGGER_OK, []) \<and> up h \<and> sat I view V w \<and> trigger_net.told up x Z (hosts @ [h]) (servers w))
      (\<lambda>_ w. \<not> up h \<and> sat I view V w \<and> trigger_net.told up x Z (hosts @ [h]) (servers w))"
    and kg: "reg_MatchString kg" "kg \<in> sv_kgs V"
  defines "post \<equiv> \<lambda>w. sat I view V w \<and> (\<exists>n. (\<forall>h. servers w h = (Z h)\<lparr>tlog := tlog (Z h) @ replicate (n h) x\<rparr>) \<and>
     (\<forall>h. n h \<le> card {t. sv_trigs V kg t = Some h} \<and> (up h \<longrightarrow> n h = card {t. sv_trigs V kg t = Some h})))"
    and "fine \<equiv> \<forall>t h. sv_trigs V kg t = Some h \<longrightarrow> up h"
  shows "triple (\<lambda>w. sat I view V w \<and> servers w = Z) (trigger_all \<lparr>t_tc = tn, t_s = \<lparr>iS = S\<rparr>\<rparr> kg call)
    (\<lambda>_ w. post w \<and> fine) (\<lambda>e w. is_wrapped e \<and> post w \<and> \<not> fine)"
proof -
  note nodes = trigger_net.trigger_nodes_told [OF net calls, where hosts = "[]" and e = None and s = "\<lparr>iS = S\<rparr>",
      unfolded append_Nil]
  have get: "triple (\<lambda>w. sat I view V w \<and> servers w = Z) (ss_getKeygroupTrigger \<lparr>iS = S\<rparr> kg)
    (\<lambda>ts w. (sat I view V w \<and> trigger_net.told up x Z [] (servers w)) \<and>
       (\<forall>h. count_list (map tHost ts) h = card {t. sv_trigs V kg t = Some h}) \<and>
       (fine \<longleftrightarrow> (\<forall>t \<in> set ts. up (tHost t)))) (\<lambda>_ _. False)"
  proof (rule triple_conseq [OF store_spec.getKeygroupTrigger_at [OF S, of Z V kg]], goal_cases)
    case (2 ts w)
    then have ts: "set ts = {\<lparr>tID = t, tHost = h\<rparr> | t h. sv_trigs V kg t = Some h}" and d: "distinct (map tID ts)" by auto
    have "fine \<longleftrightarrow> (\<forall>t \<in> set ts. up (tHost t))" unfolding ts fine_def by fastforce
    with 2 count_hosts [OF d ts] show ?case by (auto simp: sat_def trigger_net.told_Nil [OF net])
  qed (use kg in \<open>auto simp: sat_def\<close>)
  have loop: "wp (andthen (trigger_nodes \<lparr>t_tc = tn, t_s = \<lparr>iS = S\<rparr>\<rparr> call ts None)
      (\<lambda>e. case e of None \<Rightarrow> ret () | Some err \<Rightarrow> fail err)) (\<lambda>_ w. post w \<and> fine)
      (\<lambda>e w. is_wrapped e \<and> post w \<and> \<not> fine) w"
    if w: "sat I view V w \<and> trigger_net.told up x Z [] (servers w)"
      and ts: "\<forall>h. count_list (map tHost ts) h = card {t. sv_trigs V kg t = Some h}"
      "fine \<longleftrightarrow> (\<forall>t \<in> set ts. up (tHost t))" for ts w
    unfolding wp_andthen
  proof (rule wp_call [OF triple_and_run [OF nodes] w])
    show "trigger_nodes \<lparr>t_tc = tn, t_s = \<lparr>iS = S\<rparr>\<rparr> call ts None w1 = (Ok e', w2) \<Longrightarrow>
       \<forall>y. e' = Some y \<longrightarrow> is_wrapped y" for e' w1 w2
      by (auto dest: trigger_nodes_wrapped [rotated])
  qed (use ts in \<open>auto simp: wp_ret wp_fail post_def trigger_net.told_def [OF net] split: option.split\<close>)
  show ?thesis
    unfolding trigger_all_def triggerService.simps
    by (rule triple_seq [OF get]) (rule loop, auto)
qed

section \<open>Reference nodes\<close>

type_synonym tworld = "mem \<times> (string \<Rightarrow> TriggerServer)"

definition tstore :: "tworld Store" where
  "tstore = lift_Store fst (\<lambda>d w. (d, snd w)) (badgerdb_Store memB)"

definition at_node :: "string \<Rightarrow> (TriggerServer, 'a) op \<Rightarrow> (tworld, 'a) op" where
  "at_node h = lift_op (\<lambda>w. snd w h) (\<lambda>s w. (fst w, (snd w)(h := s)))"

definition tup :: "string \<Rightarrow> bool" where
  "tup h \<longleftrightarrow> h \<noteq> ''down''"

definition tnodes :: "tworld TriggerNode" where
  "tnodes = \<lparr>tr_Dial = (\<lambda>h. ret ()),
     tr_PutItemTrigger = (\<lambda>h kg i v. if tup h then at_node h (PutItemTrigger kg i v) else fail (Raw ''unavailable'')),
     tr_DeleteItemTrigger = (\<lambda>h kg i. if tup h then at_node h (DeleteItemTrigger kg i) else fail (Raw ''unavailable'')),
     tr_Close = (\<lambda>h. ret ())\<rparr>"

lemma tstore_spec:
  "store_spec tstore (\<lambda>w. binv mem_view (fst w) \<and> snd w = Z) (\<lambda>w. bstore_view mem_view (fst w)) True"
  unfolding tstore_def by (rule lift_store_spec [OF mem.badger_refines]) simp_all

interpretation tnet: trigger_net tnodes "\<lambda>w. binv mem_view (fst w)" "\<lambda>w. bstore_view mem_view (fst w)" snd tup
  by unfold_locales
     (auto simp: tnodes_def triple_def wp_ret wp_fail wp_def at_node_def lift_op_def PutItemTrigger_def
       DeleteItemTrigger_def op_runs sat_def fun_eq_iff)

section \<open>Property\<close>

text \<open>C40: every trigger is told, once, whatever happens to the others. An update of an item makes the
  trigger service write into the log of each trigger node that answers exactly one entry for this item
  per trigger of the keygroup that points to that node, and none into a log no trigger points to; a
  node that does not answer has at most that many. The result is an error exactly when a node of a
  trigger does not answer; the store is as before.\<close>

theorem triggers_told:
  assumes S: "\<And>Z. store_spec S (\<lambda>w. I w \<and> servers w = Z) view True"
    and net: "trigger_net tn I view servers up" and w: "I w"
    and kg: "reg_MatchString (iKeygroup it)" "iKeygroup it \<in> sv_kgs (view w)"
    and run: "triggerUpdate \<lparr>t_tc = tn, t_s = \<lparr>iS = S\<rparr>\<rparr> it w = (r, w')"
  defines "pointing \<equiv> \<lambda>h. card {t. sv_trigs (view w) (iKeygroup it) t = Some h}"
  shows "I w' \<and> view w' = view w \<and>
    (\<exists>n. (\<forall>h. servers w' h = (servers w h)\<lparr>tlog := tlog (servers w h) @
         replicate (n h) \<lparr>l_Op = ''put'', l_Kg = iKeygroup it, l_ID = iID it, l_Val = iVal it\<rparr>\<rparr>) \<and>
       (\<forall>h. n h \<le> pointing h \<and> (up h \<longrightarrow> n h = pointing h))) \<and>
    (if \<forall>t h. sv_trigs (view w) (iKeygroup it) t = Some h \<longrightarrow> up h then r = Ok ()
     else \<exists>msg. r = Err (Wrapped msg))"
proof -
  have at: "sat I view (view w) w \<and> servers w = servers w" using w by (simp add: sat_view)
  note post = triple_run [OF trigger_all_told [OF S net trigger_net.put_call [OF net] kg] at
      run [unfolded triggerUpdate_def triggerService.simps]]
  show ?thesis
  proof (cases r)
    case (Ok u)
    with post(2) [OF Ok] show ?thesis by (auto simp: sat_def pointing_def)
  next
    case (Err e)
    with post(3) [OF Err] show ?thesis by (cases e) (auto simp: sat_def pointing_def)
  qed (use post(1) in simp)
qed

lemma trigger_added:
  assumes "sat (binv mem_view) (bstore_view mem_view) V d" "reg_MatchString kg" "valid_tid t"
    and "fst (bAddKeygroupTrigger memB kg t h d) = Ok ()"
  shows "sat (binv mem_view) (bstore_view mem_view) (add_trig kg t h V) (snd (bAddKeygroupTrigger memB kg t h d))"
  using triple_run(2) [OF mem.store.addTrig_spec [OF assms(2), where t = t and h = h] assms(1) surjective_pairing] assms(3,4)
  by (simp add: badgerdb_Store_def)

theorem triggers_told_witness:
  "let kg = ''kg''; d0 = snd (bAddKeygroupTrigger memB kg ''x'' ''down'' (snd (bCreateKeygroup memB kg mem_new)));
       d = snd (bAddKeygroupTrigger memB kg ''t'' ''host'' d0); it = \<lparr>iKeygroup = kg, iID = ''a'', iVal = ''v''\<rparr>;
       out = triggerUpdate \<lparr>t_tc = tnodes, t_s = \<lparr>iS = tstore\<rparr>\<rparr> it (d, \<lambda>_. \<lparr>tlog = []\<rparr>)
   in (\<exists>msg. fst out = Err (Wrapped msg)) \<and>
      tlog (snd (snd out) ''host'') = [\<lparr>l_Op = ''put'', l_Kg = kg, l_ID = ''a'', l_Val = ''v''\<rparr>]"
proof -
  let ?dk = "snd (bCreateKeygroup memB ''kg'' mem_new)"
  let ?dx = "snd (bAddKeygroupTrigger memB ''kg'' ''x'' ''down'' ?dk)"
  let ?d = "snd (bAddKeygroupTrigger memB ''kg'' ''t'' ''host'' ?dx)"
  let ?it = "\<lparr>iKeygroup = ''kg'', iID = ''a'', iVal = ''v''\<rparr> :: Item"
  have v: "reg_MatchString ''kg''" "valid_tid ''t''" "valid_tid ''x''" by code_simp+
  have ok: "fst (bCreateKeygroup memB ''kg'' mem_new) = Ok ()"
    "fst (bAddKeygroupTrigger memB ''kg'' ''x'' ''down'' ?dk) = Ok ()"
    "fst (bAddKeygroupTrigger memB ''kg'' ''t'' ''host'' ?dx) = Ok ()" by code_simp+
  let ?Vx = "add_trig ''kg'' ''x'' ''down'' (add_kg ''kg'' (bstore_view mem_view mem_new))"
  let ?V = "add_trig ''kg'' ''t'' ''host'' ?Vx"
  have "sat (binv mem_view) (bstore_view mem_view) (bstore_view mem_view mem_new) mem_new"
    using mem_new_binv by (rule sat_view)
  from triple_run(2) [OF mem.store.create_spec [OF v(1)] this surjective_pairing] ok(1)
  have c: "sat (binv mem_view) (bstore_view mem_view) (add_kg ''kg'' (bstore_view mem_view mem_new)) ?dk"
    by (simp add: badgerdb_Store_def)
  note added = trigger_added [OF _ v(1)]
  from added [OF added [OF c v(3) ok(2)] v(2) ok(3)]
  have d: "binv mem_view ?d" "bstore_view mem_view ?d = ?V" by (simp_all add: sat_def)
  have none: "sv_trigs (bstore_view mem_view mem_new) ''kg'' = Map.empty"
    by (simp add: bstore_view_def blive_def live_def mem_new_def mem_view_def fun_eq_iff)
  have one: "{t. sv_trigs ?V ''kg'' t = Some ''host''} = {''t''}" by (auto simp: sview_simps none)
  have lost: "\<not> (\<forall>t h. sv_trigs ?V ''kg'' t = Some h \<longrightarrow> tup h)"
    by (simp add: sview_simps none tup_def)
  have up: "tup ''host''" by (simp add: tup_def)
  let ?w = "(?d, \<lambda>_ :: string. \<lparr>tlog = []\<rparr>)"
  have "iKeygroup ?it \<in> sv_kgs (bstore_view mem_view (fst ?w))" by (simp add: d sview_simps)
  note post = triggers_told [OF tstore_spec tnet.trigger_net_axioms, of ?w ?it, OF _ _ this surjective_pairing]
  from post v(1) d lost obtain n msg where
    "fst (triggerUpdate \<lparr>t_tc = tnodes, t_s = \<lparr>iS = tstore\<rparr>\<rparr> ?it ?w) = Err (Wrapped msg)"
    "tlog (snd (snd (triggerUpdate \<lparr>t_tc = tnodes, t_s = \<lparr>iS = tstore\<rparr>\<rparr> ?it ?w)) ''host'') =
       replicate (n ''host'') \<lparr>l_Op = ''put'', l_Kg = ''kg'', l_ID = ''a'', l_Val = ''v''\<rparr>"
    "n ''host'' = card {t. sv_trigs ?V ''kg'' t = Some ''host''}"
    using up by (auto simp del: One_nat_def split: if_splits)
  then show ?thesis by (simp add: one Let_def)
qed

end
