(* ===== verification/Nase_Contract.thy ===== *)
theory Nase_Contract
  imports Store_Contract
begin

text \<open>
  What the services of pkg/fred rely on from the \<^verbatim>\<open>fred.NameService\<close>: an abstract view of what it
  knows (keygroups, members and their expiry, the addresses of nodes for each other and for
  clients, permissions, missed updates)
  and the effect of every operation on it. Names must not contain the separator of the keys.
  A failed write may or may not have reached the naming service, so its error branch only
  promises a well-formed state; \<open>healthy\<close> excludes such failures.
\<close>

record nview =
  nv_kgs :: "string set"
  nv_mut :: "string set"
  nv_exp :: "string \<Rightarrow> string \<Rightarrow> int"
  nv_mem :: "string \<Rightarrow> string set"
  nv_addr :: "string \<rightharpoonup> string"
  nv_ext :: "string \<rightharpoonup> string"
  nv_perm :: "string \<Rightarrow> string \<Rightarrow> string set"
  nv_fail :: "string \<Rightarrow> (string \<times> string) set"

definition ok_name :: "string \<Rightarrow> bool" where
  "ok_name s \<longleftrightarrow> sep \<notin> set s"

lemma valid_ok_name [simp]: "reg_MatchString s \<Longrightarrow> ok_name s"
  by (simp add: ok_name_def valid_no_sep)

definition create_nv :: "string \<Rightarrow> string \<Rightarrow> bool \<Rightarrow> int \<Rightarrow> nview \<Rightarrow> nview" where
  "create_nv self kg mut x U = U\<lparr>nv_kgs := insert kg (nv_kgs U),
     nv_mut := (if mut then insert kg (nv_mut U) else nv_mut U - {kg}),
     nv_exp := (nv_exp U)(kg := (nv_exp U kg)(self := x)),
     nv_mem := (nv_mem U)(kg := {self})\<rparr>"

definition delete_nv :: "string \<Rightarrow> nview \<Rightarrow> nview" where
  "delete_nv kg U = U\<lparr>nv_kgs := nv_kgs U - {kg}\<rparr>"

definition join_nv :: "string \<Rightarrow> string \<Rightarrow> int \<Rightarrow> nview \<Rightarrow> nview" where
  "join_nv kg node x U = U\<lparr>nv_exp := (nv_exp U)(kg := (nv_exp U kg)(node := x)),
     nv_mem := (nv_mem U)(kg := insert node (nv_mem U kg))\<rparr>"

definition exit_nv :: "string \<Rightarrow> string \<Rightarrow> nview \<Rightarrow> nview" where
  "exit_nv kg node U = U\<lparr>nv_mem := (nv_mem U)(kg := nv_mem U kg - {node})\<rparr>"

definition grant_nv :: "string \<Rightarrow> string \<Rightarrow> string \<Rightarrow> nview \<Rightarrow> nview" where
  "grant_nv u kg mt U =
     U\<lparr>nv_perm := (nv_perm U)(u := (nv_perm U u)(kg := insert mt (nv_perm U u kg)))\<rparr>"

definition revoke_nv :: "string \<Rightarrow> string \<Rightarrow> string \<Rightarrow> nview \<Rightarrow> nview" where
  "revoke_nv u kg mt U =
     U\<lparr>nv_perm := (nv_perm U)(u := (nv_perm U u)(kg := nv_perm U u kg - {mt}))\<rparr>"

definition report_nv :: "string \<Rightarrow> string \<Rightarrow> string \<Rightarrow> nview \<Rightarrow> nview" where
  "report_nv node kg i U = U\<lparr>nv_fail := (nv_fail U)(node := insert (kg, i) (nv_fail U node))\<rparr>"

definition collect_nv :: "string \<Rightarrow> nview \<Rightarrow> nview" where
  "collect_nv node U = U\<lparr>nv_fail := (nv_fail U)(node := {})\<rparr>"

definition register_nv :: "string \<Rightarrow> string \<Rightarrow> string \<Rightarrow> nview \<Rightarrow> nview" where
  "register_nv node host ext U =
     U\<lparr>nv_addr := (nv_addr U)(node := (if host = [] then None else Some host)),
       nv_ext := (nv_ext U)(node \<mapsto> ext)\<rparr>"

lemmas nv_defs = create_nv_def delete_nv_def join_nv_def exit_nv_def grant_nv_def revoke_nv_def
  report_nv_def collect_nv_def register_nv_def

text \<open>The members of a keygroup with their expiry, without the asking node if it says so.\<close>

definition members_nv :: "nview \<Rightarrow> string \<Rightarrow> string \<Rightarrow> bool \<Rightarrow> string set" where
  "members_nv U self kg excl = nv_mem U kg - (if excl then {self} else {})"

text \<open>An expiry of 0 stands for no expiry.\<close>

definition eff_expiry :: "int \<Rightarrow> int" where
  "eff_expiry x = (if x = 0 then 2147483647 else x)"

locale nase_spec =
  fixes N :: "'w NameService"
    and inv :: "'w \<Rightarrow> bool"
    and view :: "'w \<Rightarrow> nview"
    and healthy :: bool
  assumes self_ok: "ok_name (ns_GetNodeID N)"
    and exists_spec: "ok_name kg \<Longrightarrow>
      triple (sat inv view U) (ns_ExistsKeygroup N kg)
        (\<lambda>b w. sat inv view U w \<and> b = (kg \<in> nv_kgs U))
        (\<lambda>e w. sat inv view U w \<and> is_wrapped e \<and> \<not> healthy)"
    and mutable_spec: "ok_name kg \<Longrightarrow>
      triple (sat inv view U) (ns_IsMutable N kg)
        (\<lambda>b w. sat inv view U w \<and> b = (kg \<in> nv_mut U))
        (\<lambda>e w. sat inv view U w \<and> is_wrapped e \<and> \<not> healthy)"
    and expiry_spec: "ok_name kg \<Longrightarrow>
      triple (sat inv view U) (ns_GetExpiry N kg)
        (\<lambda>x w. sat inv view U w \<and> x = nv_exp U kg (ns_GetNodeID N) \<and> int64 x)
        (\<lambda>e w. sat inv view U w \<and> is_wrapped e \<and> \<not> healthy)"
    and address_spec: "ok_name node \<Longrightarrow>
      triple (sat inv view U) (ns_GetNodeAddress N node)
        (\<lambda>a w. sat inv view U w \<and> nv_addr U node = Some a)
        (\<lambda>e w. sat inv view U w \<and> is_wrapped e \<and> (healthy \<longrightarrow> nv_addr U node = None))"
    and create_spec: "ok_name kg \<Longrightarrow> int64 x \<Longrightarrow>
      triple (sat inv view U) (ns_CreateKeygroup N kg mut x)
        (\<lambda>_ w. sat inv view (create_nv (ns_GetNodeID N) kg mut x U) w \<and> kg \<notin> nv_kgs U)
        (\<lambda>e w. inv w \<and> is_wrapped e \<and> (healthy \<longrightarrow> sat inv view U w \<and> kg \<in> nv_kgs U))"
    and delete_spec: "ok_name kg \<Longrightarrow>
      triple (sat inv view U) (ns_DeleteKeygroup N kg)
        (\<lambda>_ w. sat inv view (delete_nv kg U) w)
        (\<lambda>e w. inv w \<and> is_wrapped e \<and> \<not> healthy)"
    and join_spec: "ok_name kg \<Longrightarrow> ok_name node \<Longrightarrow> int64 x \<Longrightarrow>
      triple (sat inv view U) (ns_JoinNodeIntoKeygroup N kg node x)
        (\<lambda>_ w. sat inv view (join_nv kg node x U) w \<and> kg \<in> nv_kgs U \<and> nv_addr U node \<noteq> None)
        (\<lambda>e w. inv w \<and> is_wrapped e \<and>
           (healthy \<longrightarrow> sat inv view U w \<and> (kg \<notin> nv_kgs U \<or> nv_addr U node = None)))"
    and exit_spec: "ok_name kg \<Longrightarrow> ok_name node \<Longrightarrow>
      triple (sat inv view U) (ns_ExitOtherNodeFromKeygroup N kg node)
        (\<lambda>_ w. sat inv view (exit_nv kg node U) w \<and> kg \<in> nv_kgs U \<and> nv_addr U node \<noteq> None)
        (\<lambda>e w. inv w \<and> is_wrapped e \<and>
           (healthy \<longrightarrow> sat inv view U w \<and> (kg \<notin> nv_kgs U \<or> nv_addr U node = None)))"
    and members_spec: "ok_name kg \<Longrightarrow>
      triple (sat inv view U) (ns_GetKeygroupMembers N kg excl)
        (\<lambda>(ids, err) w. sat inv view U w \<and> distinct (map fst ids) \<and>
           fst ` set ids \<subseteq> members_nv U (ns_GetNodeID N) kg excl \<and>
           (\<forall>node \<in> fst ` set ids. ok_name node) \<and>
           (case err of
              None \<Rightarrow> fst ` set ids = members_nv U (ns_GetNodeID N) kg excl \<and>
                      (\<forall>(node, x) \<in> set ids. x = nv_exp U kg node)
            | Some e \<Rightarrow> is_wrapped e \<and> \<not> healthy))
        (\<lambda>e w. False)"
    and grant_spec: "ok_name u \<Longrightarrow> ok_name kg \<Longrightarrow> ok_name mt \<Longrightarrow>
      triple (sat inv view U) (ns_AddUserPermissions N u mt kg)
        (\<lambda>_ w. sat inv view (grant_nv u kg mt U) w)
        (\<lambda>e w. inv w \<and> is_wrapped e \<and> \<not> healthy)"
    and revoke_spec: "ok_name u \<Longrightarrow> ok_name kg \<Longrightarrow> ok_name mt \<Longrightarrow>
      triple (sat inv view U) (ns_RevokeUserPermissions N u mt kg)
        (\<lambda>_ w. sat inv view (revoke_nv u kg mt U) w)
        (\<lambda>e w. inv w \<and> is_wrapped e \<and> \<not> healthy)"
    and permissions_spec: "ok_name u \<Longrightarrow> ok_name kg \<Longrightarrow>
      triple (sat inv view U) (ns_GetUserPermissions N u kg)
        (\<lambda>ms w. sat inv view U w \<and> set ms = nv_perm U u kg)
        (\<lambda>e w. sat inv view U w \<and> is_wrapped e \<and> \<not> healthy)"
    and report_spec: "ok_name node \<Longrightarrow> ok_name kg \<Longrightarrow> ok_name i \<Longrightarrow>
      triple (sat inv view U) (ns_ReportFailedNode N node kg i)
        (\<lambda>_ w. sat inv view (report_nv node kg i U) w)
        (\<lambda>e w. inv w \<and> is_wrapped e \<and> \<not> healthy)"
    and status_spec: "ok_name node \<Longrightarrow>
      triple (sat inv view U) (ns_RequestNodeStatus N node)
        (\<lambda>its w. inv w \<and> (\<forall>it \<in> set its. (iKeygroup it, iID it) \<in> nv_fail U node) \<and>
           (healthy \<longrightarrow> sat inv view (collect_nv node U) w \<and>
              (\<lambda>it. (iKeygroup it, iID it)) ` set its = nv_fail U node))
        (\<lambda>e w. False)"
    and bigger_spec: "ok_name kg \<Longrightarrow>
      triple (sat inv view U) (ns_GetNodeWithBiggerExpiry N kg)
        (\<lambda>(node, addr) w. sat inv view U w \<and>
           (addr \<noteq> [] \<longrightarrow> nv_addr U node = Some addr) \<and>
           (let others = members_nv U (ns_GetNodeID N) kg True in
            healthy \<longrightarrow> others \<noteq> {} \<longrightarrow>
            (\<forall>m \<in> others. 0 \<le> nv_exp U kg m \<and> nv_exp U kg m \<le> 2147483647) \<longrightarrow>
              node \<in> others \<and> nv_addr U node = (if addr = [] then None else Some addr) \<and>
              (\<forall>m \<in> others. eff_expiry (nv_exp U kg m) \<le> eff_expiry (nv_exp U kg node))))
        (\<lambda>e w. False)"
    and register_spec:
      "triple (sat inv view U) (ns_RegisterSelf N host ext)
        (\<lambda>_ w. sat inv view (register_nv (ns_GetNodeID N) host ext U) w)
        (\<lambda>e w. inv w \<and> is_wrapped e \<and> \<not> healthy)"
    and nodes_spec:
      "triple (sat inv view U) (ns_GetAllNodes N)
        (\<lambda>ns w. sat inv view U w \<and>
           (\<forall>node host. host \<noteq> [] \<longrightarrow>
              (\<lparr>nID = node, nHost = host\<rparr> \<in> set ns \<longleftrightarrow> nv_addr U node = Some host)))
        (\<lambda>e w. sat inv view U w \<and> is_wrapped e \<and> \<not> healthy)"
    and external_spec:
      "triple (sat inv view U) (ns_GetAllNodesExternal N)
        (\<lambda>ns w. sat inv view U w \<and> set ns = {\<lparr>nID = node, nHost = host\<rparr> | node host. nv_ext U node = Some host})
        (\<lambda>e w. sat inv view U w \<and> is_wrapped e \<and> \<not> healthy)"

end
