(* ===== verification/Auth_Service.thy ===== *)
theory Auth_Service
  imports Nase_Contract
begin

text \<open>
  pkg/fred/auth.go: roles are expanded into methods, and the permission of a user for a
  method on a keygroup is an entry of the naming service. The second half specifies the
  service over the contract of the naming service.
\<close>

section \<open>Operations\<close>

text \<open>\<open>a_range\<close> is the order in which the runtime iterates over the methods of a role.\<close>

record 'w authService =
  a_n :: "'w NameService"
  a_range :: order

definition newAuthService :: "order \<Rightarrow> 'w NameService \<Rightarrow> 'w authService" where
  "newAuthService rng n = \<lparr>a_n = n, a_range = rng\<rparr>"

definition addRoles :: "'w authService \<Rightarrow> string \<Rightarrow> Role list \<Rightarrow> KeygroupName \<Rightarrow> ('w, unit) op" where
  "addRoles a u r k =
     foreach (\<lambda>role. foreach (\<lambda>m. wrap_err (ns_AddUserPermissions (a_n a) u m k))
                             (a_range a (permissions role))) r"

definition revokeRoles :: "'w authService \<Rightarrow> string \<Rightarrow> Role list \<Rightarrow> KeygroupName \<Rightarrow> ('w, unit) op" where
  "revokeRoles a u r k =
     foreach (\<lambda>role. foreach (\<lambda>m. wrap_err (ns_RevokeUserPermissions (a_n a) u m k))
                             (a_range a (permissions role))) r"

definition isAllowed :: "'w authService \<Rightarrow> string \<Rightarrow> Method \<Rightarrow> KeygroupName \<Rightarrow> ('w, bool) op" where
  "isAllowed a u m k =
     andthen (wrap_err (ns_GetUserPermissions (a_n a) u k)) (\<lambda>p. ret (m \<in> set p))"

section \<open>Specifications over the contract of the naming service\<close>

lemma permissions_ok: "m \<in> set (permissions r) \<Longrightarrow> ok_name m"
  by (auto simp: permissions_def ok_name_def sep_def split: if_splits)

text \<open>Granting and revoking a list of methods.\<close>

definition grants :: "string \<Rightarrow> string \<Rightarrow> string list \<Rightarrow> nview \<Rightarrow> nview" where
  "grants u kg ms U = foldl (\<lambda>U m. grant_nv u kg m U) U ms"

definition revokes :: "string \<Rightarrow> string \<Rightarrow> string list \<Rightarrow> nview \<Rightarrow> nview" where
  "revokes u kg ms U = foldl (\<lambda>U m. revoke_nv u kg m U) U ms"

lemma grants_snoc: "grants u kg (ms @ ns) U = grants u kg ns (grants u kg ms U)"
  by (simp add: grants_def)

lemma revokes_snoc: "revokes u kg (ms @ ns) U = revokes u kg ns (revokes u kg ms U)"
  by (simp add: revokes_def)

lemma grants_perm:
  "nv_perm (grants u kg ms U) u' kg' =
     (if u' = u \<and> kg' = kg then nv_perm U u kg \<union> set ms else nv_perm U u' kg')"
  by (induction ms arbitrary: U) (auto simp: grants_def grant_nv_def)

lemma revokes_perm:
  "nv_perm (revokes u kg ms U) u' kg' =
     (if u' = u \<and> kg' = kg then nv_perm U u kg - set ms else nv_perm U u' kg')"
  by (induction ms arbitrary: U) (auto simp: revokes_def revoke_nv_def)

lemma grants_other:
  "nv_kgs (grants u kg ms U) = nv_kgs U" "nv_mut (grants u kg ms U) = nv_mut U"
  "nv_exp (grants u kg ms U) = nv_exp U" "nv_mem (grants u kg ms U) = nv_mem U"
  "nv_addr (grants u kg ms U) = nv_addr U" "nv_fail (grants u kg ms U) = nv_fail U"
  by (induction ms arbitrary: U) (auto simp: grants_def grant_nv_def)

context nase_spec
begin

abbreviation at :: "nview \<Rightarrow> 'w \<Rightarrow> bool" where
  "at \<equiv> sat inv view"

lemma isAllowed_at:
  assumes "ok_name u" "ok_name k"
  shows "triple (at U) (isAllowed \<lparr>a_n = N, a_range = rng\<rparr> u m k)
    (\<lambda>b w. at U w \<and> b = (m \<in> nv_perm U u k)) (\<lambda>e w. at U w \<and> is_wrapped e \<and> \<not> healthy)"
  unfolding isAllowed_def authService.simps
  by (rule triple_seq [OF triple_wrap [OF permissions_spec [OF assms, of U]]]) (auto simp: wp_ret)

lemma add_methods_at:
  assumes "ok_name u" "ok_name k" "\<And>m. m \<in> set ms \<Longrightarrow> ok_name m"
  shows "triple (at U) (foreach (\<lambda>m. wrap_err (ns_AddUserPermissions N u m k)) ms)
    (\<lambda>_. at (grants u k ms U)) (\<lambda>e w. inv w \<and> is_wrapped e \<and> \<not> healthy)"
proof -
  have "triple (at (grants u k done U)) (wrap_err (ns_AddUserPermissions N u m k))
      (\<lambda>_. at (grants u k (done @ [m]) U)) (\<lambda>e w. inv w \<and> is_wrapped e \<and> \<not> healthy)"
    if "m \<in> set ms" for m "done"
    using assms that
    by (intro triple_conseq [OF triple_wrap [OF grant_spec]]) (auto simp: grants_snoc grants_def)
  then have "triple (at (grants u k [] U)) (foreach (\<lambda>m. wrap_err (ns_AddUserPermissions N u m k)) ms)
      (\<lambda>_. at (grants u k ([] @ ms) U)) (\<lambda>e w. inv w \<and> is_wrapped e \<and> \<not> healthy)"
    by (rule triple_foreach [where I = "\<lambda>done. at (grants u k done U)"])
  then show ?thesis by (simp add: grants_def)
qed

lemma revoke_methods_at:
  assumes "ok_name u" "ok_name k" "\<And>m. m \<in> set ms \<Longrightarrow> ok_name m"
  shows "triple (at U) (foreach (\<lambda>m. wrap_err (ns_RevokeUserPermissions N u m k)) ms)
    (\<lambda>_. at (revokes u k ms U)) (\<lambda>e w. inv w \<and> is_wrapped e \<and> \<not> healthy)"
proof -
  have "triple (at (revokes u k done U)) (wrap_err (ns_RevokeUserPermissions N u m k))
      (\<lambda>_. at (revokes u k (done @ [m]) U)) (\<lambda>e w. inv w \<and> is_wrapped e \<and> \<not> healthy)"
    if "m \<in> set ms" for m "done"
    using assms that
    by (intro triple_conseq [OF triple_wrap [OF revoke_spec]]) (auto simp: revokes_snoc revokes_def)
  then have "triple (at (revokes u k [] U)) (foreach (\<lambda>m. wrap_err (ns_RevokeUserPermissions N u m k)) ms)
      (\<lambda>_. at (revokes u k ([] @ ms) U)) (\<lambda>e w. inv w \<and> is_wrapped e \<and> \<not> healthy)"
    by (rule triple_foreach [where I = "\<lambda>done. at (revokes u k done U)"])
  then show ?thesis by (simp add: revokes_def)
qed

end

text \<open>The methods of a list of roles, in the order they are granted.\<close>

definition role_methods :: "order \<Rightarrow> Role list \<Rightarrow> Method list" where
  "role_methods rng rs = concat (map (\<lambda>r. rng (permissions r)) rs)"

lemma set_role_methods:
  "perm_order rng \<Longrightarrow> set (role_methods rng rs) = (\<Union>r \<in> set rs. set (permissions r))"
  by (auto simp: role_methods_def perm_order_set)

lemma foreach_concat:
  "foreach (\<lambda>x. foreach f (g x)) xs = foreach f (concat (map g xs))"
  by (induction xs) (simp_all add: foreach_append)

context nase_spec
begin

lemma addRoles_at:
  assumes "ok_name u" "ok_name k" "perm_order rng"
  shows "triple (at U) (addRoles \<lparr>a_n = N, a_range = rng\<rparr> u r k)
    (\<lambda>_. at (grants u k (role_methods rng r) U)) (\<lambda>e w. inv w \<and> is_wrapped e \<and> \<not> healthy)"
  unfolding addRoles_def authService.simps foreach_concat role_methods_def [symmetric]
  using assms permissions_ok by (intro add_methods_at) (auto simp: set_role_methods)

lemma revokeRoles_at:
  assumes "ok_name u" "ok_name k" "perm_order rng"
  shows "triple (at U) (revokeRoles \<lparr>a_n = N, a_range = rng\<rparr> u r k)
    (\<lambda>_. at (revokes u k (role_methods rng r) U)) (\<lambda>e w. inv w \<and> is_wrapped e \<and> \<not> healthy)"
  unfolding revokeRoles_def authService.simps foreach_concat role_methods_def [symmetric]
  using assms permissions_ok by (intro revoke_methods_at) (auto simp: set_role_methods)

end

end
