(* ===== verification/Replication_Service.thy ===== *)
theory Replication_Service
  imports Store_Service
begin

text \<open>
  pkg/fred/replicationservice.go: keeping the replicas of a keygroup in step. Members and
  addresses come from the naming service, messages go to the other nodes through a \<^verbatim>\<open>Client\<close>.
  A member that cannot be reached is recorded in the naming service with the item it missed.
\<close>

record 'w replicationService =
  r_c :: "'w Client"
  r_s :: "'w storeService"
  r_n :: "'w NameService"

definition newReplicationService ::
  "'w storeService \<Rightarrow> 'w Client \<Rightarrow> 'w NameService \<Rightarrow> 'w replicationService" where
  "newReplicationService s c n = \<lparr>r_c = c, r_s = s, r_n = n\<rparr>"

definition reportNodeFail ::
  "'w replicationService \<Rightarrow> NodeID \<Rightarrow> KeygroupName \<Rightarrow> string \<Rightarrow> ('w, unit) op" where
  "reportNodeFail r node kg i = ns_ReportFailedNode (r_n r) node kg i"

text \<open>A message whose failure is reported; a failed report is only logged.\<close>

definition or_report ::
  "'w replicationService \<Rightarrow> ('w, unit) op \<Rightarrow> NodeID \<Rightarrow> KeygroupName \<Rightarrow> string \<Rightarrow> ('w, unit) op" where
  "or_report r send node kg i =
     attempt send (\<lambda>_. attempt (reportNodeFail r node kg i) (\<lambda>_. ret ()) ret) ret"

definition no_such_keygroup_nase :: "KeygroupName \<Rightarrow> error" where
  "no_such_keygroup_nase kg = Wrapped (''no such keygroup according to NaSe: '' @ kg)"

text \<open>The guard: the keygroup exists according to the naming service.\<close>

definition if_exists :: "'w replicationService \<Rightarrow> KeygroupName \<Rightarrow> ('w, 'a) op \<Rightarrow> ('w, 'a) op" where
  "if_exists r kg m =
     andthen (ns_ExistsKeygroup (r_n r) kg)
       (\<lambda>ex. if \<not> ex then fail (no_such_keygroup_nase kg) else m)"

text \<open>The members of a keygroup, when the naming service returns them without an error.\<close>

definition members_or_fail ::
  "'w replicationService \<Rightarrow> KeygroupName \<Rightarrow> bool \<Rightarrow> ('w, (NodeID \<times> int) list) op" where
  "members_or_fail r kg excludeSelf =
     andthen (ns_GetKeygroupMembers (r_n r) kg excludeSelf)
       (\<lambda>(ids, err). case err of None \<Rightarrow> ret ids | Some e \<Rightarrow> fail e)"

definition createKeygroup :: "'w replicationService \<Rightarrow> Keygroup \<Rightarrow> ('w, unit) op" where
  "createKeygroup r k =
     andthen (ns_ExistsKeygroup (r_n r) (Name k)) (\<lambda>ex.
       if ex then fail (Wrapped (''keygroup already exists, cannot create it: '' @ Name k))
       else ns_CreateKeygroup (r_n r) (Name k) (Mutable k) (Expiry k))"

definition deleteKeygroup :: "'w replicationService \<Rightarrow> Keygroup \<Rightarrow> ('w, unit) op" where
  "deleteKeygroup r k = ret ()"

definition relayDeleteKeygroup :: "'w replicationService \<Rightarrow> Keygroup \<Rightarrow> ('w, unit) op" where
  "relayDeleteKeygroup r k =
     if_exists r (Name k)
       (andthen (members_or_fail r (Name k) True)
         (\<lambda>ids. andthen
            (foreach (\<lambda>(i, _).
               andthen (ns_GetNodeAddress (r_n r) i)
                 (\<lambda>addr. attempt (cl_SendDeleteKeygroup (r_c r) addr (Name k)) (\<lambda>_. ret ()) ret)) ids)
            (\<lambda>_. attempt (ns_DeleteKeygroup (r_n r) (Name k)) (\<lambda>e. errstack e (fail e)) ret)))"

text \<open>The loop body of the three relays.\<close>

definition relay_to ::
  "'w replicationService \<Rightarrow> (string \<Rightarrow> ('w, unit) op) \<Rightarrow> Item \<Rightarrow> NodeID \<times> int \<Rightarrow> ('w, unit) op" where
  "relay_to r send it p =
     (case p of (i, _) \<Rightarrow>
        andthen (ns_GetNodeAddress (r_n r) i)
          (\<lambda>addr. or_report r (send addr) i (iKeygroup it) (iID it)))"

definition relayUpdate :: "'w replicationService \<Rightarrow> Item \<Rightarrow> ('w, unit) op" where
  "relayUpdate r it =
     if_exists r (iKeygroup it)
       (andthen (members_or_fail r (iKeygroup it) True)
         (foreach (relay_to r
            (\<lambda>addr. cl_SendUpdate (r_c r) addr (iKeygroup it) (iID it) (iVal it)) it)))"

definition relayAppend :: "'w replicationService \<Rightarrow> Item \<Rightarrow> ('w, unit) op" where
  "relayAppend r it =
     if_exists r (iKeygroup it)
       (andthen (members_or_fail r (iKeygroup it) True)
         (foreach (relay_to r
            (\<lambda>addr. cl_SendAppend (r_c r) addr (iKeygroup it) (iID it) (iVal it)) it)))"

text \<open>The error of \<^verbatim>\<open>GetKeygroupMembers\<close> is only returned after the loop over what it found.\<close>

definition relayDelete :: "'w replicationService \<Rightarrow> Item \<Rightarrow> ('w, unit) op" where
  "relayDelete r it =
     if_exists r (iKeygroup it)
       (andthen (ns_GetKeygroupMembers (r_n r) (iKeygroup it) True) (\<lambda>(ids, err).
          andthen (foreach (relay_to r
            (\<lambda>addr. cl_SendDelete (r_c r) addr (iKeygroup it) (iID it)) it) ids)
            (\<lambda>_. case err of None \<Rightarrow> ret () | Some e \<Rightarrow> fail e)))"

text \<open>Telling the replicas about each other, and sending the data to the new one.\<close>

definition introduce ::
  "'w replicationService \<Rightarrow> Keygroup \<Rightarrow> Node \<Rightarrow> NodeID \<times> int \<Rightarrow> ('w, unit) op" where
  "introduce r k newNode p =
     (case p of (currID, _) \<Rightarrow>
        andthen (ns_GetNodeAddress (r_n r) currID) (\<lambda>replAddr.
          andthen (cl_SendAddReplica (r_c r) replAddr (Name k) newNode (Expiry k)) (\<lambda>_.
            cl_SendAddReplica (r_c r) (nHost newNode) (Name k)
              \<lparr>nID = currID, nHost = replAddr\<rparr> (Expiry k))))"

definition sendItems ::
  "'w replicationService \<Rightarrow> Keygroup \<Rightarrow> Node \<Rightarrow> string \<Rightarrow> bool \<Rightarrow> Item list \<Rightarrow> ('w, unit) op" where
  "sendItems r k n newNodeAddr mut =
     foreach (\<lambda>item.
       if mut
       then or_report r (cl_SendUpdate (r_c r) newNodeAddr (Name k) (iID item) (iVal item))
              (nID n) (Name k) (iID item)
       else or_report r (cl_SendAppend (r_c r) newNodeAddr (Name k) (iID item) (iVal item))
              (nID n) (Name k) (iID item))"

text \<open>The data for the new replica: from the own store, or, when the node adds itself, from a member.\<close>

definition fillReplica :: "'w replicationService \<Rightarrow> Keygroup \<Rightarrow> Node \<Rightarrow> string \<Rightarrow> ('w, unit) op" where
  "fillReplica r k n newNodeAddr =
     (if nID n \<noteq> ns_GetNodeID (r_n r)
      then attempt (ss_readAll (r_s r) (Name k))
             (\<lambda>e. errstack e (fail (Wrapped ''error adding replica''))) (\<lambda>items.
           andthen (ns_IsMutable (r_n r) (Name k)) (\<lambda>mut.
             sendItems r k n newNodeAddr mut items))
      else andthen (ns_GetNodeWithBiggerExpiry (r_n r) (Name k)) (\<lambda>(_, addr).
           if addr = [] then ret ()
           else attempt (cl_SendGetAllItems (r_c r) addr (Name k))
                  (\<lambda>e. errstack e (fail (Wrapped ''error adding replica''))) (\<lambda>items.
                andthen (ns_IsMutable (r_n r) (Name k)) (\<lambda>mut.
                  sendItems r k n newNodeAddr mut items))))"

definition addReplica :: "'w replicationService \<Rightarrow> Keygroup \<Rightarrow> Node \<Rightarrow> bool \<Rightarrow> ('w, unit) op" where
  "addReplica r k n relay =
     (if \<not> relay then ret ()
      else if_exists r (Name k)
        (attempt (ns_GetNodeAddress (r_n r) (nID n)) (\<lambda>e. errstack e (fail e)) (\<lambda>newNodeAddr.
         attempt (ns_JoinNodeIntoKeygroup (r_n r) (Name k) (nID n) (Expiry k))
           (\<lambda>e. errstack e (fail e)) (\<lambda>_.
         attempt (cl_SendCreateKeygroup (r_c r) newNodeAddr (Name k) (Expiry k))
           (\<lambda>e. errstack e (fail e)) (\<lambda>_.
         andthen (members_or_fail r (Name k) True) (\<lambda>ids.
         andthen (foreach (introduce r k \<lparr>nID = nID n, nHost = newNodeAddr\<rparr>) ids) (\<lambda>_.
         fillReplica r k n newNodeAddr)))))))"

text \<open>Telling the members that a node left, whether they answer or not.\<close>

definition informRemoved ::
  "'w replicationService \<Rightarrow> Keygroup \<Rightarrow> Node \<Rightarrow> (NodeID \<times> int) list \<Rightarrow> ('w, unit) op" where
  "informRemoved r k n =
     foreach (\<lambda>(idToInform, _).
       andthen (ns_GetNodeAddress (r_n r) idToInform) (\<lambda>addr.
         attempt (cl_SendRemoveReplica (r_c r) addr (Name k) \<lparr>nID = nID n, nHost = []\<rparr>)
           (\<lambda>_. ret ()) ret))"

definition dropReplica :: "'w replicationService \<Rightarrow> Keygroup \<Rightarrow> Node \<Rightarrow> string \<Rightarrow> ('w, unit) op" where
  "dropReplica r k n removedNodeAddr =
     attempt (cl_SendDeleteKeygroup (r_c r) removedNodeAddr (Name k))
       (\<lambda>e. errstack e (fail e)) (\<lambda>_.
     andthen (members_or_fail r (Name k) True) (\<lambda>kgMembers.
     andthen (ns_ExitOtherNodeFromKeygroup (r_n r) (Name k) (nID n)) (\<lambda>_.
     informRemoved r k n kgMembers)))"

definition removeReplica :: "'w replicationService \<Rightarrow> Keygroup \<Rightarrow> Node \<Rightarrow> bool \<Rightarrow> ('w, unit) op" where
  "removeReplica r k n relay =
     (if \<not> relay then ret ()
      else andthen (ns_GetNodeAddress (r_n r) (nID n)) (\<lambda>removedNodeAddr.
        attempt (ns_ExistsKeygroup (r_n r) (Name k))
          (\<lambda>_. fail (no_such_keygroup_nase (Name k))) (\<lambda>ex.
        if \<not> ex then fail (no_such_keygroup_nase (Name k))
        else andthen (members_or_fail r (Name k) False) (\<lambda>members.
        if nID n \<notin> fst ` set members
        then fail (Wrapped ''Can not remove node from keygroup it is not a member of.'')
        else if length members \<le> 1
        then fail (Wrapped (''Can not exit last node from keygroup '' @ Name k))
        else dropReplica r k n removedNodeAddr))))"

definition getNode :: "'w replicationService \<Rightarrow> Node \<Rightarrow> ('w, Node) op" where
  "getNode r n =
     andthen (ns_GetNodeAddress (r_n r) (nID n)) (\<lambda>addr. ret \<lparr>nID = nID n, nHost = addr\<rparr>)"

definition getNodesExternalAdress :: "'w replicationService \<Rightarrow> ('w, Node list) op" where
  "getNodesExternalAdress r = ns_GetAllNodesExternal (r_n r)"

fun replica_loop ::
  "'w replicationService \<Rightarrow> (NodeID \<times> int) list \<Rightarrow> Node list \<Rightarrow> (NodeID \<times> int) list
     \<Rightarrow> ('w, Node list \<times> (NodeID \<times> int) list) op" where
  "replica_loop r [] nodes expiries = ret (nodes, expiries)"
| "replica_loop r ((i, expiry) # ids) nodes expiries =
     andthen (ns_GetNodeAddress (r_n r) i) (\<lambda>addr.
       replica_loop r ids (nodes @ [\<lparr>nID = i, nHost = addr\<rparr>]) (map_put i expiry expiries))"

text \<open>
  For a keygroup that does not exist there is no error to assert on: the type assertion on
  the nil error panics.
\<close>

definition getReplica ::
  "'w replicationService \<Rightarrow> Keygroup \<Rightarrow> ('w, Node list \<times> (NodeID \<times> int) list) op" where
  "getReplica r k =
     attempt (ns_ExistsKeygroup (r_n r) (Name k))
       (\<lambda>e. errstack e (fail (Wrapped ''no such keygroup according to NaSe'')))
       (\<lambda>ex. if \<not> ex then panic
         else andthen (ns_GetKeygroupMembers (r_n r) (Name k) True) (\<lambda>(ids, err).
           andthen (replica_loop r ids [] []) (\<lambda>res.
             case err of None \<Rightarrow> ret res | Some e \<Rightarrow> fail e)))"

end
