(* ===== verification/Handlers.thy ===== *)
theory Handlers
  imports Auth_Service Trigger_Service Replication_Service
begin

text \<open>
  pkg/fred/exthandler.go, inthandler.go and fred.go: the requests of clients (checked against
  the permissions of the user), the requests of other nodes, and the start of a node, which
  registers itself and catches up on what it missed.
\<close>

section \<open>Requests of clients (exthandler.go)\<close>

record 'w exthandler =
  e_s :: "'w storeService"
  e_r :: "'w replicationService"
  e_t :: "'w triggerService"
  e_a :: "'w authService"
  e_n :: "'w NameService"

definition newExthandler ::
  "'w storeService \<Rightarrow> 'w replicationService \<Rightarrow> 'w triggerService \<Rightarrow> 'w authService
     \<Rightarrow> 'w NameService \<Rightarrow> 'w exthandler" where
  "newExthandler s r t a n = \<lparr>e_s = s, e_r = r, e_t = t, e_a = a, e_n = n\<rparr>"

text \<open>The permission check in front of a handler: an error counts as a refusal.\<close>

definition authorised ::
  "'w exthandler \<Rightarrow> string \<Rightarrow> Method \<Rightarrow> KeygroupName \<Rightarrow> string \<Rightarrow> ('w, 'a) op \<Rightarrow> ('w, 'a) op" where
  "authorised h user mt kg msg m =
     attempt (isAllowed (e_a h) user mt kg) (\<lambda>_. fail (Wrapped msg))
       (\<lambda>allowed. if \<not> allowed then fail (Wrapped msg) else m)"

text \<open>An error is logged with its stack trace and replaced by another one.\<close>

definition or_error :: "('w, 'a) op \<Rightarrow> string \<Rightarrow> ('a \<Rightarrow> ('w, 'b) op) \<Rightarrow> ('w, 'b) op" where
  "or_error m msg f = attempt m (\<lambda>e. errstack e (fail (Wrapped msg))) f"

definition HandleCreateKeygroup :: "'w exthandler \<Rightarrow> string \<Rightarrow> Keygroup \<Rightarrow> ('w, unit) op" where
  "HandleCreateKeygroup h user k =
     or_error (createKeygroup (e_r h) k) ''error creating keygroup'' (\<lambda>_.
     or_error (ss_createKeygroup (e_s h) (Name k)) ''error creating keygroup'' (\<lambda>_.
     addRoles (e_a h) user
       [ReadKeygroup, WriteKeygroup, ConfigureReplica, ConfigureTrigger, ConfigureKeygroups] (Name k)))"

definition HandleDeleteKeygroup :: "'w exthandler \<Rightarrow> string \<Rightarrow> Keygroup \<Rightarrow> ('w, unit) op" where
  "HandleDeleteKeygroup h user k =
     authorised h user ''DeleteKeygroup'' (Name k) ''user cannot delete keygroup''
       (or_error (ss_deleteKeygroup (e_s h) (Name k)) ''error deleting keygroup'' (\<lambda>_.
        or_error (relayDeleteKeygroup (e_r h) \<lparr>Name = Name k, Mutable = False, Expiry = 0\<rparr>)
          ''error deleting keygroup'' ret))"

definition HandleRead :: "'w exthandler \<Rightarrow> string \<Rightarrow> Item \<Rightarrow> ('w, Item) op" where
  "HandleRead h user i =
     authorised h user ''Read'' (iKeygroup i) ''user cannot read from keygroup''
       (attempt (ss_read (e_s h) (iKeygroup i) (iID i))
          (\<lambda>_. fail (Wrapped ''error reading item from keygroup''))
          (\<lambda>result. ret (i\<lparr>iVal := result\<rparr>)))"

definition HandleScan :: "'w exthandler \<Rightarrow> string \<Rightarrow> Item \<Rightarrow> 64 word \<Rightarrow> ('w, Item list) op" where
  "HandleScan h user i cnt =
     authorised h user ''Read'' (iKeygroup i) ''user cannot read from keygroup''
       (if cnt \<le> 0 then fail (Wrapped ''count must be at least 1'')
        else attempt (ss_scan (e_s h) (iKeygroup i) (iID i) cnt)
               (\<lambda>_. fail (Wrapped ''error scanning items'')) ret)"

definition HandleAppend :: "'w exthandler \<Rightarrow> string \<Rightarrow> Item \<Rightarrow> ('w, Item) op" where
  "HandleAppend h user i =
     authorised h user ''Update'' (iKeygroup i) ''user cannot update in keygroup''
       (andthen (ns_IsMutable (e_n h) (iKeygroup i)) (\<lambda>m.
        if m then fail (Wrapped ''cannot append to mutable keygroup'')
        else andthen (ns_GetExpiry (e_n h) (iKeygroup i)) (\<lambda>expiry.
        or_error (ss_append (e_s h) i expiry) ''error updating item'' (\<lambda>result.
        or_error (relayAppend (e_r h) result) ''error updating item'' (\<lambda>_.
        or_error (triggerUpdate (e_t h) result) ''error updating item'' (\<lambda>_. ret result))))))"

definition HandleUpdate :: "'w exthandler \<Rightarrow> string \<Rightarrow> Item \<Rightarrow> ('w, unit) op" where
  "HandleUpdate h user i =
     authorised h user ''Update'' (iKeygroup i) ''user cannot update in keygroup''
       (andthen (ns_IsMutable (e_n h) (iKeygroup i)) (\<lambda>m.
        if \<not> m then fail (Wrapped ''cannot update item because keygroup is immutable'')
        else andthen (ns_GetExpiry (e_n h) (iKeygroup i)) (\<lambda>expiry.
        or_error (relayUpdate (e_r h) i) ''error updating item'' (\<lambda>_.
        or_error (ss_update (e_s h) i False expiry) ''error updating item'' (\<lambda>_.
        or_error (triggerUpdate (e_t h) i) ''error updating item'' ret)))))"

definition HandleDelete :: "'w exthandler \<Rightarrow> string \<Rightarrow> Item \<Rightarrow> ('w, unit) op" where
  "HandleDelete h user i =
     authorised h user ''Delete'' (iKeygroup i) ''user cannot delete from keygroup''
       (andthen (ns_IsMutable (e_n h) (iKeygroup i)) (\<lambda>m.
        if \<not> m then fail (Wrapped ''cannot update item because keygroup is immutable'')
        else andthen (ss_exists (e_s h) i) (\<lambda>ex.
        if \<not> ex then fail (Wrapped ''item does not exist so it cannot be deleted.'')
        else or_error (ss_delete (e_s h) (iKeygroup i) (iID i)) ''error deleting item'' (\<lambda>_.
             or_error (relayDelete (e_r h) i) ''error deleting item'' (\<lambda>_.
             or_error (triggerDelete (e_t h) i) ''error deleting item'' ret)))))"

definition HandleAddReplica :: "'w exthandler \<Rightarrow> string \<Rightarrow> Keygroup \<Rightarrow> Node \<Rightarrow> ('w, unit) op" where
  "HandleAddReplica h user k n =
     authorised h user ''AddReplica'' (Name k) ''user cannot add replica to keygroup''
       (or_error (addReplica (e_r h) k n True) ''error adding replica'' ret)"

definition HandleGetKeygroupReplica ::
  "'w exthandler \<Rightarrow> string \<Rightarrow> Keygroup \<Rightarrow> ('w, Node list \<times> (NodeID \<times> int) list) op" where
  "HandleGetKeygroupReplica h user k =
     authorised h user ''GetReplica'' (Name k) ''user cannot get replica for keygroup''
       (getReplica (e_r h) k)"

definition HandleRemoveReplica :: "'w exthandler \<Rightarrow> string \<Rightarrow> Keygroup \<Rightarrow> Node \<Rightarrow> ('w, unit) op" where
  "HandleRemoveReplica h user k n =
     authorised h user ''RemoveReplica'' (Name k) ''user cannot remove replica of keygroup''
       (or_error (removeReplica (e_r h) k n True) ''error removing replica'' ret)"

definition HandleAddTrigger :: "'w exthandler \<Rightarrow> string \<Rightarrow> Keygroup \<Rightarrow> Trigger \<Rightarrow> ('w, unit) op" where
  "HandleAddTrigger h user k t =
     authorised h user ''AddTrigger'' (Name k) ''user cannot add trigger to keygroup''
       (or_error (addTrigger (e_t h) k t) ''error adding replica'' ret)"

definition HandleGetKeygroupTriggers :: "'w exthandler \<Rightarrow> string \<Rightarrow> Keygroup \<Rightarrow> ('w, Trigger list) op" where
  "HandleGetKeygroupTriggers h user k =
     authorised h user ''GetTrigger'' (Name k) ''user cannot get triggers for keygroup''
       (getTrigger (e_t h) k)"

definition HandleRemoveTrigger :: "'w exthandler \<Rightarrow> string \<Rightarrow> Keygroup \<Rightarrow> Trigger \<Rightarrow> ('w, unit) op" where
  "HandleRemoveTrigger h user k t =
     authorised h user ''RemoveTrigger'' (Name k) ''user cannot remove triggers from keygroup''
       (or_error (removeTrigger (e_t h) k t) ''error removing trigger'' ret)"

definition HandleGetReplica :: "'w exthandler \<Rightarrow> string \<Rightarrow> Node \<Rightarrow> ('w, Node) op" where
  "HandleGetReplica h user n = getNode (e_r h) n"

definition HandleGetAllReplica :: "'w exthandler \<Rightarrow> string \<Rightarrow> ('w, Node list) op" where
  "HandleGetAllReplica h user = getNodesExternalAdress (e_r h)"

definition HandleAddUser ::
  "'w exthandler \<Rightarrow> string \<Rightarrow> string \<Rightarrow> Keygroup \<Rightarrow> Role \<Rightarrow> ('w, unit) op" where
  "HandleAddUser h user newuser k r =
     authorised h user ''AddUser'' (Name k) ''user cannot add user permissions to keygroup''
       (addRoles (e_a h) newuser [r] (Name k))"

definition HandleRemoveUser ::
  "'w exthandler \<Rightarrow> string \<Rightarrow> string \<Rightarrow> Keygroup \<Rightarrow> Role \<Rightarrow> ('w, unit) op" where
  "HandleRemoveUser h user newuser k r =
     authorised h user ''RemoveUser'' (Name k) ''user cannot remove user permissions to keygroup''
       (revokeRoles (e_a h) newuser [r] (Name k))"

section \<open>Requests of other nodes (inthandler.go)\<close>

record 'w inthandler =
  i_s :: "'w storeService"
  i_r :: "'w replicationService"
  i_t :: "'w triggerService"
  i_n :: "'w NameService"

definition newInthandler ::
  "'w storeService \<Rightarrow> 'w replicationService \<Rightarrow> 'w triggerService \<Rightarrow> 'w NameService \<Rightarrow> 'w inthandler" where
  "newInthandler s r t n = \<lparr>i_s = s, i_r = r, i_t = t, i_n = n\<rparr>"

definition iHandleGet :: "'w inthandler \<Rightarrow> Item \<Rightarrow> ('w, Item) op" where
  "iHandleGet h i =
     or_error (ss_read (i_s h) (iKeygroup i) (iID i)) ''error reading item'' (\<lambda>data.
       ret \<lparr>iKeygroup = iKeygroup i, iID = iID i, iVal = data\<rparr>)"

definition iHandleGetAllItems :: "'w inthandler \<Rightarrow> Keygroup \<Rightarrow> ('w, Item list) op" where
  "iHandleGetAllItems h k =
     or_error (ss_readAll (i_s h) (Name k)) ''error reading all keygroup items'' ret"

definition iHandleCreateKeygroup :: "'w inthandler \<Rightarrow> Keygroup \<Rightarrow> ('w, unit) op" where
  "iHandleCreateKeygroup h k =
     or_error (ss_createKeygroup (i_s h) (Name k)) ''error creating keygroup'' ret"

definition iHandleDeleteKeygroup :: "'w inthandler \<Rightarrow> Keygroup \<Rightarrow> ('w, unit) op" where
  "iHandleDeleteKeygroup h k =
     or_error (ss_deleteKeygroup (i_s h) (Name k)) ''error deleting keygroup'' (\<lambda>_.
     or_error (deleteKeygroup (i_r h) \<lparr>Name = Name k, Mutable = False, Expiry = 0\<rparr>)
       ''error deleting keygroup'' ret)"

definition iHandleUpdate :: "'w inthandler \<Rightarrow> Item \<Rightarrow> ('w, unit) op" where
  "iHandleUpdate h i =
     andthen (ns_GetExpiry (i_n h) (iKeygroup i)) (\<lambda>expiry.
     or_error (ss_update (i_s h) i False expiry) ''error updating item'' (\<lambda>_.
     or_error (triggerUpdate (i_t h) i) ''error updating item'' ret))"

definition iHandleAppend :: "'w inthandler \<Rightarrow> Item \<Rightarrow> ('w, unit) op" where
  "iHandleAppend h i =
     andthen (ns_GetExpiry (i_n h) (iKeygroup i)) (\<lambda>expiry.
     or_error (ss_update (i_s h) i True expiry) ''error updating item'' (\<lambda>_.
     or_error (triggerUpdate (i_t h) i) ''error updating item'' ret))"

definition iHandleDelete :: "'w inthandler \<Rightarrow> Item \<Rightarrow> ('w, unit) op" where
  "iHandleDelete h i =
     or_error (ss_delete (i_s h) (iKeygroup i) (iID i)) ''error deleting item'' (\<lambda>_.
     or_error (triggerDelete (i_t h) i) ''error deleting item'' ret)"

definition iHandleAddReplica :: "'w inthandler \<Rightarrow> Keygroup \<Rightarrow> Node \<Rightarrow> ('w, unit) op" where
  "iHandleAddReplica h k n = addReplica (i_r h) k n False"

definition iHandleRemoveReplica :: "'w inthandler \<Rightarrow> Keygroup \<Rightarrow> Node \<Rightarrow> ('w, unit) op" where
  "iHandleRemoveReplica h k n = removeReplica (i_r h) k n False"

section \<open>Starting a node (fred.go)\<close>

text \<open>\<open>c_Trigger\<close> is what \<^verbatim>\<open>newTriggerService\<close> makes of the certificates, \<open>c_range\<close> the iteration order.\<close>

record 'w Config =
  c_Store :: "'w Store"
  c_Client :: "'w Client"
  c_NaSe :: "'w NameService"
  c_PeeringHost :: string
  c_PeeringHostProxy :: string
  c_ExternalHost :: string
  c_ExternalHostProxy :: string
  c_Trigger :: "'w TriggerNode"
  c_range :: order

record 'w Fred =
  F_E :: "'w exthandler"
  F_I :: "'w inthandler"

text \<open>
  One missed item is fetched from a member and stored. An item that could not be fetched is
  the empty item, whose update is refused; all errors here are only logged.
\<close>

definition recover :: "'w Config \<Rightarrow> 'w storeService \<Rightarrow> Item \<Rightarrow> ('w, unit) op" where
  "recover c s item =
     andthen (ns_GetNodeWithBiggerExpiry (c_NaSe c) (iKeygroup item)) (\<lambda>(node, addr).
       if addr = [] then ret ()
       else andthen (attempt (cl_SendGetItem (c_Client c) addr (iKeygroup item) (iID item))
                       (\<lambda>_. ret emptyItem) ret) (\<lambda>item'.
            andthen (attempt (ns_GetExpiry (c_NaSe c) (iKeygroup item')) (\<lambda>_. ret 0) ret) (\<lambda>expiry.
            attempt (ss_update s item' False expiry) (\<lambda>_. ret ()) ret)))"

definition register :: "'w Config \<Rightarrow> ('w, unit) op" where
  "register c =
     attempt
       (if c_PeeringHostProxy c \<noteq> [] \<and> c_PeeringHost c \<noteq> c_PeeringHostProxy c
        then ns_RegisterSelf (c_NaSe c) (c_PeeringHostProxy c) (c_ExternalHostProxy c)
        else ns_RegisterSelf (c_NaSe c) (c_PeeringHost c) (c_ExternalHost c))
       (\<lambda>_. panic) ret"

text \<open>The services and handlers that \<^verbatim>\<open>New\<close> builds.\<close>

definition services :: "'w Config \<Rightarrow> 'w Fred" where
  "services c =
     (let s = newStoreService (c_Store c);
          r = newReplicationService s (c_Client c) (c_NaSe c);
          t = \<lparr>t_tc = c_Trigger c, t_s = s\<rparr>;
          a = newAuthService (c_range c) (c_NaSe c) in
      \<lparr>F_E = newExthandler s r t a (c_NaSe c), F_I = newInthandler s r t (c_NaSe c)\<rparr>)"

definition New :: "'w Config \<Rightarrow> ('w, 'w Fred) op" where
  "New c =
     andthen (register c) (\<lambda>_.
     andthen (ns_RequestNodeStatus (c_NaSe c) (ns_GetNodeID (c_NaSe c))) (\<lambda>missedItems.
     andthen (foreach (recover c (newStoreService (c_Store c))) missedItems) (\<lambda>_.
     ret (services c))))"

end
