(* ===== verification/Api_Server.thy ===== *)
theory Api_Server
  imports Handlers
begin

text \<open>
  pkg/api/api.go: the gRPC server of the client interface. Every method first establishes the user
  from the connection (\<^verbatim>\<open>CheckCert\<close>) and then calls the external handler for that user.

  The context of a call is an abstract value: \<open>grpc_ctx\<close> holds what the gRPC library reads from and
  puts into it. Verifying a certificate against a pool of roots is the function \<open>pool\<close>, which gets
  the certificate and the DNS name to check (none when it is empty) and returns the error, if any.
\<close>

section \<open>Splitting an address (net.SplitHostPort)\<close>

fun index_of :: "char \<Rightarrow> string \<Rightarrow> nat option" where
  "index_of c [] = None"
| "index_of c (x # xs) = (if x = c then Some 0 else map_option Suc (index_of c xs))"

definition last_index :: "char \<Rightarrow> string \<Rightarrow> nat option" where
  "last_index c s = map_option (\<lambda>k. length s - 1 - k) (index_of c (rev s))"

definition addrErr :: "string \<Rightarrow> string \<Rightarrow> 'a result" where
  "addrErr addr why = Err (Raw (''address '' @ addr @ '': '' @ why))"

text \<open>The host of an address, in brackets or not, and the rest of the checks with it.\<close>

definition split_checked :: "string \<Rightarrow> string \<Rightarrow> nat \<Rightarrow> nat \<Rightarrow> nat \<Rightarrow> (string \<times> string) result" where
  "split_checked hostport host i j k =
     (if index_of (CHR ''['') (drop j hostport) \<noteq> None then addrErr hostport ''unexpected '[' in address''
      else if index_of (CHR '']'') (drop k hostport) \<noteq> None then addrErr hostport ''unexpected ']' in address''
      else Ok (host, drop (i + 1) hostport))"

definition SplitHostPort :: "string \<Rightarrow> (string \<times> string) result" where
  "SplitHostPort hostport =
     (case last_index (CHR '':'') hostport of
        None \<Rightarrow> addrErr hostport ''missing port in address''
      | Some i \<Rightarrow>
          if hostport \<noteq> [] \<and> hd hostport = CHR ''['' then
            (case index_of (CHR '']'') hostport of
               None \<Rightarrow> addrErr hostport ''missing ']' in address''
             | Some e \<Rightarrow>
                 if e + 1 = length hostport then addrErr hostport ''missing port in address''
                 else if e + 1 = i then split_checked hostport (drop 1 (take e hostport)) i 1 (e + 1)
                 else if hostport ! (e + 1) = CHR '':'' then addrErr hostport ''too many colons in address''
                 else addrErr hostport ''missing port in address'')
          else if index_of (CHR '':'') (take i hostport) \<noteq> None
            then addrErr hostport ''too many colons in address''
          else split_checked hostport (take i hostport) i 0 0)"

section \<open>Who is calling\<close>

record cert =
  CommonName :: string
  serial :: nat

datatype authInfo = TLSInfo "cert list list" | OtherAuth

record peer =
  p_Addr :: string
  p_AuthInfo :: authInfo

type_synonym pool = "cert \<Rightarrow> string \<Rightarrow> error option"

record ('c, 'md) grpc_ctx =
  peer_FromContext :: "'c \<Rightarrow> peer option"
  FromIncomingContext :: "'c \<Rightarrow> 'md option"
  NewOutgoingContext :: "'c \<Rightarrow> 'md \<Rightarrow> 'c"
  md_Get :: "'md \<Rightarrow> string \<Rightarrow> string list"
  md_Copy :: "'md \<Rightarrow> 'md"
  md_Set :: "'md \<Rightarrow> string \<Rightarrow> string \<Rightarrow> 'md"

record ('w, 'c, 'md) ApiServer =
  s_e :: "'w exthandler"
  s_roots :: pool
  s_isProxied :: bool
  s_proxyHost :: string
  s_proxyPort :: string
  s_grpc :: "('c, 'md) grpc_ctx"

text \<open>
  \<^verbatim>\<open>Roles\<close>: a \<^verbatim>\<open>client.UserRole\<close> is an \<^verbatim>\<open>int32\<close> with five named values; a lookup of any other value
  yields the empty role.
\<close>

definition Roles :: "int \<Rightarrow> Role" where
  "Roles r =
     (if r = 0 then ReadKeygroup else if r = 1 then WriteKeygroup else if r = 2 then ConfigureReplica
      else if r = 3 then ConfigureTrigger else if r = 4 then ConfigureKeygroups else [])"

definition errorf :: "string \<Rightarrow> 'a result" where
  "errorf msg = Err (Wrapped msg)"

text \<open>
  The peer and the leaf certificate of its first verified chain; \<open>mk\<close> is how the caller makes an
  error of a message (\<^verbatim>\<open>errors.Errorf\<close> or \<^verbatim>\<open>fmt.Errorf\<close>).
\<close>

definition peer_cert :: "(string \<Rightarrow> error) \<Rightarrow> ('c, 'md) grpc_ctx \<Rightarrow> 'c \<Rightarrow> (peer \<times> cert) result" where
  "peer_cert mk g ctx =
     (case peer_FromContext g ctx of
        None \<Rightarrow> Err (mk ''no peer found'')
      | Some p \<Rightarrow>
          (case p_AuthInfo p of
             OtherAuth \<Rightarrow> Err (mk ''unexpected peer transport credentials'')
           | TLSInfo vchains \<Rightarrow>
               if vchains = [] \<or> hd vchains = [] then Err (mk ''could not verify peer certificate'')
               else Ok (p, hd (hd vchains))))"

definition CheckCert :: "('w, 'c, 'md) ApiServer \<Rightarrow> 'c \<Rightarrow> string result" where
  "CheckCert s ctx =
     (case peer_cert Wrapped (s_grpc s) ctx of Err e \<Rightarrow> Err e | Panic \<Rightarrow> Panic | Ok (p, crt) \<Rightarrow>
       (case SplitHostPort (p_Addr p) of Err e \<Rightarrow> Err (errors_New e) | Panic \<Rightarrow> Panic | Ok (host, _) \<Rightarrow>
          if \<not> s_isProxied s then
            (case s_roots s crt host of
               Some e \<Rightarrow> Err (errors_New e)
             | None \<Rightarrow>
                 if CommonName crt = [] then errorf ''invalid subject common name''
                 else Ok (CommonName crt))
          else if host \<noteq> s_proxyHost s then
            errorf (''node is proxied but got request not from proxy ('' @ host @ '' instead of '' @ s_proxyHost s @ '')'')
          else
            (case s_roots s crt [] of
               Some e \<Rightarrow> Err (errors_New e)
             | None \<Rightarrow>
                 (case FromIncomingContext (s_grpc s) ctx of
                    None \<Rightarrow> errorf ''no metadata could be found for proxied request''
                  | Some md \<Rightarrow>
                      (case md_Get (s_grpc s) md ''user'' of
                         [u] \<Rightarrow> Ok u
                       | _ \<Rightarrow> errorf ''invalid user header for proxied request'')))))"

section \<open>The methods\<close>

datatype EnumStatus = EnumStatus_OK | EnumStatus_ERROR

record StatusResponse =
  Status :: EnumStatus
  ErrorMessage :: string

text \<open>The response of a method that ends with an error is not transmitted: the error is.\<close>

definition statusResponseFromError :: "error option \<Rightarrow> ('w, StatusResponse) op" where
  "statusResponseFromError err =
     (case err of None \<Rightarrow> ret \<lparr>Status = EnumStatus_OK, ErrorMessage = []\<rparr> | Some e \<Rightarrow> fail e)"

definition status :: "('w, unit) op \<Rightarrow> ('w, StatusResponse) op" where
  "status m = attempt m (\<lambda>e. statusResponseFromError (Some e)) (\<lambda>_. statusResponseFromError None)"

definition with_user ::
  "('w, 'c, 'md) ApiServer \<Rightarrow> 'c \<Rightarrow> (string \<Rightarrow> ('w, 'a) op) \<Rightarrow> ('w, 'a) op" where
  "with_user s ctx f = andthen (of_result (CheckCert s ctx)) f"

definition api_CreateKeygroup ::
  "('w, 'c, 'md) ApiServer \<Rightarrow> 'c \<Rightarrow> string \<Rightarrow> bool \<Rightarrow> int \<Rightarrow> ('w, StatusResponse) op" where
  "api_CreateKeygroup s ctx kg mut expiry = with_user s ctx (\<lambda>user.
     status (HandleCreateKeygroup (s_e s) user \<lparr>Name = kg, Mutable = mut, Expiry = expiry\<rparr>))"

definition api_DeleteKeygroup ::
  "('w, 'c, 'md) ApiServer \<Rightarrow> 'c \<Rightarrow> string \<Rightarrow> ('w, StatusResponse) op" where
  "api_DeleteKeygroup s ctx kg = with_user s ctx (\<lambda>user.
     status (HandleDeleteKeygroup (s_e s) user \<lparr>Name = kg, Mutable = False, Expiry = 0\<rparr>))"

definition api_Read :: "('w, 'c, 'md) ApiServer \<Rightarrow> 'c \<Rightarrow> string \<Rightarrow> string \<Rightarrow> ('w, string) op" where
  "api_Read s ctx kg i = with_user s ctx (\<lambda>user.
     andthen (HandleRead (s_e s) user \<lparr>iKeygroup = kg, iID = i, iVal = []\<rparr>) (\<lambda>res. ret (iVal res)))"

definition api_Scan ::
  "('w, 'c, 'md) ApiServer \<Rightarrow> 'c \<Rightarrow> string \<Rightarrow> string \<Rightarrow> 64 word \<Rightarrow> ('w, (string \<times> string) list) op" where
  "api_Scan s ctx kg i cnt = with_user s ctx (\<lambda>user.
     andthen (HandleScan (s_e s) user \<lparr>iKeygroup = kg, iID = i, iVal = []\<rparr> cnt)
       (\<lambda>res. ret (map (\<lambda>it. (iID it, iVal it)) res)))"

definition api_Append :: "('w, 'c, 'md) ApiServer \<Rightarrow> 'c \<Rightarrow> string \<Rightarrow> string \<Rightarrow> ('w, string) op" where
  "api_Append s ctx kg data = with_user s ctx (\<lambda>user.
     andthen (HandleAppend (s_e s) user \<lparr>iKeygroup = kg, iID = [], iVal = data\<rparr>) (\<lambda>res. ret (iID res)))"

definition api_Update ::
  "('w, 'c, 'md) ApiServer \<Rightarrow> 'c \<Rightarrow> string \<Rightarrow> string \<Rightarrow> string \<Rightarrow> ('w, StatusResponse) op" where
  "api_Update s ctx kg i data = with_user s ctx (\<lambda>user.
     status (HandleUpdate (s_e s) user \<lparr>iKeygroup = kg, iID = i, iVal = data\<rparr>))"

definition api_Delete :: "('w, 'c, 'md) ApiServer \<Rightarrow> 'c \<Rightarrow> string \<Rightarrow> string \<Rightarrow> ('w, StatusResponse) op" where
  "api_Delete s ctx kg i = with_user s ctx (\<lambda>user.
     status (HandleDelete (s_e s) user \<lparr>iKeygroup = kg, iID = i, iVal = []\<rparr>))"

definition api_AddReplica ::
  "('w, 'c, 'md) ApiServer \<Rightarrow> 'c \<Rightarrow> string \<Rightarrow> string \<Rightarrow> int \<Rightarrow> ('w, StatusResponse) op" where
  "api_AddReplica s ctx kg n expiry = with_user s ctx (\<lambda>user.
     status (HandleAddReplica (s_e s) user \<lparr>Name = kg, Mutable = False, Expiry = expiry\<rparr> \<lparr>nID = n, nHost = []\<rparr>))"

definition api_GetKeygroupReplica ::
  "('w, 'c, 'md) ApiServer \<Rightarrow> 'c \<Rightarrow> string \<Rightarrow> ('w, (string \<times> int) list) op" where
  "api_GetKeygroupReplica s ctx kg = with_user s ctx (\<lambda>user.
     andthen (HandleGetKeygroupReplica (s_e s) user \<lparr>Name = kg, Mutable = False, Expiry = 0\<rparr>)
       (\<lambda>(n, e). ret (map (\<lambda>nd. (nID nd, case map_of e (nID nd) of Some x \<Rightarrow> x | None \<Rightarrow> 0)) n)))"

definition api_RemoveReplica ::
  "('w, 'c, 'md) ApiServer \<Rightarrow> 'c \<Rightarrow> string \<Rightarrow> string \<Rightarrow> ('w, StatusResponse) op" where
  "api_RemoveReplica s ctx kg n = with_user s ctx (\<lambda>user.
     status (HandleRemoveReplica (s_e s) user \<lparr>Name = kg, Mutable = False, Expiry = 0\<rparr> \<lparr>nID = n, nHost = []\<rparr>))"

definition replicaResponseFromNode :: "Node \<Rightarrow> string \<times> string" where
  "replicaResponseFromNode n = (nID n, nHost n)"

definition api_GetReplica :: "('w, 'c, 'md) ApiServer \<Rightarrow> 'c \<Rightarrow> string \<Rightarrow> ('w, string \<times> string) op" where
  "api_GetReplica s ctx n = with_user s ctx (\<lambda>user.
     andthen (HandleGetReplica (s_e s) user \<lparr>nID = n, nHost = []\<rparr>)
       (\<lambda>res. ret (replicaResponseFromNode res)))"

definition api_GetAllReplica :: "('w, 'c, 'md) ApiServer \<Rightarrow> 'c \<Rightarrow> ('w, (string \<times> string) list) op" where
  "api_GetAllReplica s ctx = with_user s ctx (\<lambda>user.
     andthen (HandleGetAllReplica (s_e s) user) (\<lambda>res. ret (map replicaResponseFromNode res)))"

definition api_GetKeygroupTriggers ::
  "('w, 'c, 'md) ApiServer \<Rightarrow> 'c \<Rightarrow> string \<Rightarrow> ('w, (string \<times> string) list) op" where
  "api_GetKeygroupTriggers s ctx kg = with_user s ctx (\<lambda>user.
     andthen (HandleGetKeygroupTriggers (s_e s) user \<lparr>Name = kg, Mutable = False, Expiry = 0\<rparr>)
       (\<lambda>res. ret (map (\<lambda>t. (tID t, tHost t)) res)))"

definition api_AddTrigger ::
  "('w, 'c, 'md) ApiServer \<Rightarrow> 'c \<Rightarrow> string \<Rightarrow> string \<Rightarrow> string \<Rightarrow> ('w, StatusResponse) op" where
  "api_AddTrigger s ctx kg t h = with_user s ctx (\<lambda>user.
     status (HandleAddTrigger (s_e s) user \<lparr>Name = kg, Mutable = False, Expiry = 0\<rparr> \<lparr>tID = t, tHost = h\<rparr>))"

definition api_RemoveTrigger ::
  "('w, 'c, 'md) ApiServer \<Rightarrow> 'c \<Rightarrow> string \<Rightarrow> string \<Rightarrow> ('w, StatusResponse) op" where
  "api_RemoveTrigger s ctx kg t = with_user s ctx (\<lambda>user.
     status (HandleRemoveTrigger (s_e s) user \<lparr>Name = kg, Mutable = False, Expiry = 0\<rparr> \<lparr>tID = t, tHost = []\<rparr>))"

definition api_AddUser ::
  "('w, 'c, 'md) ApiServer \<Rightarrow> 'c \<Rightarrow> string \<Rightarrow> string \<Rightarrow> int \<Rightarrow> ('w, StatusResponse) op" where
  "api_AddUser s ctx newuser kg role = with_user s ctx (\<lambda>user.
     status (HandleAddUser (s_e s) user newuser \<lparr>Name = kg, Mutable = False, Expiry = 0\<rparr> (Roles role)))"

definition api_RemoveUser ::
  "('w, 'c, 'md) ApiServer \<Rightarrow> 'c \<Rightarrow> string \<Rightarrow> string \<Rightarrow> int \<Rightarrow> ('w, StatusResponse) op" where
  "api_RemoveUser s ctx newuser kg role = with_user s ctx (\<lambda>user.
     status (HandleRemoveUser (s_e s) user newuser \<lparr>Name = kg, Mutable = False, Expiry = 0\<rparr> (Roles role)))"

section \<open>Requests as messages\<close>

text \<open>
  The messages of the service, with the fields of their protocol buffers, and the dispatch that the
  generated code makes of a received message to the method of the server.
\<close>

datatype client_request =
    CreateKeygroupRequest string bool int
  | DeleteKeygroupRequest string
  | ReadRequest string string
  | ScanRequest string string "64 word"
  | AppendRequest string string
  | UpdateRequest string string string
  | DeleteRequest string string
  | AddReplicaRequest string string int
  | GetKeygroupReplicaRequest string
  | RemoveReplicaRequest string string
  | GetReplicaRequest string
  | GetAllReplicaRequest
  | GetKeygroupTriggerRequest string
  | AddTriggerRequest string string string
  | RemoveTriggerRequest string string
  | AddUserRequest string string int
  | RemoveUserRequest string string int

datatype client_response =
    StatusMsg StatusResponse
  | DataMsg string
  | PairsMsg "(string \<times> string) list"
  | ReplicasMsg "(string \<times> int) list"
  | NodeMsg "string \<times> string"

definition reply :: "('a \<Rightarrow> client_response) \<Rightarrow> ('w, 'a) op \<Rightarrow> ('w, client_response) op" where
  "reply f m = andthen m (\<lambda>x. ret (f x))"

fun serve :: "('w, 'c, 'md) ApiServer \<Rightarrow> 'c \<Rightarrow> client_request \<Rightarrow> ('w, client_response) op" where
  "serve s ctx (CreateKeygroupRequest kg mut x) = reply StatusMsg (api_CreateKeygroup s ctx kg mut x)"
| "serve s ctx (DeleteKeygroupRequest kg) = reply StatusMsg (api_DeleteKeygroup s ctx kg)"
| "serve s ctx (ReadRequest kg i) = reply DataMsg (api_Read s ctx kg i)"
| "serve s ctx (ScanRequest kg i n) = reply PairsMsg (api_Scan s ctx kg i n)"
| "serve s ctx (AppendRequest kg d) = reply DataMsg (api_Append s ctx kg d)"
| "serve s ctx (UpdateRequest kg i d) = reply StatusMsg (api_Update s ctx kg i d)"
| "serve s ctx (DeleteRequest kg i) = reply StatusMsg (api_Delete s ctx kg i)"
| "serve s ctx (AddReplicaRequest kg n x) = reply StatusMsg (api_AddReplica s ctx kg n x)"
| "serve s ctx (GetKeygroupReplicaRequest kg) = reply ReplicasMsg (api_GetKeygroupReplica s ctx kg)"
| "serve s ctx (RemoveReplicaRequest kg n) = reply StatusMsg (api_RemoveReplica s ctx kg n)"
| "serve s ctx (GetReplicaRequest n) = reply NodeMsg (api_GetReplica s ctx n)"
| "serve s ctx GetAllReplicaRequest = reply PairsMsg (api_GetAllReplica s ctx)"
| "serve s ctx (GetKeygroupTriggerRequest kg) = reply PairsMsg (api_GetKeygroupTriggers s ctx kg)"
| "serve s ctx (AddTriggerRequest kg t h) = reply StatusMsg (api_AddTrigger s ctx kg t h)"
| "serve s ctx (RemoveTriggerRequest kg t) = reply StatusMsg (api_RemoveTrigger s ctx kg t)"
| "serve s ctx (AddUserRequest u kg r) = reply StatusMsg (api_AddUser s ctx u kg r)"
| "serve s ctx (RemoveUserRequest u kg r) = reply StatusMsg (api_RemoveUser s ctx u kg r)"

text \<open>What a request means to the external handler, once the user is known.\<close>

abbreviation on_kg :: "string \<Rightarrow> int \<Rightarrow> Keygroup" where
  "on_kg kg x \<equiv> \<lparr>Name = kg, Mutable = False, Expiry = x\<rparr>"

fun answer :: "'w exthandler \<Rightarrow> string \<Rightarrow> client_request \<Rightarrow> ('w, client_response) op" where
  "answer e u (CreateKeygroupRequest kg mut x) =
     reply StatusMsg (status (HandleCreateKeygroup e u \<lparr>Name = kg, Mutable = mut, Expiry = x\<rparr>))"
| "answer e u (DeleteKeygroupRequest kg) = reply StatusMsg (status (HandleDeleteKeygroup e u (on_kg kg 0)))"
| "answer e u (ReadRequest kg i) =
     reply (\<lambda>res. DataMsg (iVal res)) (HandleRead e u \<lparr>iKeygroup = kg, iID = i, iVal = []\<rparr>)"
| "answer e u (ScanRequest kg i n) = reply (\<lambda>res. PairsMsg (map (\<lambda>it. (iID it, iVal it)) res))
     (HandleScan e u \<lparr>iKeygroup = kg, iID = i, iVal = []\<rparr> n)"
| "answer e u (AppendRequest kg d) =
     reply (\<lambda>res. DataMsg (iID res)) (HandleAppend e u \<lparr>iKeygroup = kg, iID = [], iVal = d\<rparr>)"
| "answer e u (UpdateRequest kg i d) =
     reply StatusMsg (status (HandleUpdate e u \<lparr>iKeygroup = kg, iID = i, iVal = d\<rparr>))"
| "answer e u (DeleteRequest kg i) =
     reply StatusMsg (status (HandleDelete e u \<lparr>iKeygroup = kg, iID = i, iVal = []\<rparr>))"
| "answer e u (AddReplicaRequest kg n x) =
     reply StatusMsg (status (HandleAddReplica e u (on_kg kg x) \<lparr>nID = n, nHost = []\<rparr>))"
| "answer e u (GetKeygroupReplicaRequest kg) =
     reply (\<lambda>(n, ex). ReplicasMsg
         (map (\<lambda>nd. (nID nd, case map_of ex (nID nd) of Some x \<Rightarrow> x | None \<Rightarrow> 0)) n))
       (HandleGetKeygroupReplica e u (on_kg kg 0))"
| "answer e u (RemoveReplicaRequest kg n) =
     reply StatusMsg (status (HandleRemoveReplica e u (on_kg kg 0) \<lparr>nID = n, nHost = []\<rparr>))"
| "answer e u (GetReplicaRequest n) =
     reply (\<lambda>res. NodeMsg (nID res, nHost res)) (HandleGetReplica e u \<lparr>nID = n, nHost = []\<rparr>)"
| "answer e u GetAllReplicaRequest =
     reply (\<lambda>res. PairsMsg (map (\<lambda>n. (nID n, nHost n)) res)) (HandleGetAllReplica e u)"
| "answer e u (GetKeygroupTriggerRequest kg) =
     reply (\<lambda>res. PairsMsg (map (\<lambda>t. (tID t, tHost t)) res)) (HandleGetKeygroupTriggers e u (on_kg kg 0))"
| "answer e u (AddTriggerRequest kg t h) =
     reply StatusMsg (status (HandleAddTrigger e u (on_kg kg 0) \<lparr>tID = t, tHost = h\<rparr>))"
| "answer e u (RemoveTriggerRequest kg t) =
     reply StatusMsg (status (HandleRemoveTrigger e u (on_kg kg 0) \<lparr>tID = t, tHost = []\<rparr>))"
| "answer e u (AddUserRequest v kg r) = reply StatusMsg (status (HandleAddUser e u v (on_kg kg 0) (Roles r)))"
| "answer e u (RemoveUserRequest v kg r) =
     reply StatusMsg (status (HandleRemoveUser e u v (on_kg kg 0) (Roles r)))"

section \<open>Facts\<close>

lemma index_of_None: "index_of c s = None \<longleftrightarrow> c \<notin> set s"
  by (induction s) auto

lemma index_of_append: "c \<notin> set s \<Longrightarrow> index_of c (s @ c # t) = Some (length s)"
  by (induction s) auto

text \<open>An address that \<^verbatim>\<open>fmt.Sprintf("%s:%d", host, port)\<close> or the network prints is split again.\<close>

lemma SplitHostPort_join:
  assumes "CHR '':'' \<notin> set h" "CHR '':'' \<notin> set p"
    and "CHR ''['' \<notin> set h \<union> set p" "CHR '']'' \<notin> set h \<union> set p"
  shows "SplitHostPort (h @ CHR '':'' # p) = Ok (h, p)"
proof -
  have "last_index (CHR '':'') (h @ CHR '':'' # p) = Some (length h)"
    using index_of_append [of "CHR '':''" "rev p" "rev h"] assms(2) by (simp add: last_index_def)
  moreover have "hd (h @ CHR '':'' # p) \<noteq> CHR ''[''" using assms(3) by (cases h) auto
  ultimately show ?thesis using assms
    by (simp add: SplitHostPort_def split_checked_def index_of_None)
qed

lemma SplitHostPort_no_Panic: "SplitHostPort a \<noteq> Panic"
  unfolding SplitHostPort_def split_checked_def addrErr_def by (simp split: option.split)

lemma peer_cert_no_Panic: "peer_cert mk g ctx \<noteq> Panic"
  unfolding peer_cert_def by (simp split: option.split authInfo.split)

lemma CheckCert_no_Panic: "CheckCert s ctx \<noteq> Panic"
  using SplitHostPort_no_Panic peer_cert_no_Panic [of Wrapped "s_grpc s" ctx]
  by (simp add: CheckCert_def errorf_def split: option.split result.split list.split prod.split)

lemma with_user_runs [simp]:
  "CheckCert s ctx = Ok u \<Longrightarrow> with_user s ctx f = f u"
  "CheckCert s ctx = Err e \<Longrightarrow> with_user s ctx f w = (Err e, w)"
  by (auto simp: with_user_def op_defs of_result_def fun_eq_iff split: prod.splits result.splits)

lemmas api_defs = api_CreateKeygroup_def api_DeleteKeygroup_def api_Read_def api_Scan_def api_Append_def
  api_Update_def api_Delete_def api_AddReplica_def api_GetKeygroupReplica_def api_RemoveReplica_def
  api_GetReplica_def api_GetAllReplica_def api_GetKeygroupTriggers_def api_AddTrigger_def
  api_RemoveTrigger_def api_AddUser_def api_RemoveUser_def

text \<open>Without a verified user a request is answered with an error and has no effect.\<close>

lemma serve_refused: "CheckCert s ctx = Err e \<Longrightarrow> serve s ctx q w = (Err e, w)"
  by (cases q) (simp_all add: api_defs reply_def)

lemma reply_reply: "reply f (andthen m (\<lambda>x. ret (g x))) = reply (\<lambda>x. f (g x)) m"
  by (rule ext) (simp add: reply_def op_defs split: prod.split result.split)

lemma serve_verified: "CheckCert s ctx = Ok u \<Longrightarrow> serve s ctx q = answer (s_e s) u q"
  by (cases q) (simp_all add: api_defs reply_reply replicaResponseFromNode_def [abs_def] case_prod_beta')

end
