(* ===== verification/Alexandra.thy ===== *)
theory Alexandra
  imports Api_Server
begin

text \<open>
  pkg/alexandra: the middleware in front of a FReD node. Every request goes to the node called the
  lighthouse, over a connection that is made once per host (fredclients.go). The messages of the
  middleware are those of the client interface; \<open>al_invoke\<close> calls the same method at the other end.
  \<open>CheckCert\<close> is there as in pkg/api, but no method of the server calls it.
\<close>

section \<open>Connections to nodes (fredclients.go)\<close>

text \<open>
  \<open>cm_clients\<close> and \<open>cm_set_clients\<close> are the map of clients in the world; \<open>cm_Dial\<close> loads the
  certificates and dials, whose failure ends the process.
\<close>

record 'w ClientsMgr =
  cm_clients :: "'w \<Rightarrow> (string \<times> nat) list"
  cm_set_clients :: "(string \<times> nat) list \<Rightarrow> 'w \<Rightarrow> 'w"
  cm_Dial :: "string \<Rightarrow> ('w, nat) op"

definition newClient :: "'w ClientsMgr \<Rightarrow> string \<Rightarrow> ('w, nat) op" where
  "newClient m host = attempt (cm_Dial m host) (\<lambda>_. panic) ret"

definition GetClientTo :: "'w ClientsMgr \<Rightarrow> string \<Rightarrow> ('w, nat) op" where
  "GetClientTo m host =
     andthen (gets (cm_clients m)) (\<lambda>clients.
       case map_of clients host of
         Some client \<Rightarrow> ret client
       | None \<Rightarrow>
           andthen (newClient m host) (\<lambda>client.
           andthen (modify (\<lambda>w. cm_set_clients m (map_put host client (cm_clients m w)) w)) (\<lambda>_.
           ret client)))"

section \<open>The server\<close>

record ('w, 'c, 'md) AlexandraServer =
  al_roots :: pool
  al_isProxied :: bool
  al_proxyHost :: string
  al_clientsMgr :: "'w ClientsMgr"
  al_lighthouse :: string
  al_grpc :: "('c, 'md) grpc_ctx"
  al_invoke :: "nat \<Rightarrow> 'c \<Rightarrow> client_request \<Rightarrow> ('w, client_response) op"

definition al_CheckCert :: "('w, 'c, 'md) AlexandraServer \<Rightarrow> 'c \<Rightarrow> string result" where
  "al_CheckCert s ctx =
     (case peer_cert Wrapped (al_grpc s) ctx of Err e \<Rightarrow> Err e | Panic \<Rightarrow> Panic | Ok (p, crt) \<Rightarrow>
       (case SplitHostPort (p_Addr p) of Err e \<Rightarrow> Err (errors_New e) | Panic \<Rightarrow> Panic | Ok (host, _) \<Rightarrow>
         (case al_roots s crt (if al_isProxied s then [] else host) of
            Some e \<Rightarrow> Err (errors_New e)
          | None \<Rightarrow>
              if CommonName crt = [] then errorf ''invalid subject common name''
              else Ok (CommonName crt))))"

text \<open>Each method: the client for the lighthouse and the same request, with the caller's context.\<close>

definition al_forward ::
  "('w, 'c, 'md) AlexandraServer \<Rightarrow> 'c \<Rightarrow> client_request \<Rightarrow> ('w, client_response) op" where
  "al_forward s ctx req =
     andthen (GetClientTo (al_clientsMgr s) (al_lighthouse s)) (\<lambda>client. al_invoke s client ctx req)"

definition al_Read :: "('w, 'c, 'md) AlexandraServer \<Rightarrow> 'c \<Rightarrow> string \<Rightarrow> string \<Rightarrow> ('w, client_response) op" where
  "al_Read s ctx kg i = al_forward s ctx (ReadRequest kg i)"

definition al_Scan ::
  "('w, 'c, 'md) AlexandraServer \<Rightarrow> 'c \<Rightarrow> string \<Rightarrow> string \<Rightarrow> 64 word \<Rightarrow> ('w, client_response) op" where
  "al_Scan s ctx kg i n = al_forward s ctx (ScanRequest kg i n)"

definition al_Update ::
  "('w, 'c, 'md) AlexandraServer \<Rightarrow> 'c \<Rightarrow> string \<Rightarrow> string \<Rightarrow> string \<Rightarrow> ('w, client_response) op" where
  "al_Update s ctx kg i d = al_forward s ctx (UpdateRequest kg i d)"

definition al_Delete :: "('w, 'c, 'md) AlexandraServer \<Rightarrow> 'c \<Rightarrow> string \<Rightarrow> string \<Rightarrow> ('w, client_response) op" where
  "al_Delete s ctx kg i = al_forward s ctx (DeleteRequest kg i)"

definition al_Append :: "('w, 'c, 'md) AlexandraServer \<Rightarrow> 'c \<Rightarrow> string \<Rightarrow> string \<Rightarrow> ('w, client_response) op" where
  "al_Append s ctx kg d = al_forward s ctx (AppendRequest kg d)"

definition al_CreateKeygroup ::
  "('w, 'c, 'md) AlexandraServer \<Rightarrow> 'c \<Rightarrow> string \<Rightarrow> bool \<Rightarrow> int \<Rightarrow> ('w, client_response) op" where
  "al_CreateKeygroup s ctx kg mut x = al_forward s ctx (CreateKeygroupRequest kg mut x)"

definition al_DeleteKeygroup :: "('w, 'c, 'md) AlexandraServer \<Rightarrow> 'c \<Rightarrow> string \<Rightarrow> ('w, client_response) op" where
  "al_DeleteKeygroup s ctx kg = al_forward s ctx (DeleteKeygroupRequest kg)"

definition al_AddReplica ::
  "('w, 'c, 'md) AlexandraServer \<Rightarrow> 'c \<Rightarrow> string \<Rightarrow> string \<Rightarrow> int \<Rightarrow> ('w, client_response) op" where
  "al_AddReplica s ctx kg n x = al_forward s ctx (AddReplicaRequest kg n x)"

definition al_RemoveReplica ::
  "('w, 'c, 'md) AlexandraServer \<Rightarrow> 'c \<Rightarrow> string \<Rightarrow> string \<Rightarrow> ('w, client_response) op" where
  "al_RemoveReplica s ctx kg n = al_forward s ctx (RemoveReplicaRequest kg n)"

definition al_GetReplica :: "('w, 'c, 'md) AlexandraServer \<Rightarrow> 'c \<Rightarrow> string \<Rightarrow> ('w, client_response) op" where
  "al_GetReplica s ctx n = al_forward s ctx (GetReplicaRequest n)"

definition al_GetAllReplica :: "('w, 'c, 'md) AlexandraServer \<Rightarrow> 'c \<Rightarrow> ('w, client_response) op" where
  "al_GetAllReplica s ctx = al_forward s ctx GetAllReplicaRequest"

definition al_GetKeygroupReplica :: "('w, 'c, 'md) AlexandraServer \<Rightarrow> 'c \<Rightarrow> string \<Rightarrow> ('w, client_response) op" where
  "al_GetKeygroupReplica s ctx kg = al_forward s ctx (GetKeygroupReplicaRequest kg)"

definition al_GetKeygroupTriggers :: "('w, 'c, 'md) AlexandraServer \<Rightarrow> 'c \<Rightarrow> string \<Rightarrow> ('w, client_response) op" where
  "al_GetKeygroupTriggers s ctx kg = al_forward s ctx (GetKeygroupTriggerRequest kg)"

definition al_AddTrigger ::
  "('w, 'c, 'md) AlexandraServer \<Rightarrow> 'c \<Rightarrow> string \<Rightarrow> string \<Rightarrow> string \<Rightarrow> ('w, client_response) op" where
  "al_AddTrigger s ctx kg t h = al_forward s ctx (AddTriggerRequest kg t h)"

definition al_RemoveTrigger ::
  "('w, 'c, 'md) AlexandraServer \<Rightarrow> 'c \<Rightarrow> string \<Rightarrow> string \<Rightarrow> ('w, client_response) op" where
  "al_RemoveTrigger s ctx kg t = al_forward s ctx (RemoveTriggerRequest kg t)"

definition al_AddUser ::
  "('w, 'c, 'md) AlexandraServer \<Rightarrow> 'c \<Rightarrow> string \<Rightarrow> string \<Rightarrow> int \<Rightarrow> ('w, client_response) op" where
  "al_AddUser s ctx u kg r = al_forward s ctx (AddUserRequest u kg r)"

definition al_RemoveUser ::
  "('w, 'c, 'md) AlexandraServer \<Rightarrow> 'c \<Rightarrow> string \<Rightarrow> string \<Rightarrow> int \<Rightarrow> ('w, client_response) op" where
  "al_RemoveUser s ctx u kg r = al_forward s ctx (RemoveUserRequest u kg r)"

section \<open>One connection per node\<close>

text \<open>
  The first request dials and remembers the connection; every later one uses it, without dialling,
  as long as the world keeps the map.
\<close>

lemma GetClientTo_cached: "map_of (cm_clients m w) host = Some c \<Longrightarrow> GetClientTo m host w = (Ok c, w)"
  by (simp add: GetClientTo_def op_runs)

lemma GetClientTo_stores:
  assumes "\<And>cs w. cm_clients m (cm_set_clients m cs w) = cs" "GetClientTo m host w = (Ok c, w')"
  shows "map_of (cm_clients m w') host = Some c"
proof (cases "map_of (cm_clients m w) host")
  case None
  with assms show ?thesis
    by (auto simp: GetClientTo_def op_runs map_of_map_put elim!: andthen_OkE)
next
  case (Some d)
  with assms(2) show ?thesis by (simp add: GetClientTo_cached)
qed

lemma al_forward_cached:
  "map_of (cm_clients (al_clientsMgr s) w) (al_lighthouse s) = Some c \<Longrightarrow>
   al_forward s ctx q w = al_invoke s c ctx q w"
  by (simp add: al_forward_def GetClientTo_cached)

text \<open>A certificate that the middleware would accept names its client.\<close>

lemma al_CheckCert_named: "al_CheckCert s ctx = Ok u \<Longrightarrow> u \<noteq> [] \<and>
    (\<exists>p crt. peer_cert Wrapped (al_grpc s) ctx = Ok (p, crt) \<and> CommonName crt = u)"
  by (auto simp: al_CheckCert_def errorf_def split: option.splits result.splits prod.splits if_splits)

end
