(* ===== verification/Etcd_Nase.thy ===== *)
theory Etcd_Nase
  imports Fred_Types
begin

text \<open>
  pkg/etcdnase: the naming service on top of etcd. It keeps, for all nodes, the keygroups
  (status, mutability, expiry per replica, members), the addresses of the nodes, the
  permissions of the users and the updates that a failed node missed. The etcd client and the
  local cache are parameters: records of the calls the code makes, over an abstract world.
\<close>

section \<open>State and library parameters\<close>

text \<open>A cached value is a string (\<^verbatim>\<open>getExact\<close>) or a map (\<^verbatim>\<open>getPrefix\<close>).\<close>

datatype cval = CStr string | CMap "(string \<times> string) list"

text \<open>
  The calls on the etcd client: \<^verbatim>\<open>Get(key)\<close> and \<^verbatim>\<open>Get(prefix, WithPrefix, WithSort)\<close> give the
  matching key-value pairs, \<^verbatim>\<open>Put\<close>, \<^verbatim>\<open>Delete\<close> and \<^verbatim>\<open>Delete(prefix, WithPrefix)\<close> change them. The calls
  on the cache; \<open>c_Watch\<close> starts the goroutine that waits for a change of a key or a prefix.
\<close>

record 'w etcd =
  e_Get :: "string \<Rightarrow> ('w, (string \<times> string) list) op"
  e_GetPrefix :: "string \<Rightarrow> ('w, (string \<times> string) list) op"
  e_Put :: "string \<Rightarrow> string \<Rightarrow> ('w, unit) op"
  e_Delete :: "string \<Rightarrow> ('w, unit) op"
  e_DeletePrefix :: "string \<Rightarrow> ('w, unit) op"
  c_Get :: "string \<Rightarrow> ('w, cval option) op"
  c_Set :: "string \<Rightarrow> cval \<Rightarrow> ('w, unit) op"
  c_Del :: "string \<Rightarrow> ('w, unit) op"
  c_Watch :: "string \<Rightarrow> bool \<Rightarrow> ('w, unit) op"
  e_range :: order

record 'w EtcdNase =
  cli :: "'w etcd"
  cached :: bool
  n_NodeID :: string

definition fmtKgNodeStringPrefix :: "string \<Rightarrow> string" where
  "fmtKgNodeStringPrefix kg = ''kg|'' @ kg @ ''|node|''"

definition fmtKgStatusString :: "string \<Rightarrow> string" where
  "fmtKgStatusString kg = ''kg|'' @ kg @ ''|status''"

definition fmtKgMutableString :: "string \<Rightarrow> string" where
  "fmtKgMutableString kg = ''kg|'' @ kg @ ''|mutable''"

definition fmtKgExpiryStringPrefix :: "string \<Rightarrow> string" where
  "fmtKgExpiryStringPrefix kg = ''kg|'' @ kg @ ''|expiry|node|''"

definition fmtNodeAdressString :: "string \<Rightarrow> string" where
  "fmtNodeAdressString n = ''node|'' @ n @ ''|address''"

definition fmtNodeExternalAdressString :: "string \<Rightarrow> string" where
  "fmtNodeExternalAdressString n = ''node|'' @ n @ ''|extaddress''"

definition fmtUserPermissionStringPrefix :: "string \<Rightarrow> string \<Rightarrow> string" where
  "fmtUserPermissionStringPrefix u kg = ''user|'' @ u @ ''|kg|'' @ kg @ ''|method|''"

definition fmtFailedNodeKgStringPrefix :: "string \<Rightarrow> string \<Rightarrow> string" where
  "fmtFailedNodeKgStringPrefix n kg = ''failnode|'' @ n @ ''|kg|'' @ kg @ ''|''"

definition fmtFailedNodePrefix :: "string \<Rightarrow> string" where
  "fmtFailedNodePrefix n = ''failnode|'' @ n @ ''|''"

definition nodePrefixString :: string where
  "nodePrefixString = ''node|''"

section \<open>Access to etcd (helper.go)\<close>

text \<open>A cached value of the other kind makes the type assertion panic.\<close>

definition getPrefix :: "'w EtcdNase \<Rightarrow> string \<Rightarrow> ('w, (string \<times> string) list) op" where
  "getPrefix n pre =
     (let miss =
        andthen (wrap_err (e_GetPrefix (cli n) pre)) (\<lambda>kvs.
          let kv = foldl (\<lambda>m (k, v). map_put k v m) [] kvs in
          if cached n
          then andthen (c_Set (cli n) pre (CMap kv)) (\<lambda>_.
               andthen (c_Watch (cli n) pre True) (\<lambda>_. ret kv))
          else ret kv)
      in if cached n
         then andthen (c_Get (cli n) pre) (\<lambda>hit.
                case hit of
                  None \<Rightarrow> miss
                | Some (CMap kv) \<Rightarrow> ret kv
                | Some (CStr s) \<Rightarrow> panic)
         else miss)"

definition getExact :: "'w EtcdNase \<Rightarrow> string \<Rightarrow> ('w, string) op" where
  "getExact n key =
     (let miss =
        andthen (wrap_err (e_Get (cli n) key)) (\<lambda>kvs.
          let v = (case kvs of [] \<Rightarrow> [] | (k, x) # _ \<Rightarrow> x) in
          if cached n
          then andthen (c_Set (cli n) key (CStr v)) (\<lambda>_.
               andthen (c_Watch (cli n) key False) (\<lambda>_. ret v))
          else ret v)
      in if cached n
         then andthen (c_Get (cli n) key) (\<lambda>hit.
                case hit of
                  None \<Rightarrow> miss
                | Some (CStr v) \<Rightarrow> ret v
                | Some (CMap kv) \<Rightarrow> panic)
         else miss)"

text \<open>The goroutines of \<open>getPrefix\<close> and \<open>getExact\<close>: the first response with events drops the entry.\<close>

fun watch_loop :: "'w EtcdNase \<Rightarrow> string \<Rightarrow> nat list \<Rightarrow> ('w, unit) op" where
  "watch_loop n key [] = ret ()"
| "watch_loop n key (events # rs) =
     (if events \<noteq> 0 then c_Del (cli n) key else watch_loop n key rs)"

definition getKeygroupStatus :: "'w EtcdNase \<Rightarrow> string \<Rightarrow> ('w, string) op" where
  "getKeygroupStatus n kg = getExact n (fmtKgStatusString kg)"

definition getKeygroupMutable :: "'w EtcdNase \<Rightarrow> string \<Rightarrow> ('w, string) op" where
  "getKeygroupMutable n kg = getExact n (fmtKgMutableString kg)"

definition getKeygroupExpiry :: "'w EtcdNase \<Rightarrow> string \<Rightarrow> string \<Rightarrow> ('w, int) op" where
  "getKeygroupExpiry n kg i =
     andthen (getExact n (fmtKgExpiryStringPrefix kg @ i)) (\<lambda>resp.
       if resp = [] then ret 0
       else (case Atoi resp of
               Some x \<Rightarrow> ret x
             | None \<Rightarrow> fail (Raw ''strconv.Atoi: parsing: invalid syntax'')))"

text \<open>Dropping the given prefixes and the key from the cache.\<close>

definition invalidate :: "'w EtcdNase \<Rightarrow> string \<Rightarrow> string list \<Rightarrow> ('w, unit) op" where
  "invalidate n key pre =
     (if cached n
      then andthen (foreach (c_Del (cli n)) pre) (\<lambda>_. c_Del (cli n) key)
      else ret ())"

definition nput :: "'w EtcdNase \<Rightarrow> string \<Rightarrow> string \<Rightarrow> string list \<Rightarrow> ('w, unit) op" where
  "nput n key v pre =
     andthen (invalidate n key pre) (\<lambda>_. wrap_err (e_Put (cli n) key v))"

definition ndelete :: "'w EtcdNase \<Rightarrow> string \<Rightarrow> string list \<Rightarrow> ('w, unit) op" where
  "ndelete n key pre =
     andthen (invalidate n key pre) (\<lambda>_. wrap_err (e_Delete (cli n) key))"

definition fmtKgNode :: "'w EtcdNase \<Rightarrow> string \<Rightarrow> string \<times> string" where
  "fmtKgNode n kg = (fmtKgNodeStringPrefix kg, n_NodeID n)"

definition addOwnKgNodeEntry :: "'w EtcdNase \<Rightarrow> string \<Rightarrow> string \<Rightarrow> ('w, unit) op" where
  "addOwnKgNodeEntry n kg status =
     (case fmtKgNode n kg of (pre, i) \<Rightarrow> nput n (pre @ i) status [pre])"

definition addOtherKgNodeEntry ::
  "'w EtcdNase \<Rightarrow> string \<Rightarrow> string \<Rightarrow> string \<Rightarrow> ('w, unit) op" where
  "addOtherKgNodeEntry n node kg status =
     (let pre = fmtKgNodeStringPrefix kg in nput n (pre @ node) status [pre])"

definition addKgStatusEntry :: "'w EtcdNase \<Rightarrow> string \<Rightarrow> string \<Rightarrow> ('w, unit) op" where
  "addKgStatusEntry n kg status = nput n (fmtKgStatusString kg) status []"

definition addKgMutableEntry :: "'w EtcdNase \<Rightarrow> string \<Rightarrow> bool \<Rightarrow> ('w, unit) op" where
  "addKgMutableEntry n kg mut =
     nput n (fmtKgMutableString kg) (if mut then ''true'' else ''false'') []"

definition addKgExpiryEntry :: "'w EtcdNase \<Rightarrow> string \<Rightarrow> string \<Rightarrow> int \<Rightarrow> ('w, unit) op" where
  "addKgExpiryEntry n kg i expiry =
     (let pre = fmtKgExpiryStringPrefix kg in nput n (pre @ i) (Itoa expiry) [pre])"

definition getNodeNameFromKgNodeString :: "string \<Rightarrow> string" where
  "getNodeNameFromKgNodeString k = last (split_on sep k)"

section \<open>Nodes (nameservice.go, nodes.go)\<close>

definition RegisterSelf :: "'w EtcdNase \<Rightarrow> string \<Rightarrow> string \<Rightarrow> ('w, unit) op" where
  "RegisterSelf n host externalHost =
     andthen (nput n (fmtNodeAdressString (n_NodeID n)) host [])
       (\<lambda>_. nput n (fmtNodeExternalAdressString (n_NodeID n)) externalHost [])"

definition GetNodeAddress :: "'w EtcdNase \<Rightarrow> NodeID \<Rightarrow> ('w, string) op" where
  "GetNodeAddress n node =
     andthen (wrap_err (getExact n (fmtNodeAdressString node))) (\<lambda>resp.
       if resp = [] then fail (Wrapped (''no such node '' @ node)) else ret resp)"

text \<open>
  The error of \<^verbatim>\<open>getPrefix\<close> is returned together with the empty list of nodes, so it is the
  result. The component of the key that is the node name exists because the prefix ends in a
  separator; Go would panic otherwise.
\<close>

fun nodes_loop :: "string \<Rightarrow> (string \<times> string) list \<Rightarrow> Node list result" where
  "nodes_loop suff [] = Ok []"
| "nodes_loop suff ((k, v) # kvs) =
     (if suffix ''|status'' k \<or> \<not> suffix suff k then nodes_loop suff kvs
      else (case split_on sep k of
              _ # node # _ \<Rightarrow>
                (case nodes_loop suff kvs of
                   Ok ns \<Rightarrow> Ok (\<lparr>nID = node, nHost = v\<rparr> # ns)
                 | r \<Rightarrow> r)
            | _ \<Rightarrow> Panic))"

definition getAllNodesBySuffix :: "'w EtcdNase \<Rightarrow> string \<Rightarrow> ('w, Node list) op" where
  "getAllNodesBySuffix n suff =
     andthen (getPrefix n nodePrefixString)
       (\<lambda>resp. of_result (nodes_loop suff (range_map (e_range (cli n)) resp)))"

definition GetAllNodes :: "'w EtcdNase \<Rightarrow> ('w, Node list) op" where
  "GetAllNodes n = getAllNodesBySuffix n ''|address''"

definition GetAllNodesExternal :: "'w EtcdNase \<Rightarrow> ('w, Node list) op" where
  "GetAllNodesExternal n = getAllNodesBySuffix n ''|extaddress''"

section \<open>Permissions (auth.go)\<close>

definition RevokeUserPermissions ::
  "'w EtcdNase \<Rightarrow> string \<Rightarrow> Method \<Rightarrow> KeygroupName \<Rightarrow> ('w, unit) op" where
  "RevokeUserPermissions n u mt kg =
     (let pre = fmtUserPermissionStringPrefix u kg in ndelete n (pre @ mt) [pre])"

definition AddUserPermissions ::
  "'w EtcdNase \<Rightarrow> string \<Rightarrow> Method \<Rightarrow> KeygroupName \<Rightarrow> ('w, unit) op" where
  "AddUserPermissions n u mt kg =
     (let pre = fmtUserPermissionStringPrefix u kg in nput n (pre @ mt) ''ok'' [pre])"

fun permissions_loop :: "(string \<times> string) list \<Rightarrow> Method list result" where
  "permissions_loop [] = Ok []"
| "permissions_loop ((k, v) # kvs) =
     (let s = split_on sep k in
      if length s \<le> 5 then Panic
      else (case permissions_loop kvs of Ok ms \<Rightarrow> Ok (s ! 5 # ms) | r \<Rightarrow> r))"

definition GetUserPermissions ::
  "'w EtcdNase \<Rightarrow> string \<Rightarrow> KeygroupName \<Rightarrow> ('w, Method list) op" where
  "GetUserPermissions n u kg =
     andthen (getPrefix n (fmtUserPermissionStringPrefix u kg))
       (\<lambda>res. of_result (permissions_loop (range_map (e_range (cli n)) res)))"

section \<open>Keygroups (keygroups.go)\<close>

definition nExistsKeygroup :: "'w EtcdNase \<Rightarrow> KeygroupName \<Rightarrow> ('w, bool) op" where
  "nExistsKeygroup n kg =
     andthen (getKeygroupStatus n kg) (\<lambda>status. ret (status = ''created''))"

definition IsMutable :: "'w EtcdNase \<Rightarrow> KeygroupName \<Rightarrow> ('w, bool) op" where
  "IsMutable n kg = andthen (getKeygroupMutable n kg) (\<lambda>status. ret (status = ''true''))"

definition GetExpiry :: "'w EtcdNase \<Rightarrow> KeygroupName \<Rightarrow> ('w, int) op" where
  "GetExpiry n kg = getKeygroupExpiry n kg (n_NodeID n)"

definition ExitOtherNodeFromKeygroup ::
  "'w EtcdNase \<Rightarrow> KeygroupName \<Rightarrow> NodeID \<Rightarrow> ('w, unit) op" where
  "ExitOtherNodeFromKeygroup n kg node =
     andthen (nExistsKeygroup n kg) (\<lambda>ex.
       if \<not> ex then fail (Wrapped ''keygroup does not exists so another node cannot exit it'')
       else andthen (GetNodeAddress n node)
              (\<lambda>_. addOtherKgNodeEntry n node kg ''removed''))"

definition nDeleteKeygroup :: "'w EtcdNase \<Rightarrow> KeygroupName \<Rightarrow> ('w, unit) op" where
  "nDeleteKeygroup n kg = addKgStatusEntry n kg ''deleted''"

definition nCreateKeygroup ::
  "'w EtcdNase \<Rightarrow> KeygroupName \<Rightarrow> bool \<Rightarrow> int \<Rightarrow> ('w, unit) op" where
  "nCreateKeygroup n kg mut expiry =
     andthen (nExistsKeygroup n kg) (\<lambda>ex.
       if ex then fail (Wrapped ''keygroup already exists in name service'')
       else andthen (addKgMutableEntry n kg mut)
       (\<lambda>_. andthen (addKgExpiryEntry n kg (n_NodeID n) expiry)
       (\<lambda>_. andthen (addKgStatusEntry n kg ''created'')
       (\<lambda>_. andthen (wrap_err (e_DeletePrefix (cli n) (fmtKgNodeStringPrefix kg)))
       (\<lambda>_. addOwnKgNodeEntry n kg ''ok'')))))"

fun members_loop ::
  "'w EtcdNase \<Rightarrow> KeygroupName \<Rightarrow> bool \<Rightarrow> (string \<times> string) list \<Rightarrow> (NodeID \<times> int) list
     \<Rightarrow> ('w, (NodeID \<times> int) list \<times> error option) op" where
  "members_loop n kg excludeSelf [] ids = ret (ids, None)"
| "members_loop n kg excludeSelf ((k, v) # kvs) ids =
     (if v = ''ok''
      then if excludeSelf \<and> n_NodeID n = getNodeNameFromKgNodeString k
           then members_loop n kg excludeSelf kvs ids
           else (let i = getNodeNameFromKgNodeString k in
                 attempt (getKeygroupExpiry n kg i)
                   (\<lambda>e. ret (map_put i 0 ids, Some e))
                   (\<lambda>x. members_loop n kg excludeSelf kvs (map_put i x ids)))
      else members_loop n kg excludeSelf kvs ids)"

definition GetKeygroupMembers ::
  "'w EtcdNase \<Rightarrow> KeygroupName \<Rightarrow> bool \<Rightarrow> ('w, (NodeID \<times> int) list \<times> error option) op" where
  "GetKeygroupMembers n kg excludeSelf =
     attempt (getPrefix n (fmtKgNodeStringPrefix kg))
       (\<lambda>e. ret ([], Some e))
       (\<lambda>nodes. andthen (members_loop n kg excludeSelf (range_map (e_range (cli n)) nodes) [])
          (\<lambda>(ids, err). ret (range_map (e_range (cli n)) ids, err)))"

definition JoinNodeIntoKeygroup ::
  "'w EtcdNase \<Rightarrow> KeygroupName \<Rightarrow> NodeID \<Rightarrow> int \<Rightarrow> ('w, unit) op" where
  "JoinNodeIntoKeygroup n kg node expiry =
     andthen (nExistsKeygroup n kg) (\<lambda>ex.
       if \<not> ex
       then fail (Wrapped ''keygroup does not exists so it cannot be joined by another node'')
       else andthen (GetNodeAddress n node)
       (\<lambda>_. andthen (addKgExpiryEntry n kg node expiry)
       (\<lambda>_. addOtherKgNodeEntry n node kg ''ok'')))"

section \<open>Failed nodes (failednodes.go)\<close>

definition ReportFailedNode ::
  "'w EtcdNase \<Rightarrow> NodeID \<Rightarrow> KeygroupName \<Rightarrow> string \<Rightarrow> ('w, unit) op" where
  "ReportFailedNode n node kg i =
     (let pre = fmtFailedNodeKgStringPrefix node kg in nput n (pre @ i) ''1'' [pre])"

text \<open>Every missed item is collected and its entry removed; a failed removal is only logged.\<close>

fun status_loop :: "'w EtcdNase \<Rightarrow> (string \<times> string) list \<Rightarrow> Item list \<Rightarrow> ('w, Item list) op" where
  "status_loop n [] kgs = ret kgs"
| "status_loop n ((k, v) # kvs) kgs =
     (case split_on sep k of
        _ # _ # _ # kgname # i # _ \<Rightarrow>
          (let kgs' = kgs @ [\<lparr>iKeygroup = kgname, iID = i, iVal = []\<rparr>] in
           attempt (ndelete n k []) (\<lambda>_. status_loop n kvs kgs') (\<lambda>_. status_loop n kvs kgs'))
      | _ \<Rightarrow> panic)"

definition RequestNodeStatus :: "'w EtcdNase \<Rightarrow> NodeID \<Rightarrow> ('w, Item list) op" where
  "RequestNodeStatus n node =
     attempt (getPrefix n (fmtFailedNodePrefix node))
       (\<lambda>_. ret [])
       (\<lambda>resp. status_loop n (range_map (e_range (cli n)) resp) [])"

definition MaxInt32 :: int where
  "MaxInt32 = 2147483647"

fun bigger_loop :: "(NodeID \<times> int) list \<Rightarrow> int \<Rightarrow> NodeID \<Rightarrow> int \<times> NodeID" where
  "bigger_loop [] best node = (best, node)"
| "bigger_loop ((i, x) # ns) best node =
     (let x' = (if x = 0 then MaxInt32 else x) in
      if x' > best
      then if x' = MaxInt32 then (x', i) else bigger_loop ns x' i
      else bigger_loop ns best node)"

text \<open>The own expiry is only compared to warn; a member map with an error or no members gives nothing.\<close>

definition GetNodeWithBiggerExpiry ::
  "'w EtcdNase \<Rightarrow> KeygroupName \<Rightarrow> ('w, NodeID \<times> string) op" where
  "GetNodeWithBiggerExpiry n kg =
     attempt (GetExpiry n kg) (\<lambda>_. ret ([], [])) (\<lambda>expiry.
       andthen (GetKeygroupMembers n kg True) (\<lambda>(nodes, err).
         if err \<noteq> None \<or> nodes = [] then ret ([], [])
         else (let best = snd (bigger_loop nodes 0 []) in
               attempt (GetNodeAddress n best) (\<lambda>_. ret (best, [])) (\<lambda>addr. ret (best, addr)))))"

text \<open>\<^verbatim>\<open>*etcdnase.NameService\<close> as a \<^verbatim>\<open>fred.NameService\<close>.\<close>

definition etcdnase_NameService :: "'w EtcdNase \<Rightarrow> 'w NameService" where
  "etcdnase_NameService n =
     \<lparr>ns_GetNodeID = n_NodeID n, ns_RegisterSelf = RegisterSelf n,
      ns_AddUserPermissions = AddUserPermissions n,
      ns_RevokeUserPermissions = RevokeUserPermissions n,
      ns_GetUserPermissions = GetUserPermissions n, ns_IsMutable = IsMutable n,
      ns_GetExpiry = GetExpiry n, ns_GetNodeAddress = GetNodeAddress n,
      ns_GetAllNodes = GetAllNodes n, ns_GetAllNodesExternal = GetAllNodesExternal n,
      ns_ExistsKeygroup = nExistsKeygroup n, ns_JoinNodeIntoKeygroup = JoinNodeIntoKeygroup n,
      ns_ExitOtherNodeFromKeygroup = ExitOtherNodeFromKeygroup n,
      ns_CreateKeygroup = nCreateKeygroup n, ns_DeleteKeygroup = nDeleteKeygroup n,
      ns_GetKeygroupMembers = GetKeygroupMembers n, ns_ReportFailedNode = ReportFailedNode n,
      ns_RequestNodeStatus = RequestNodeStatus n,
      ns_GetNodeWithBiggerExpiry = GetNodeWithBiggerExpiry n\<rparr>"

end
