(* ===== verification/Etcd_Keys.thy ===== *)
theory Etcd_Keys
  imports Etcd_Nase Nase_Contract
begin

text \<open>
  The keys of the naming service as paths of components joined by the separator, the
  well-formed contents of etcd, and the abstract view of such contents: how a write or a
  removal of one entry changes it.
\<close>

section \<open>Paths\<close>

fun joinl :: "string list \<Rightarrow> string" where
  "joinl [] = []"
| "joinl [x] = x"
| "joinl (x # y # ys) = x @ sep # joinl (y # ys)"

lemma joinl_Cons: "xs \<noteq> [] \<Longrightarrow> joinl (x # xs) = x @ sep # joinl xs"
  by (cases xs) auto

lemma joinl_append:
  "ps \<noteq> [] \<Longrightarrow> ys \<noteq> [] \<Longrightarrow> joinl (ps @ ys) = joinl ps @ sep # joinl ys"
  by (induction ps rule: joinl.induct) (auto simp: joinl_Cons)

lemma split_joinl_append:
  "ps \<noteq> [] \<Longrightarrow> list_all ok_name ps \<Longrightarrow> split_on sep (joinl ps @ sep # t) = ps @ split_on sep t"
  by (induction ps rule: joinl.induct) (auto simp: ok_name_def split_on_append)

lemma split_joinl: "xs \<noteq> [] \<Longrightarrow> list_all ok_name xs \<Longrightarrow> split_on sep (joinl xs) = xs"
  by (induction xs rule: joinl.induct) (auto simp: ok_name_def split_on_append)

lemma joinl_inject:
  "list_all ok_name xs \<Longrightarrow> list_all ok_name ys \<Longrightarrow> xs \<noteq> [] \<Longrightarrow> ys \<noteq> [] \<Longrightarrow>
   joinl xs = joinl ys \<longleftrightarrow> xs = ys"
  by (metis split_joinl)

lemma prefix_joinl:
  assumes "ps \<noteq> []" "list_all ok_name ps" "list_all ok_name xs" "xs \<noteq> []"
  shows "prefix (joinl ps @ [sep]) (joinl xs) \<longleftrightarrow> (\<exists>y ys. xs = ps @ y # ys)"
proof
  assume "prefix (joinl ps @ [sep]) (joinl xs)"
  then obtain t where "joinl xs = joinl ps @ sep # t" by (auto simp: prefix_def)
  then have "xs = ps @ split_on sep t"
    using split_joinl_append [OF assms(1,2), of t] split_joinl [OF assms(4,3)] by simp
  then show "\<exists>y ys. xs = ps @ y # ys" by (metis neq_Nil_conv split_on_nonempty)
next
  assume "\<exists>y ys. xs = ps @ y # ys"
  then show "prefix (joinl ps @ [sep]) (joinl xs)"
    using assms(1) by (auto simp: joinl_append prefix_def)
qed

lemma ok_words [simp]:
  "ok_name ''kg''" "ok_name ''status''" "ok_name ''mutable''" "ok_name ''expiry''" "ok_name ''node''"
  "ok_name ''address''" "ok_name ''extaddress''" "ok_name ''user''" "ok_name ''method''"
  "ok_name ''failnode''"
  by (simp_all add: ok_name_def sep_def)

section \<open>The keys of the code\<close>

abbreviation p_status where "p_status kg \<equiv> [''kg'', kg, ''status'']"
abbreviation p_mutable where "p_mutable kg \<equiv> [''kg'', kg, ''mutable'']"
abbreviation p_expiry where "p_expiry kg n \<equiv> [''kg'', kg, ''expiry'', ''node'', n]"
abbreviation p_member where "p_member kg n \<equiv> [''kg'', kg, ''node'', n]"
abbreviation p_addr where "p_addr n \<equiv> [''node'', n, ''address'']"
abbreviation p_ext where "p_ext n \<equiv> [''node'', n, ''extaddress'']"
abbreviation p_perm where "p_perm u kg m \<equiv> [''user'', u, ''kg'', kg, ''method'', m]"
abbreviation p_fail where "p_fail n kg i \<equiv> [''failnode'', n, ''kg'', kg, i]"

lemma key_paths:
  "fmtKgStatusString kg = joinl (p_status kg)"
  "fmtKgMutableString kg = joinl (p_mutable kg)"
  "fmtKgExpiryStringPrefix kg @ n = joinl (p_expiry kg n)"
  "fmtKgNodeStringPrefix kg @ n = joinl (p_member kg n)"
  "fmtNodeAdressString n = joinl (p_addr n)"
  "fmtNodeExternalAdressString n = joinl (p_ext n)"
  "fmtUserPermissionStringPrefix u kg @ m = joinl (p_perm u kg m)"
  "fmtFailedNodeKgStringPrefix n kg @ i = joinl (p_fail n kg i)"
  by (simp_all add: fmtKgStatusString_def fmtKgMutableString_def fmtKgExpiryStringPrefix_def
      fmtKgNodeStringPrefix_def fmtNodeAdressString_def fmtNodeExternalAdressString_def
      fmtUserPermissionStringPrefix_def fmtFailedNodeKgStringPrefix_def sep_def)

lemma prefix_paths:
  "fmtKgNodeStringPrefix kg = joinl [''kg'', kg, ''node''] @ [sep]"
  "fmtUserPermissionStringPrefix u kg = joinl [''user'', u, ''kg'', kg, ''method''] @ [sep]"
  "fmtFailedNodePrefix n = joinl [''failnode'', n] @ [sep]"
  "nodePrefixString = joinl [''node''] @ [sep]"
  by (simp_all add: fmtKgNodeStringPrefix_def fmtUserPermissionStringPrefix_def
      fmtFailedNodePrefix_def nodePrefixString_def sep_def)

declare joinl.simps [simp del]

text \<open>The paths the naming service writes.\<close>

inductive wf_path :: "string list \<Rightarrow> bool" where
  status: "ok_name kg \<Longrightarrow> wf_path (p_status kg)"
| mutable: "ok_name kg \<Longrightarrow> wf_path (p_mutable kg)"
| expiry: "ok_name kg \<Longrightarrow> ok_name n \<Longrightarrow> wf_path (p_expiry kg n)"
| member: "ok_name kg \<Longrightarrow> ok_name n \<Longrightarrow> wf_path (p_member kg n)"
| addr: "ok_name n \<Longrightarrow> wf_path (p_addr n)"
| ext: "ok_name n \<Longrightarrow> wf_path (p_ext n)"
| perm: "ok_name u \<Longrightarrow> ok_name kg \<Longrightarrow> ok_name m \<Longrightarrow> wf_path (p_perm u kg m)"
| failed: "ok_name n \<Longrightarrow> ok_name kg \<Longrightarrow> ok_name i \<Longrightarrow> wf_path (p_fail n kg i)"

inductive_cases wf_path_userE: "wf_path (''user'' # xs)"
inductive_cases wf_path_failE: "wf_path (''failnode'' # xs)"
inductive_cases wf_path_nodeE: "wf_path (''node'' # xs)"
inductive_cases wf_path_kgE: "wf_path (''kg'' # xs)"

lemma wf_path_ok: "wf_path xs \<Longrightarrow> xs \<noteq> [] \<and> list_all ok_name xs"
  by (induction rule: wf_path.induct) simp_all

lemma wf_path_inject: "wf_path xs \<Longrightarrow> wf_path ys \<Longrightarrow> joinl xs = joinl ys \<longleftrightarrow> xs = ys"
  using wf_path_ok joinl_inject by blast

text \<open>Contents of etcd: well-formed keys, and expiry entries that are 64-bit numbers.\<close>

definition look :: "(string \<rightharpoonup> string) \<Rightarrow> string list \<Rightarrow> string option" where
  "look K xs = (if wf_path xs then K (joinl xs) else None)"

definition kv_ok :: "(string \<rightharpoonup> string) \<Rightarrow> bool" where
  "kv_ok K \<longleftrightarrow>
     (\<forall>k. K k \<noteq> None \<longrightarrow> (\<exists>xs. wf_path xs \<and> k = joinl xs)) \<and>
     (\<forall>kg n v. look K (p_expiry kg n) = Some v \<longrightarrow> (\<exists>x. int64 x \<and> v = Itoa x))"

definition expiry_of :: "string option \<Rightarrow> int" where
  "expiry_of v = (case v of None \<Rightarrow> 0 | Some s \<Rightarrow> the (Atoi s))"

definition nase_view :: "(string \<rightharpoonup> string) \<Rightarrow> nview" where
  "nase_view K =
     \<lparr>nv_kgs = {kg. look K (p_status kg) = Some ''created''},
      nv_mut = {kg. look K (p_mutable kg) = Some ''true''},
      nv_exp = (\<lambda>kg n. expiry_of (look K (p_expiry kg n))),
      nv_mem = (\<lambda>kg. {n. look K (p_member kg n) = Some ''ok''}),
      nv_addr = (\<lambda>n. if look K (p_addr n) = Some [] then None else look K (p_addr n)),
      nv_ext = (\<lambda>n. look K (p_ext n)),
      nv_perm = (\<lambda>u kg. {m. look K (p_perm u kg m) \<noteq> None}),
      nv_fail = (\<lambda>n. {(kg, i). look K (p_fail n kg i) \<noteq> None})\<rparr>"

lemma nase_addr_not_empty [simp]: "nv_addr (nase_view K) m \<noteq> Some []"
  by (simp add: nase_view_def)

lemma look_upd:
  "wf_path xs \<Longrightarrow> look (K(joinl xs \<mapsto> v)) ys = (if ys = xs then Some v else look K ys)"
  "wf_path xs \<Longrightarrow> look (K(joinl xs := None)) ys = (if ys = xs then None else look K ys)"
  by (auto simp: look_def wf_path_inject)

lemma kv_ok_upd:
  assumes "kv_ok K" "wf_path xs" "\<And>kg n. xs = p_expiry kg n \<Longrightarrow> \<exists>x. int64 x \<and> v = Itoa x"
  shows "kv_ok (K(joinl xs \<mapsto> v))"
proof -
  have "\<exists>ys. wf_path ys \<and> k = joinl ys" if "(K(joinl xs \<mapsto> v)) k \<noteq> None" for k
  proof (cases "k = joinl xs")
    case False
    with that have "K k \<noteq> None" by simp
    with assms(1) show ?thesis by (simp add: kv_ok_def)
  qed (use assms(2) in blast)
  moreover have "\<exists>x. int64 x \<and> v' = Itoa x"
    if "look (K(joinl xs \<mapsto> v)) (p_expiry kg n) = Some v'" for kg n v'
  proof (cases "xs = p_expiry kg n")
    case True
    with that assms(2) have "v' = v" by (simp add: look_upd)
    with assms(3) True show ?thesis by simp
  next
    case False
    with that have "look K (p_expiry kg n) = Some v'" by (auto simp: look_upd [OF assms(2)])
    with assms(1) show ?thesis by (simp add: kv_ok_def)
  qed
  ultimately show ?thesis unfolding kv_ok_def by blast
qed

lemma kv_ok_expiry: "kv_ok K \<Longrightarrow> look K (p_expiry kg n) = Some v \<Longrightarrow> \<exists>x. int64 x \<and> v = Itoa x"
  by (simp add: kv_ok_def)

lemma kv_ok_sub:
  assumes "kv_ok K" "\<And>k v. K' k = Some v \<Longrightarrow> K k = Some v"
  shows "kv_ok K'"
proof -
  have "look K xs = Some v" if "look K' xs = Some v" for xs v
    using that assms(2) by (auto simp: look_def split: if_splits)
  moreover have "K k \<noteq> None" if "K' k \<noteq> None" for k using that assms(2) by fastforce
  ultimately show ?thesis using assms(1) unfolding kv_ok_def by blast
qed

text \<open>The entries with a prefix, by path.\<close>

lemma kv_prefix:
  assumes "kv_ok K" "ps \<noteq> []" "list_all ok_name ps"
  shows "K k = Some v \<and> prefix (joinl ps @ [sep]) k \<longleftrightarrow>
    (\<exists>y ys. k = joinl (ps @ y # ys) \<and> look K (ps @ y # ys) = Some v)"
proof
  assume k: "K k = Some v \<and> prefix (joinl ps @ [sep]) k"
  then obtain xs where xs: "wf_path xs" "k = joinl xs" using assms(1) by (auto simp: kv_ok_def)
  with k obtain y ys where "xs = ps @ y # ys"
    using prefix_joinl [OF assms(2,3)] wf_path_ok [OF xs(1)] by metis
  with k xs show "\<exists>y ys. k = joinl (ps @ y # ys) \<and> look K (ps @ y # ys) = Some v"
    by (auto simp: look_def)
next
  assume "\<exists>y ys. k = joinl (ps @ y # ys) \<and> look K (ps @ y # ys) = Some v"
  then show "K k = Some v \<and> prefix (joinl ps @ [sep]) k"
    using assms(2) by (auto simp: look_def joinl_append prefix_def split: if_splits)
qed

section \<open>Effect of the writes on the view\<close>

lemmas view_write = nase_view_def nv_defs look_upd

lemma Atoi_int64 [simp]: "int64 x \<Longrightarrow> Atoi (Itoa x) = Some x"
  by (simp add: int64_def Atoi_Itoa)

lemma view_status:
  "ok_name kg \<Longrightarrow> nase_view (K(joinl (p_status kg) \<mapsto> ''deleted'')) = delete_nv kg (nase_view K)"
  by (auto simp: view_write wf_path.intros fun_eq_iff)

lemma view_grant:
  "ok_name u \<Longrightarrow> ok_name kg \<Longrightarrow> ok_name m \<Longrightarrow>
   nase_view (K(joinl (p_perm u kg m) \<mapsto> v)) = grant_nv u kg m (nase_view K)"
  by (auto simp: view_write wf_path.intros fun_eq_iff)

lemma view_revoke:
  "ok_name u \<Longrightarrow> ok_name kg \<Longrightarrow> ok_name m \<Longrightarrow>
   nase_view (K(joinl (p_perm u kg m) := None)) = revoke_nv u kg m (nase_view K)"
  by (auto simp: view_write wf_path.intros fun_eq_iff)

lemma view_report:
  "ok_name n \<Longrightarrow> ok_name kg \<Longrightarrow> ok_name i \<Longrightarrow>
   nase_view (K(joinl (p_fail n kg i) \<mapsto> v)) = report_nv n kg i (nase_view K)"
  by (auto simp: view_write wf_path.intros fun_eq_iff)

lemma view_exit:
  "ok_name kg \<Longrightarrow> ok_name n \<Longrightarrow>
   nase_view (K(joinl (p_member kg n) \<mapsto> ''removed'')) = exit_nv kg n (nase_view K)"
  by (auto simp: view_write wf_path.intros fun_eq_iff)

lemma view_join:
  "ok_name kg \<Longrightarrow> ok_name n \<Longrightarrow> int64 x \<Longrightarrow>
   nase_view (K(joinl (p_expiry kg n) \<mapsto> Itoa x, joinl (p_member kg n) \<mapsto> ''ok'')) =
     join_nv kg n x (nase_view K)"
  by (auto simp: view_write wf_path.intros fun_eq_iff expiry_of_def)

lemma view_register:
  "ok_name n \<Longrightarrow>
   nase_view (K(joinl (p_addr n) \<mapsto> host, joinl (p_ext n) \<mapsto> ext)) = register_nv n host ext (nase_view K)"
  by (auto simp: view_write wf_path.intros fun_eq_iff)

text \<open>Removing the entries with a prefix, as \<^verbatim>\<open>CreateKeygroup\<close> does with the old members.\<close>

definition drop_prefix :: "string \<Rightarrow> (string \<rightharpoonup> string) \<Rightarrow> (string \<rightharpoonup> string)" where
  "drop_prefix p K = K |` {k. \<not> prefix p k}"

lemma view_collect:
  assumes "kv_ok K" "ok_name m"
  shows "nase_view (drop_prefix (fmtFailedNodePrefix m) K) = collect_nv m (nase_view K)"
proof -
  have drop: "look (drop_prefix (fmtFailedNodePrefix m) K) xs =
      (if \<exists>kg i. xs = p_fail m kg i then None else look K xs)" for xs
  proof (cases "wf_path xs")
    case True
    then have "prefix (fmtFailedNodePrefix m) (joinl xs) \<longleftrightarrow> (\<exists>kg i. xs = p_fail m kg i)"
      using prefix_joinl [of "[''failnode'', m]" xs] wf_path_ok [OF True] assms(2)
      unfolding prefix_paths by (auto elim: wf_path_failE)
    with True show ?thesis by (auto simp: look_def drop_prefix_def restrict_map_def)
  qed (auto simp: look_def)
  show ?thesis by (auto simp: nase_view_def nv_defs drop fun_eq_iff)
qed

lemma look_drop_members:
  assumes "ok_name kg" "wf_path xs"
  shows "look (drop_prefix (fmtKgNodeStringPrefix kg) K) xs =
    (if \<exists>n. xs = p_member kg n then None else look K xs)"
proof -
  have "prefix (fmtKgNodeStringPrefix kg) (joinl xs) \<longleftrightarrow> (\<exists>n. xs = p_member kg n)"
    using prefix_joinl [of "[''kg'', kg, ''node'']" xs] assms wf_path_ok [OF assms(2)]
    unfolding prefix_paths by (auto elim: wf_path_kgE)
  then show ?thesis using assms(2) by (auto simp: look_def drop_prefix_def restrict_map_def)
qed

lemma view_create:
  assumes "ok_name kg" "ok_name n" "int64 x"
  shows "nase_view ((drop_prefix (fmtKgNodeStringPrefix kg)
      (K(joinl (p_mutable kg) \<mapsto> (if mut then ''true'' else ''false''),
         joinl (p_expiry kg n) \<mapsto> Itoa x, joinl (p_status kg) \<mapsto> ''created'')))
      (joinl (p_member kg n) \<mapsto> ''ok'')) = create_nv n kg mut x (nase_view K)"
proof -
  have drop: "look (drop_prefix (fmtKgNodeStringPrefix kg) K) xs =
    (if \<exists>n. xs = p_member kg n then None else look K xs)" for K xs
    using look_drop_members [OF assms(1), of xs K] by (cases "wf_path xs") (auto simp: look_def)
  show ?thesis
    using assms by (auto simp: view_write drop wf_path.intros fun_eq_iff expiry_of_def)
qed

end
