(* ===== verification/Etcd_Correct.thy ===== *)
theory Etcd_Correct
  imports Etcd_Keys
begin

text \<open>
  Correctness of the naming service without its cache: under the documented behaviour of the
  etcd client (locale \<open>etcd_backend\<close>) it implements the contract \<open>nase_spec\<close>. \<open>frame\<close> is any
  predicate about the rest of the world that the client does not touch.
\<close>

section \<open>What the etcd client promises\<close>

locale etcd_backend =
  fixes n :: "'w EtcdNase"
    and frame :: "'w \<Rightarrow> bool"
    and kv :: "'w \<Rightarrow> string \<rightharpoonup> string"
    and healthy :: bool
  assumes uncached: "\<not> cached n"
    and self_ok: "ok_name (n_NodeID n)"
    and range_perm: "perm_order (e_range (cli n))"
    and get_law: "triple (sat frame kv K) (e_Get (cli n) k)
      (\<lambda>r w. sat frame kv K w \<and> r = (case K k of None \<Rightarrow> [] | Some v \<Rightarrow> [(k, v)]))
      (\<lambda>e w. sat frame kv K w \<and> \<not> healthy)"
    and getPrefix_law: "triple (sat frame kv K) (e_GetPrefix (cli n) p)
      (\<lambda>r w. sat frame kv K w \<and> sorted_wrt (<) (map fst r) \<and>
         (\<forall>k v. (k, v) \<in> set r \<longleftrightarrow> K k = Some v \<and> prefix p k))
      (\<lambda>e w. sat frame kv K w \<and> \<not> healthy)"
    and put_law: "triple (sat frame kv K) (e_Put (cli n) k v)
      (\<lambda>_ w. sat frame kv (K(k \<mapsto> v)) w)
      (\<lambda>e w. (sat frame kv K w \<or> sat frame kv (K(k \<mapsto> v)) w) \<and> \<not> healthy)"
    and delete_law: "triple (sat frame kv K) (e_Delete (cli n) k)
      (\<lambda>_ w. sat frame kv (K(k := None)) w)
      (\<lambda>e w. (sat frame kv K w \<or> sat frame kv (K(k := None)) w) \<and> \<not> healthy)"
    and deletePrefix_law: "triple (sat frame kv K) (e_DeletePrefix (cli n) p)
      (\<lambda>_ w. sat frame kv (drop_prefix p K) w)
      (\<lambda>e w. (sat frame kv K w \<or> sat frame kv (drop_prefix p K) w) \<and> \<not> healthy)"

definition nase_inv :: "('w \<Rightarrow> bool) \<Rightarrow> ('w \<Rightarrow> string \<rightharpoonup> string) \<Rightarrow> 'w \<Rightarrow> bool" where
  "nase_inv frame kv w \<longleftrightarrow> frame w \<and> kv_ok (kv w)"

definition nase_of :: "('w \<Rightarrow> string \<rightharpoonup> string) \<Rightarrow> 'w \<Rightarrow> nview" where
  "nase_of kv w = nase_view (kv w)"

lemma sat_nase:
  "sat (nase_inv frame kv) (nase_of kv) U w \<longleftrightarrow> (\<exists>K. sat frame kv K w \<and> kv_ok K \<and> nase_view K = U)"
  by (auto simp: sat_def nase_inv_def nase_of_def)

lemma sat_nase_inv: "sat frame kv K w \<Longrightarrow> kv_ok K \<Longrightarrow> nase_inv frame kv w"
  by (simp add: sat_def nase_inv_def)

text \<open>A specification over the contents of etcd gives one over the abstract view.\<close>

lemma triple_nase:
  assumes "\<And>K. kv_ok K \<Longrightarrow> nase_view K = U \<Longrightarrow> triple (sat frame kv K) m Q E"
  shows "triple (sat (nase_inv frame kv) (nase_of kv) U) m Q E"
  using assms by (auto simp: triple_def sat_nase)

lemma foldl_map_put:
  "distinct (map fst (acc @ kvs)) \<Longrightarrow> foldl (\<lambda>m (k, v). map_put k v m) acc kvs = acc @ kvs"
proof (induction kvs arbitrary: acc)
  case (Cons p kvs)
  obtain k v where p: "p = (k, v)" by force
  with Cons.prems have "map_put k v acc = acc @ [(k, v)]" by (intro map_put_fresh) auto
  with Cons p show ?case by simp
qed simp

text \<open>The choice among the members: the largest expiry, 0 counting as none.\<close>

lemma bigger_loop_max:
  assumes "\<forall>(i, x) \<in> set ns. 0 \<le> x \<and> x \<le> MaxInt32" "0 \<le> best" "best < MaxInt32"
    and "bigger_loop ns best node = (b, i)"
  shows "best \<le> b \<and> (\<forall>(j, x) \<in> set ns. eff_expiry x \<le> b) \<and>
    ((b, i) = (best, node) \<or> (\<exists>x. (i, x) \<in> set ns \<and> b = eff_expiry x))"
  using assms
proof (induction ns best node rule: bigger_loop.induct)
  case (2 i' x ns best node)
  have eff: "eff_expiry y \<le> MaxInt32" if "(j, y) \<in> set ((i', x) # ns)" for j y
    using that 2(3) by (auto simp: eff_expiry_def MaxInt32_def)
  have x: "(if x = 0 then MaxInt32 else x) = eff_expiry x" by (simp add: eff_expiry_def MaxInt32_def)
  consider (max) "eff_expiry x > best" "eff_expiry x = MaxInt32" | (better) "eff_expiry x > best"
    "eff_expiry x < MaxInt32" | (keep) "eff_expiry x \<le> best"
    using eff [of i' x] by fastforce
  then show ?case
  proof cases
    case max
    with 2(6) x show ?thesis using eff 2(4) by (auto simp: Let_def)
  next
    case better
    with 2(6) x have "bigger_loop ns (eff_expiry x) i' = (b, i)" by (simp add: Let_def)
    with 2(1) [of "eff_expiry x"] better 2(3,4) x show ?thesis by (auto simp: x)
  next
    case keep
    with 2(6) x have "bigger_loop ns best node = (b, i)" by (simp add: Let_def)
    with 2(2) [of "eff_expiry x"] keep 2(3,4,5) x show ?thesis by fastforce
  qed
qed simp

lemma bigger_loop_in: "snd (bigger_loop ns best node) \<in> insert node (fst ` set ns)"
  by (induction ns best node rule: bigger_loop.induct) (auto simp: Let_def)

lemma bigger_loop_chosen:
  assumes "\<forall>(i, x) \<in> set ns. 0 \<le> x \<and> x \<le> MaxInt32" "ns \<noteq> []"
  shows "\<exists>x. (snd (bigger_loop ns 0 []), x) \<in> set ns \<and> (\<forall>(j, y) \<in> set ns. eff_expiry y \<le> eff_expiry x)"
proof -
  obtain b i where run: "bigger_loop ns 0 [] = (b, i)" by force
  note m = bigger_loop_max [OF assms(1) _ _ run]
  obtain j y where "(j, y) \<in> set ns" using assms(2) by (cases ns) auto
  moreover from this have "0 < eff_expiry y" using assms(1) by (auto simp: eff_expiry_def)
  ultimately have "0 < b" using m by (fastforce simp: MaxInt32_def)
  with m run show ?thesis by (auto simp: MaxInt32_def)
qed

text \<open>The suffix test tells the two addresses of a node apart.\<close>

lemma suffix_paths:
  "suffix ''|address'' (joinl (p_addr m))" "\<not> suffix ''|address'' (joinl (p_ext m))"
  "suffix ''|extaddress'' (joinl (p_ext m))" "\<not> suffix ''|extaddress'' (joinl (p_addr m))"
  "\<not> suffix ''|status'' (joinl (p_addr m))" "\<not> suffix ''|status'' (joinl (p_ext m))"
  by (simp_all add: joinl.simps suffix_to_prefix sep_def)

lemma nodes_loop_paths:
  assumes "\<forall>(k, v) \<in> set kvs. \<exists>m. ok_name m \<and> (k = joinl (p_addr m) \<or> k = joinl (p_ext m))"
    and "suff = ''|address'' \<and> p = p_addr \<or> suff = ''|extaddress'' \<and> p = p_ext"
  shows "\<exists>ns. nodes_loop suff kvs = Ok ns \<and>
    set ns = {\<lparr>nID = m, nHost = v\<rparr> | m v. ok_name m \<and> (joinl (p m), v) \<in> set kvs}"
  using assms(1)
proof (induction kvs)
  case (Cons q kvs)
  obtain k v where q: "q = (k, v)" by force
  with Cons.prems obtain m where m: "ok_name m" "k = joinl (p_addr m) \<or> k = joinl (p_ext m)" by auto
  from Cons obtain ns where ns: "nodes_loop suff kvs = Ok ns"
    "set ns = {\<lparr>nID = m, nHost = v\<rparr> | m v. ok_name m \<and> (joinl (p m), v) \<in> set kvs}" by auto
  have inj: "joinl (p m') = joinl (p m) \<longleftrightarrow> m' = m" if "ok_name m'" for m'
    using that m(1) assms(2) by (auto simp: joinl_inject)
  show ?case
  proof (cases "k = joinl (p m)")
    case k: True
    then obtain x where "split_on sep k = [''node'', m, x]" "suffix suff k" "\<not> suffix ''|status'' k"
      using m(1) assms(2) by (auto simp: split_joinl suffix_paths)
    then have "nodes_loop suff (q # kvs) = Ok (\<lparr>nID = m, nHost = v\<rparr> # ns)" using ns(1) by (simp add: q)
    then show ?thesis using ns(2) k inj m(1) by (auto simp: q)
  next
    case False
    with m(2) assms(2) have "\<not> suffix suff k" by (auto simp: suffix_paths)
    then have "nodes_loop suff (q # kvs) = Ok ns" using ns(1) by (simp add: q)
    moreover have "joinl (p m') \<noteq> k" if "ok_name m'" for m'
      using False m assms(2) that by (auto simp: joinl_inject)
    ultimately show ?thesis using ns(2) by (auto simp: q)
  qed
qed simp

context etcd_backend
begin

abbreviation at :: "(string \<rightharpoonup> string) \<Rightarrow> 'w \<Rightarrow> bool" where
  "at \<equiv> sat frame kv"

lemma getExact_at:
  "triple (at K) (getExact n key)
    (\<lambda>v w. at K w \<and> v = (case K key of None \<Rightarrow> [] | Some x \<Rightarrow> x))
    (\<lambda>e w. at K w \<and> is_wrapped e \<and> \<not> healthy)"
  unfolding getExact_def Let_def
  by (simp add: uncached)
     (rule triple_seq [OF triple_wrap [OF get_law [of K]]]; auto simp: wp_ret split: option.splits)

lemma getPrefix_at:
  "triple (at K) (getPrefix n p)
    (\<lambda>m w. at K w \<and> distinct (map fst m) \<and> (\<forall>k v. (k, v) \<in> set m \<longleftrightarrow> K k = Some v \<and> prefix p k))
    (\<lambda>e w. at K w \<and> is_wrapped e \<and> \<not> healthy)"
  unfolding getPrefix_def Let_def
  by (simp add: uncached)
     (rule triple_seq [OF triple_wrap [OF getPrefix_law [of K]]];
      auto simp: wp_ret foldl_map_put strict_sorted_iff)

lemma nput_at:
  "triple (at K) (nput n k v ps) (\<lambda>_ w. at (K(k \<mapsto> v)) w)
    (\<lambda>e w. (at K w \<or> at (K(k \<mapsto> v)) w) \<and> is_wrapped e \<and> \<not> healthy)"
  by (simp add: nput_def invalidate_def uncached) (rule triple_conseq [OF triple_wrap [OF put_law]]; auto)

lemma ndelete_at:
  "triple (at K) (ndelete n k ps) (\<lambda>_ w. at (K(k := None)) w)
    (\<lambda>e w. (at K w \<or> at (K(k := None)) w) \<and> is_wrapped e \<and> \<not> healthy)"
  by (simp add: ndelete_def invalidate_def uncached)
     (rule triple_conseq [OF triple_wrap [OF delete_law]]; auto)

lemma ranged_at:
  assumes "distinct (map fst m)"
  shows "set (range_map (e_range (cli n)) m) = set m"
    and "distinct (map fst (range_map (e_range (cli n)) m))"
  using assms range_perm by (auto simp: set_range_map perm_order_distinct)

text \<open>One well-formed entry is written: the state stays well-formed also when the call fails.\<close>

lemma nput_path:
  assumes "kv_ok K" "wf_path xs" "\<And>kg m. xs = p_expiry kg m \<Longrightarrow> \<exists>x. int64 x \<and> v = Itoa x"
  shows "triple (at K) (nput n (joinl xs) v ps)
    (\<lambda>_ w. at (K(joinl xs \<mapsto> v)) w \<and> kv_ok (K(joinl xs \<mapsto> v)))
    (\<lambda>e w. nase_inv frame kv w \<and> is_wrapped e \<and> \<not> healthy)"
  using kv_ok_upd [OF assms] assms(1)
  by (intro triple_conseq [OF nput_at]) (auto intro: sat_nase_inv)

subsection \<open>Reading\<close>

lemma exists_at:
  assumes "ok_name kg"
  shows "triple (at K) (nExistsKeygroup n kg)
    (\<lambda>b w. at K w \<and> b = (kg \<in> nv_kgs (nase_view K))) (\<lambda>e w. at K w \<and> is_wrapped e \<and> \<not> healthy)"
  unfolding nExistsKeygroup_def getKeygroupStatus_def key_paths
  by (rule triple_seq [OF getExact_at [of K]])
     (use assms in \<open>auto simp: wp_ret nase_view_def look_def wf_path.intros split: option.splits\<close>)

lemma mutable_at:
  assumes "ok_name kg"
  shows "triple (at K) (IsMutable n kg)
    (\<lambda>b w. at K w \<and> b = (kg \<in> nv_mut (nase_view K))) (\<lambda>e w. at K w \<and> is_wrapped e \<and> \<not> healthy)"
  unfolding IsMutable_def getKeygroupMutable_def key_paths
  by (rule triple_seq [OF getExact_at [of K]])
     (use assms in \<open>auto simp: wp_ret nase_view_def look_def wf_path.intros split: option.splits\<close>)

lemma expiry_at:
  assumes "kv_ok K" "ok_name kg" "ok_name i"
  shows "triple (at K) (getKeygroupExpiry n kg i)
    (\<lambda>x w. at K w \<and> x = nv_exp (nase_view K) kg i \<and> int64 x)
    (\<lambda>e w. at K w \<and> is_wrapped e \<and> \<not> healthy)"
proof -
  have look: "look K (p_expiry kg i) = K (joinl (p_expiry kg i))"
    using assms by (simp add: look_def wf_path.intros)
  show ?thesis
  proof (cases "K (joinl (p_expiry kg i))")
    case None
    then show ?thesis
      unfolding getKeygroupExpiry_def key_paths
      by (intro triple_seq [OF getExact_at [of K]])
         (auto simp: wp_simps nase_view_def look expiry_of_def int64_def)
  next
    case (Some v)
    then obtain x where x: "int64 x" "v = Itoa x" 
      using kv_ok_expiry [OF assms(1), of kg i v] look by auto
    with Some show ?thesis
      unfolding getKeygroupExpiry_def key_paths
      by (intro triple_seq [OF getExact_at [of K]])
         (auto simp: wp_simps nase_view_def look expiry_of_def)
  qed
qed

lemma address_at:
  assumes "ok_name node"
  shows "triple (at K) (GetNodeAddress n node)
    (\<lambda>a w. at K w \<and> nv_addr (nase_view K) node = Some a)
    (\<lambda>e w. at K w \<and> is_wrapped e \<and> (healthy \<longrightarrow> nv_addr (nase_view K) node = None))"
  unfolding GetNodeAddress_def key_paths
  by (rule triple_seq [OF triple_wrap [OF getExact_at [of K]]])
     (use assms in \<open>auto simp: wp_simps nase_view_def look_def wf_path.intros split: option.splits\<close>)

text \<open>The entries of the members of a keygroup, with the node as the last component of the key.\<close>

lemma member_entries:
  assumes K: "kv_ok K" "ok_name kg" and m: "distinct (map fst m)"
    "\<And>k v. (k, v) \<in> set m \<longleftrightarrow> K k = Some v \<and> prefix (fmtKgNodeStringPrefix kg) k"
  obtains es where "m = map (\<lambda>(y, v). (joinl (p_member kg y), v)) es" "distinct (map fst es)"
    "\<And>y v. (y, v) \<in> set es \<longleftrightarrow> look K (p_member kg y) = Some v" "\<And>y v. (y, v) \<in> set es \<Longrightarrow> ok_name y"
proof -
  have key: "(k, v) \<in> set m \<longleftrightarrow> (\<exists>y. k = joinl (p_member kg y) \<and> look K (p_member kg y) = Some v)" for k v
  proof -
    have ys: "ys = []" if "look K ([''kg'', kg, ''node''] @ y # ys) = Some v" for y ys
      using that by (auto simp: look_def elim: wf_path_kgE split: if_splits)
    have "(\<exists>y ys. k = joinl ([''kg'', kg, ''node''] @ y # ys) \<and>
        look K ([''kg'', kg, ''node''] @ y # ys) = Some v) \<longleftrightarrow>
      (\<exists>y. k = joinl (p_member kg y) \<and> look K (p_member kg y) = Some v)"
      using ys by fastforce
    then show ?thesis
      using kv_prefix [OF K(1), of "[''kg'', kg, ''node'']" k v] K(2)
      unfolding m(2) prefix_paths by simp
  qed
  have wf: "ok_name y" if "look K (p_member kg y) = Some v" for y v
    using that by (auto simp: look_def elim: wf_path_kgE split: if_splits)
  define es where "es = map (\<lambda>(k, v). (last (split_on sep k), v)) m"
  have split: "split_on sep (joinl (p_member kg y)) = p_member kg y" if "ok_name y" for y
    using that K(2) by (simp add: split_joinl)
  have "map ((\<lambda>(y, v). (joinl (p_member kg y), v)) \<circ> (\<lambda>(k, v). (last (split_on sep k), v))) m = m"
  proof (rule map_idI)
    fix x
    assume "x \<in> set m"
    moreover obtain k v where x: "x = (k, v)" by force
    ultimately have "(k, v) \<in> set m" by simp
    then obtain y where "k = joinl (p_member kg y)" "ok_name y"
      using key [of k v] wf by blast
    with x have "x = (joinl (p_member kg y), v)" "ok_name y" by simp_all
    then show "((\<lambda>(y, v). (joinl (p_member kg y), v)) \<circ> (\<lambda>(k, v). (last (split_on sep k), v))) x = x"
      by (simp add: split)
  qed
  then have m_es: "m = map (\<lambda>(y, v). (joinl (p_member kg y), v)) es" by (simp add: es_def)
  moreover have "distinct (map fst es)"
  proof -
    have "map fst m = map (\<lambda>y. joinl (p_member kg y)) (map fst es)"
      by (subst m_es) (simp add: comp_def case_prod_unfold)
    with m(1) show ?thesis by (metis distinct_map)
  qed
  moreover have "(y, v) \<in> set es \<longleftrightarrow> look K (p_member kg y) = Some v" for y v
  proof
    assume "(y, v) \<in> set es"
    then obtain k where "(k, v) \<in> set m" "y = last (split_on sep k)" by (auto simp: es_def)
    then show "look K (p_member kg y) = Some v" using key wf split by fastforce
  next
    assume v: "look K (p_member kg y) = Some v"
    then have "(joinl (p_member kg y), v) \<in> set m" using key by blast
    then have "(last (split_on sep (joinl (p_member kg y))), v) \<in> set es" by (force simp: es_def)
    then show "(y, v) \<in> set es" using split [OF wf [OF v]] by simp
  qed
  ultimately show thesis using wf that by blast
qed

definition sel :: "(string \<rightharpoonup> string) \<Rightarrow> string \<Rightarrow> bool \<Rightarrow> (string \<times> string) list \<Rightarrow> (string \<times> int) list" where
  "sel K kg excl es = map (\<lambda>(y, v). (y, nv_exp (nase_view K) kg y))
     (filter (\<lambda>(y, v). v = ''ok'' \<and> \<not> (excl \<and> n_NodeID n = y)) es)"

lemma members_loop_at:
  assumes "kv_ok K" "ok_name kg" "\<And>y v. (y, v) \<in> set es \<Longrightarrow> ok_name y"
    and "distinct (map fst ids @ map fst es)"
  shows "triple (at K)
    (members_loop n kg excl (map (\<lambda>(y, v). (joinl (p_member kg y), v)) es) ids)
    (\<lambda>(ids', err) w. at K w \<and> distinct (map fst ids') \<and>
       fst ` set ids' \<subseteq> fst ` set (ids @ sel K kg excl es) \<and>
       (case err of None \<Rightarrow> ids' = ids @ sel K kg excl es | Some e \<Rightarrow> is_wrapped e \<and> \<not> healthy))
    (\<lambda>e w. False)"
  using assms(3,4)
proof (induction es arbitrary: ids)
  case Nil
  then show ?case by (simp add: triple_def wp_ret sel_def)
next
  case (Cons e es)
  obtain y v where e: "e = (y, v)" by force
  with Cons.prems(1) have y: "ok_name y" by auto
  have name: "getNodeNameFromKgNodeString (joinl (p_member kg y)) = y"
    using y assms(2) by (simp add: getNodeNameFromKgNodeString_def split_joinl)
  show ?case
  proof (cases "v = ''ok'' \<and> \<not> (excl \<and> n_NodeID n = y)")
    case True
    have put: "map_put y x ids = ids @ [(y, x)]" for x
      using Cons.prems(2) e by (intro map_put_fresh) auto
    have IH: "triple (at K)
      (members_loop n kg excl (map (\<lambda>(y, v). (joinl (p_member kg y), v)) es) (ids @ [(y, x)]))
      (\<lambda>(ids', err) w. at K w \<and> distinct (map fst ids') \<and>
         fst ` set ids' \<subseteq> fst ` set ((ids @ [(y, x)]) @ sel K kg excl es) \<and>
         (case err of None \<Rightarrow> ids' = (ids @ [(y, x)]) @ sel K kg excl es
                    | Some e \<Rightarrow> is_wrapped e \<and> \<not> healthy)) (\<lambda>e w. False)" for x
      using Cons.prems e by (intro Cons.IH) auto
    have sel: "sel K kg excl (e # es) = (y, nv_exp (nase_view K) kg y) # sel K kg excl es"
      using True by (simp add: e sel_def)
    have step: "members_loop n kg excl (map (\<lambda>(y, v). (joinl (p_member kg y), v)) (e # es)) ids =
      attempt (getKeygroupExpiry n kg y) (\<lambda>e. ret (ids @ [(y, 0)], Some e))
        (\<lambda>x. members_loop n kg excl (map (\<lambda>(y, v). (joinl (p_member kg y), v)) es) (ids @ [(y, x)]))"
      using True name put by (auto simp: e Let_def)
    show ?thesis
      unfolding step
    proof (rule tripleI, unfold wp_attempt wp_ret, rule wp_call [OF expiry_at [OF assms(1,2) y]],
        assumption, goal_cases)
      case (1 w x w')
      show ?case
        by (rule wp_call [OF IH]) (use 1 sel in \<open>auto split: option.splits\<close>)
    next
      case (2 w e' w')
      then show ?case using Cons.prems(2) sel e by auto
    qed
  next
    case False
    then have sel: "sel K kg excl (e # es) = sel K kg excl es" by (auto simp: e sel_def)
    have step: "members_loop n kg excl (map (\<lambda>(y, v). (joinl (p_member kg y), v)) (e # es)) ids =
        members_loop n kg excl (map (\<lambda>(y, v). (joinl (p_member kg y), v)) es) ids"
      using False e name by auto
    show ?thesis unfolding sel step by (rule Cons.IH) (use Cons.prems in auto)
  qed
qed

lemma members_at:
  assumes "kv_ok K" "ok_name kg"
  shows "triple (at K) (GetKeygroupMembers n kg excl)
    (\<lambda>(ids, err) w. at K w \<and> distinct (map fst ids) \<and>
       fst ` set ids \<subseteq> members_nv (nase_view K) (n_NodeID n) kg excl \<and>
       (\<forall>node \<in> fst ` set ids. ok_name node) \<and>
       (case err of
          None \<Rightarrow> fst ` set ids = members_nv (nase_view K) (n_NodeID n) kg excl \<and>
                  (\<forall>(node, x) \<in> set ids. x = nv_exp (nase_view K) kg node)
        | Some e \<Rightarrow> is_wrapped e \<and> \<not> healthy))
    (\<lambda>e w. False)"
    (is "triple _ _ ?Q _")
proof (rule tripleI, unfold GetKeygroupMembers_def wp_attempt, rule wp_call [OF getPrefix_at],
    assumption, goal_cases)
  case (1 w m w')
  let ?r = "range_map (e_range (cli n))"
  have "distinct (map fst (?r m))" "set (?r m) = set m" using 1 ranged_at [of m] by simp_all
  then obtain es where es: "?r m = map (\<lambda>(y, v). (joinl (p_member kg y), v)) es" "distinct (map fst es)"
    "\<And>y v. (y, v) \<in> set es \<longleftrightarrow> look K (p_member kg y) = Some v" "\<And>y v. (y, v) \<in> set es \<Longrightarrow> ok_name y"
    using member_entries [OF assms, of "?r m"] 1 by auto
  have "look K (p_member kg y) = Some ''ok'' \<longleftrightarrow> y \<in> nv_mem (nase_view K) kg" for y
    by (simp add: nase_view_def)
  then have sel: "fst ` set (sel K kg excl es) = members_nv (nase_view K) (n_NodeID n) kg excl"
    "(node, x) \<in> set (sel K kg excl es) \<Longrightarrow> x = nv_exp (nase_view K) kg node" for node x
    using es(3) by (force simp: sel_def members_nv_def image_iff)+
  have ok: "ok_name node" if "node \<in> members_nv (nase_view K) (n_NodeID n) kg excl" for node
    using that es(3,4) by (auto simp: members_nv_def nase_view_def)
  show ?case
    unfolding es(1) wp_andthen
  proof (rule wp_call [OF members_loop_at [OF assms es(4)]], goal_cases)
    case (4 r w1)
    obtain ids err where r: "r = (ids, err)" by force
    note 4 = 4 [unfolded r prod.case]
    have "set (?r ids) = set ids" "distinct (map fst (?r ids))" using 4 ranged_at [of ids] by simp_all
    with 4 show ?case
      using sel ok by (auto simp: r wp_ret split: option.splits)
  qed (use 1 es(2) in auto)
qed (simp add: wp_ret)

lemma permissions_loop_paths:
  assumes "\<forall>(k, v) \<in> set kvs. \<exists>m. ok_name m \<and> k = joinl (p_perm u kg m)" "ok_name u" "ok_name kg"
  shows "\<exists>ms. permissions_loop kvs = Ok ms \<and>
    set ms = {m. \<exists>v. ok_name m \<and> (joinl (p_perm u kg m), v) \<in> set kvs}"
  using assms(1)
proof (induction kvs)
  case (Cons p kvs)
  obtain k v where p: "p = (k, v)" by force
  with Cons.prems obtain m where m: "ok_name m" "k = joinl (p_perm u kg m)" by auto
  from Cons obtain ms where ms: "permissions_loop kvs = Ok ms"
    "set ms = {m. \<exists>v. ok_name m \<and> (joinl (p_perm u kg m), v) \<in> set kvs}" by auto
  have split: "split_on sep k = p_perm u kg m" using m assms(2,3) by (simp add: split_joinl)
  have inj: "joinl (p_perm u kg m') = joinl (p_perm u kg m) \<longleftrightarrow> m' = m" if "ok_name m'" for m'
    using that m(1) assms(2,3) by (subst joinl_inject) auto
  have "permissions_loop (p # kvs) = Ok (m # ms)" using ms(1) by (simp add: p split)
  moreover have "set (m # ms) = {m. \<exists>v. ok_name m \<and> (joinl (p_perm u kg m), v) \<in> set (p # kvs)}"
    using ms(2) m inj by (auto simp: p)
  ultimately show ?case by blast
qed simp

lemma permissions_at:
  assumes "kv_ok K" "ok_name u" "ok_name kg"
  shows "triple (at K) (GetUserPermissions n u kg)
    (\<lambda>ms w. at K w \<and> set ms = nv_perm (nase_view K) u kg)
    (\<lambda>e w. at K w \<and> is_wrapped e \<and> \<not> healthy)"
  unfolding GetUserPermissions_def
proof (rule triple_seq [OF getPrefix_at], goal_cases)
  case (1 res w)
  let ?r = "range_map (e_range (cli n)) res"
  have r: "set ?r = set res" using 1 ranged_at [of res] by simp
  have key: "(k, v) \<in> set res \<longleftrightarrow> (\<exists>m. k = joinl (p_perm u kg m) \<and> look K (p_perm u kg m) = Some v)" for k v
  proof -
    have "ys = []" if "look K ([''user'', u, ''kg'', kg, ''method''] @ y # ys) = Some v" for y ys
      using that by (auto simp: look_def elim: wf_path_userE split: if_splits)
    then have "(\<exists>y ys. k = joinl ([''user'', u, ''kg'', kg, ''method''] @ y # ys) \<and>
        look K ([''user'', u, ''kg'', kg, ''method''] @ y # ys) = Some v) \<longleftrightarrow>
      (\<exists>m. k = joinl (p_perm u kg m) \<and> look K (p_perm u kg m) = Some v)" by fastforce
    then show ?thesis
      using kv_prefix [OF assms(1), of "[''user'', u, ''kg'', kg, ''method'']" k v] assms(2,3) 1
      unfolding prefix_paths by simp
  qed
  have wf: "ok_name m" if "look K (p_perm u kg m) = Some v" for m v
    using that by (auto simp: look_def elim: wf_path_userE split: if_splits)
  have inj: "joinl (p_perm u kg m') = joinl (p_perm u kg m) \<longleftrightarrow> m' = m" if "ok_name m" "ok_name m'" for m m'
    using that assms(2,3) by (subst joinl_inject) auto
  have "\<forall>(k, v) \<in> set ?r. \<exists>m. ok_name m \<and> k = joinl (p_perm u kg m)"
    unfolding r using key wf by (simp add: Ball_def split_paired_all) blast
  from permissions_loop_paths [OF this assms(2,3)]
  obtain ms where ms: "permissions_loop ?r = Ok ms"
    "set ms = {m. \<exists>v. ok_name m \<and> (joinl (p_perm u kg m), v) \<in> set ?r}" by blast
  have "m \<in> set ms \<longleftrightarrow> look K (p_perm u kg m) \<noteq> None" for m
  proof -
    have "m \<in> set ms \<longleftrightarrow> ok_name m \<and> (\<exists>v. (joinl (p_perm u kg m), v) \<in> set res)"
      using ms(2) r by auto
    also have "\<dots> \<longleftrightarrow> look K (p_perm u kg m) \<noteq> None"
      unfolding key using inj wf by (metis not_Some_eq)
    finally show ?thesis .
  qed
  then have "set ms = nv_perm (nase_view K) u kg" by (auto simp: nase_view_def)
  with ms(1) 1 show ?case by (simp add: wp_of_result)
qed

subsection \<open>Writing\<close>

abbreviation nat_at :: "nview \<Rightarrow> 'w \<Rightarrow> bool" where
  "nat_at \<equiv> sat (nase_inv frame kv) (nase_of kv)"

lemma nat_atI: "at K w \<Longrightarrow> kv_ok K \<Longrightarrow> nase_view K = U \<Longrightarrow> nat_at U w"
  by (auto simp: sat_nase)

text \<open>A single write of a well-formed entry whose effect on the view is known.\<close>

lemma write_spec:
  assumes "wf_path xs" "\<And>kg m. xs = p_expiry kg m \<Longrightarrow> \<exists>x. int64 x \<and> v = Itoa x"
    and "\<And>K. nase_view (K(joinl xs \<mapsto> v)) = f (nase_view K)"
  shows "triple (nat_at U) (nput n (joinl xs) v ps) (\<lambda>_ w. nat_at (f U) w)
    (\<lambda>e w. nase_inv frame kv w \<and> is_wrapped e \<and> \<not> healthy)"
proof (rule triple_nase)
  fix K
  assume K: "kv_ok K" "nase_view K = U"
  then show "triple (at K) (nput n (joinl xs) v ps) (\<lambda>_ w. nat_at (f U) w)
    (\<lambda>e w. nase_inv frame kv w \<and> is_wrapped e \<and> \<not> healthy)"
    using assms(3) [of K] by (intro triple_conseq [OF nput_path [OF K(1) assms(1,2)]]) (auto intro: nat_atI)
qed

lemma delete_nspec:
  "ok_name kg \<Longrightarrow> triple (nat_at U) (nDeleteKeygroup n kg) (\<lambda>_ w. nat_at (delete_nv kg U) w)
    (\<lambda>e w. nase_inv frame kv w \<and> is_wrapped e \<and> \<not> healthy)"
  unfolding nDeleteKeygroup_def addKgStatusEntry_def key_paths
  by (rule write_spec) (auto simp: wf_path.intros view_status)

lemma grant_nspec:
  "ok_name u \<Longrightarrow> ok_name kg \<Longrightarrow> ok_name m \<Longrightarrow>
   triple (nat_at U) (AddUserPermissions n u m kg) (\<lambda>_ w. nat_at (grant_nv u kg m U) w)
    (\<lambda>e w. nase_inv frame kv w \<and> is_wrapped e \<and> \<not> healthy)"
  unfolding AddUserPermissions_def Let_def key_paths
  by (rule write_spec) (auto simp: wf_path.intros view_grant)

lemma report_nspec:
  "ok_name node \<Longrightarrow> ok_name kg \<Longrightarrow> ok_name i \<Longrightarrow>
   triple (nat_at U) (ReportFailedNode n node kg i) (\<lambda>_ w. nat_at (report_nv node kg i U) w)
    (\<lambda>e w. nase_inv frame kv w \<and> is_wrapped e \<and> \<not> healthy)"
  unfolding ReportFailedNode_def Let_def key_paths
  by (rule write_spec) (auto simp: wf_path.intros view_report)

lemma revoke_nspec:
  assumes "ok_name u" "ok_name kg" "ok_name m"
  shows "triple (nat_at U) (RevokeUserPermissions n u m kg) (\<lambda>_ w. nat_at (revoke_nv u kg m U) w)
    (\<lambda>e w. nase_inv frame kv w \<and> is_wrapped e \<and> \<not> healthy)"
proof (rule triple_nase)
  fix K
  assume K: "kv_ok K" "nase_view K = U"
  have "kv_ok (K(joinl (p_perm u kg m) := None))"
    by (rule kv_ok_sub [OF K(1)]) (auto split: if_splits)
  with K show "triple (at K) (RevokeUserPermissions n u m kg) (\<lambda>_ w. nat_at (revoke_nv u kg m U) w)
    (\<lambda>e w. nase_inv frame kv w \<and> is_wrapped e \<and> \<not> healthy)"
    unfolding RevokeUserPermissions_def Let_def key_paths
    by (intro triple_conseq [OF ndelete_at]) (auto intro: nat_atI sat_nase_inv simp: view_revoke [OF assms])
qed

text \<open>The operations that look at the keygroup and the node before they write.\<close>

lemma exit_at:
  assumes K: "kv_ok K" and "ok_name kg" "ok_name node"
  shows "triple (at K) (ExitOtherNodeFromKeygroup n kg node)
    (\<lambda>_ w. nat_at (exit_nv kg node (nase_view K)) w \<and> kg \<in> nv_kgs (nase_view K) \<and> nv_addr (nase_view K) node \<noteq> None)
    (\<lambda>e w. nase_inv frame kv w \<and> is_wrapped e \<and>
       (healthy \<longrightarrow> nat_at (nase_view K) w \<and> (kg \<notin> nv_kgs (nase_view K) \<or> nv_addr (nase_view K) node = None)))"
    (is "triple _ _ ?Q ?E")
proof -
  have last: "wp (addOtherKgNodeEntry n node kg ''removed'') ?Q ?E w"
    if "at K w" "kg \<in> nv_kgs (nase_view K)" "nv_addr (nase_view K) node \<noteq> None" for w
    unfolding addOtherKgNodeEntry_def Let_def key_paths
    by (rule wp_call [OF nput_path [OF K] that(1)])
       (use that assms in \<open>auto simp: wf_path.intros intro: nat_atI [OF _ _ view_exit]\<close>)
  have addr: "wp (andthen (GetNodeAddress n node) (\<lambda>_. addOtherKgNodeEntry n node kg ''removed'')) ?Q ?E w"
    if "at K w" "kg \<in> nv_kgs (nase_view K)" for w
    unfolding wp_andthen
    by (rule wp_call [OF address_at [OF assms(3)] that(1)])
       (use that K in \<open>auto intro!: wp_mono [OF last] intro: sat_nase_inv nat_atI\<close>)
  show ?thesis
    unfolding ExitOtherNodeFromKeygroup_def
    by (rule triple_seq [OF exists_at [OF assms(2)]])
       (use K in \<open>auto simp: wp_if wp_fail intro!: wp_mono [OF addr] intro: sat_nase_inv nat_atI\<close>)
qed

lemma join_at:
  assumes K: "kv_ok K" and "ok_name kg" "ok_name node" "int64 x"
  shows "triple (at K) (JoinNodeIntoKeygroup n kg node x)
    (\<lambda>_ w. nat_at (join_nv kg node x (nase_view K)) w \<and> kg \<in> nv_kgs (nase_view K) \<and> nv_addr (nase_view K) node \<noteq> None)
    (\<lambda>e w. nase_inv frame kv w \<and> is_wrapped e \<and>
       (healthy \<longrightarrow> nat_at (nase_view K) w \<and> (kg \<notin> nv_kgs (nase_view K) \<or> nv_addr (nase_view K) node = None)))"
    (is "triple _ _ ?Q ?E")
proof -
  let ?K1 = "K(joinl (p_expiry kg node) \<mapsto> Itoa x)"
  have write2: "wp (addOtherKgNodeEntry n node kg ''ok'') ?Q ?E w"
    if "at ?K1 w" "kv_ok ?K1" "kg \<in> nv_kgs (nase_view K)" "nv_addr (nase_view K) node \<noteq> None" for w
    unfolding addOtherKgNodeEntry_def Let_def key_paths
  proof (rule wp_call [OF nput_path [of ?K1 "p_member kg node" "''ok''"]], goal_cases)
    case 2
    show ?case by (intro wf_path.intros assms)
  next
    case (5 u w')
    then show ?case using that nat_atI [OF _ _ view_join [OF assms(2-4)]] by blast
  qed (use that in auto)
  have write1: "wp (andthen (addKgExpiryEntry n kg node x) (\<lambda>_. addOtherKgNodeEntry n node kg ''ok'')) ?Q ?E w"
    if "at K w" "kg \<in> nv_kgs (nase_view K)" "nv_addr (nase_view K) node \<noteq> None" for w
    unfolding addKgExpiryEntry_def Let_def key_paths wp_andthen
    by (rule wp_call [OF nput_path [OF K] that(1)])
       (use that assms in \<open>auto simp: wf_path.intros intro!: wp_mono [OF write2]\<close>)
  have addr: "wp (andthen (GetNodeAddress n node) (\<lambda>_. andthen (addKgExpiryEntry n kg node x)
      (\<lambda>_. addOtherKgNodeEntry n node kg ''ok''))) ?Q ?E w"
    if "at K w" "kg \<in> nv_kgs (nase_view K)" for w
    unfolding wp_andthen [of "GetNodeAddress n node"]
    by (rule wp_call [OF address_at [OF assms(3)] that(1)])
       (use that K in \<open>auto intro!: wp_mono [OF write1] intro: sat_nase_inv nat_atI\<close>)
  show ?thesis
    unfolding JoinNodeIntoKeygroup_def
    by (rule triple_seq [OF exists_at [OF assms(2)]])
       (use K in \<open>auto simp: wp_if wp_fail intro!: wp_mono [OF addr] intro: sat_nase_inv nat_atI\<close>)
qed

lemma register_at:
  assumes K: "kv_ok K"
  shows "triple (at K) (RegisterSelf n host ext)
    (\<lambda>_ w. nat_at (register_nv (n_NodeID n) host ext (nase_view K)) w)
    (\<lambda>e w. nase_inv frame kv w \<and> is_wrapped e \<and> \<not> healthy)"
    (is "triple _ _ ?Q ?E")
proof -
  let ?K1 = "K(joinl (p_addr (n_NodeID n)) \<mapsto> host)"
  have "wp (nput n (joinl (p_ext (n_NodeID n))) ext []) ?Q ?E w" if "at ?K1 w" "kv_ok ?K1" for w
  proof (rule wp_call [OF nput_path [of ?K1 "p_ext (n_NodeID n)" ext]], goal_cases)
    case 2
    show ?case by (intro wf_path.intros self_ok)
  next
    case (5 u w')
    then show ?case using nat_atI [OF _ _ view_register [OF self_ok]] by blast
  qed (use that in auto)
  then show ?thesis
    unfolding RegisterSelf_def key_paths
    by (intro triple_seq [OF nput_path [OF K]]) (auto simp: wf_path.intros self_ok)
qed

lemma create_at:
  assumes K: "kv_ok K" and "ok_name kg" "int64 x"
  shows "triple (at K) (nCreateKeygroup n kg mut x)
    (\<lambda>_ w. nat_at (create_nv (n_NodeID n) kg mut x (nase_view K)) w \<and> kg \<notin> nv_kgs (nase_view K))
    (\<lambda>e w. nase_inv frame kv w \<and> is_wrapped e \<and> (healthy \<longrightarrow> nat_at (nase_view K) w \<and> kg \<in> nv_kgs (nase_view K)))"
    (is "triple _ _ ?Q ?E")
proof (cases "kg \<in> nv_kgs (nase_view K)")
  case True
  then show ?thesis
    unfolding nCreateKeygroup_def
    by (intro triple_seq [OF exists_at [OF assms(2)]])
       (use K in \<open>auto simp: wp_if wp_fail intro: sat_nase_inv nat_atI\<close>)
next
  case False
  let ?K1 = "K(joinl (p_mutable kg) \<mapsto> (if mut then ''true'' else ''false''))"
  let ?K2 = "?K1(joinl (p_expiry kg (n_NodeID n)) \<mapsto> Itoa x)"
  let ?K3 = "?K2(joinl (p_status kg) \<mapsto> ''created'')"
  let ?K4 = "drop_prefix (fmtKgNodeStringPrefix kg) ?K3"
  let ?E' = "\<lambda>e w. nase_inv frame kv w \<and> is_wrapped e \<and> \<not> healthy"
  have w5: "wp (addOwnKgNodeEntry n kg ''ok'') ?Q ?E' w" if "at ?K4 w \<and> kv_ok ?K4" for w
    unfolding addOwnKgNodeEntry_def fmtKgNode_def prod.case key_paths
  proof (rule wp_call [OF nput_path [of ?K4]], goal_cases)
    case 2
    show ?case by (intro wf_path.intros assms self_ok)
  next
    case (5 u w')
    then show ?case
      using False nat_atI [OF _ _ view_create [OF assms(2) self_ok assms(3)]] by blast
  qed (use that in auto)
  have w4: "wp (andthen (wrap_err (e_DeletePrefix (cli n) (fmtKgNodeStringPrefix kg)))
      (\<lambda>_. addOwnKgNodeEntry n kg ''ok'')) ?Q ?E' w" if "at ?K3 w \<and> kv_ok ?K3" for w
  proof -
    have ok: "kv_ok ?K4"
      by (rule kv_ok_sub [of ?K3]) (use that in \<open>auto simp: drop_prefix_def restrict_map_def split: if_splits\<close>)
    show ?thesis
      unfolding wp_andthen wp_wrap_err
      by (rule wp_call [OF deletePrefix_law [of ?K3]]) (use that ok in \<open>auto intro!: wp_mono [OF w5] intro: sat_nase_inv\<close>)
  qed
  have w3: "wp (andthen (addKgStatusEntry n kg ''created'')
      (\<lambda>_. andthen (wrap_err (e_DeletePrefix (cli n) (fmtKgNodeStringPrefix kg)))
      (\<lambda>_. addOwnKgNodeEntry n kg ''ok''))) ?Q ?E' w" if "at ?K2 w \<and> kv_ok ?K2" for w
    unfolding addKgStatusEntry_def key_paths wp_andthen [of "nput _ _ _ _"]
    by (rule wp_call [OF nput_path [of ?K2]]) (use that assms in \<open>auto simp: wf_path.intros intro!: wp_mono [OF w4]\<close>)
  have w2: "wp (andthen (addKgExpiryEntry n kg (n_NodeID n) x) (\<lambda>_. andthen (addKgStatusEntry n kg ''created'')
      (\<lambda>_. andthen (wrap_err (e_DeletePrefix (cli n) (fmtKgNodeStringPrefix kg)))
      (\<lambda>_. addOwnKgNodeEntry n kg ''ok'')))) ?Q ?E' w" if "at ?K1 w \<and> kv_ok ?K1" for w
    unfolding addKgExpiryEntry_def Let_def key_paths wp_andthen [of "nput _ _ _ _"]
    by (rule wp_call [OF nput_path [of ?K1]])
       (use that assms self_ok in \<open>auto simp: wf_path.intros intro!: wp_mono [OF w3]\<close>)
  have w1: "wp (andthen (addKgMutableEntry n kg mut) (\<lambda>_. andthen (addKgExpiryEntry n kg (n_NodeID n) x)
      (\<lambda>_. andthen (addKgStatusEntry n kg ''created'')
      (\<lambda>_. andthen (wrap_err (e_DeletePrefix (cli n) (fmtKgNodeStringPrefix kg)))
      (\<lambda>_. addOwnKgNodeEntry n kg ''ok''))))) ?Q ?E' w" if "at K w" for w
    unfolding addKgMutableEntry_def key_paths wp_andthen [of "nput _ _ _ _"]
    by (rule wp_call [OF nput_path [OF K] that]) (use assms in \<open>auto simp: wf_path.intros intro!: wp_mono [OF w2]\<close>)
  show ?thesis
    unfolding nCreateKeygroup_def
    by (rule triple_seq [OF exists_at [OF assms(2)]])
       (use K False in \<open>auto simp: wp_if wp_fail intro: sat_nase_inv intro!: wp_mono [OF w1]\<close>)
qed

subsection \<open>Nodes and missed updates\<close>

lemma nodes_by_suffix_at:
  assumes "kv_ok K" and suff: "suff = ''|address'' \<and> p = p_addr \<or> suff = ''|extaddress'' \<and> p = p_ext"
  shows "triple (at K) (getAllNodesBySuffix n suff)
    (\<lambda>ns w. at K w \<and> set ns = {\<lparr>nID = node, nHost = host\<rparr> | node host. look K (p node) = Some host})
    (\<lambda>e w. at K w \<and> is_wrapped e \<and> \<not> healthy)"
  unfolding getAllNodesBySuffix_def
proof (rule triple_seq [OF getPrefix_at], goal_cases)
  case (1 res w)
  let ?r = "range_map (e_range (cli n)) res"
  have r: "set ?r = set res" using 1 ranged_at [of res] by simp
  have key: "(k, v) \<in> set res \<longleftrightarrow>
      (\<exists>y ys. k = joinl (''node'' # y # ys) \<and> look K (''node'' # y # ys) = Some v)" for k v
    using kv_prefix [OF assms(1), of "[''node'']" k v] 1 unfolding prefix_paths by simp
  have form: "\<exists>m. ok_name m \<and> (k = joinl (p_addr m) \<or> k = joinl (p_ext m))" if "(k, v) \<in> set ?r" for k v
    using that unfolding r key by (auto simp: look_def elim!: wf_path_nodeE split: if_splits)
  then obtain ns where ns: "nodes_loop suff ?r = Ok ns"
    "set ns = {\<lparr>nID = m, nHost = v\<rparr> | m v. ok_name m \<and> (joinl (p m), v) \<in> set ?r}"
    using nodes_loop_paths [of ?r, OF _ suff] by blast
  have "(joinl (p m), v) \<in> set ?r \<longleftrightarrow> look K (p m) = Some v" if "ok_name m" for m v
    using 1 that suff unfolding r
    by (auto simp: look_def wf_path.intros prefix_paths prefix_joinl)
  moreover have "ok_name m" if "look K (p m) = Some v" for m v
    using that suff by (auto simp: look_def elim: wf_path_nodeE split: if_splits)
  ultimately have "set ns = {\<lparr>nID = m, nHost = v\<rparr> | m v. look K (p m) = Some v}"
    unfolding ns(2) by auto
  then show ?case using 1 by (auto simp: ns(1) wp_of_result)
qed

lemma nodes_at:
  assumes "kv_ok K"
  shows "triple (at K) (GetAllNodes n)
    (\<lambda>ns w. at K w \<and> (\<forall>node host. host \<noteq> [] \<longrightarrow>
       (\<lparr>nID = node, nHost = host\<rparr> \<in> set ns \<longleftrightarrow> nv_addr (nase_view K) node = Some host)))
    (\<lambda>e w. at K w \<and> is_wrapped e \<and> \<not> healthy)"
  unfolding GetAllNodes_def
  by (rule triple_conseq [OF nodes_by_suffix_at [OF assms, where p = p_addr]]) (auto simp: nase_view_def)

lemma external_at:
  assumes "kv_ok K"
  shows "triple (at K) (GetAllNodesExternal n)
    (\<lambda>ns w. at K w \<and> set ns = {\<lparr>nID = node, nHost = host\<rparr> | node host. nv_ext (nase_view K) node = Some host})
    (\<lambda>e w. at K w \<and> is_wrapped e \<and> \<not> healthy)"
  unfolding GetAllNodesExternal_def
  by (rule triple_conseq [OF nodes_by_suffix_at [OF assms, where p = p_ext]]) (auto simp: nase_view_def)

lemma bigger_at:
  assumes "kv_ok K" "ok_name kg"
  shows "triple (at K) (GetNodeWithBiggerExpiry n kg)
    (\<lambda>(node, addr) w. at K w \<and> (addr \<noteq> [] \<longrightarrow> nv_addr (nase_view K) node = Some addr) \<and>
       (let others = members_nv (nase_view K) (n_NodeID n) kg True in
        healthy \<longrightarrow> others \<noteq> {} \<longrightarrow>
        (\<forall>m \<in> others. 0 \<le> nv_exp (nase_view K) kg m \<and> nv_exp (nase_view K) kg m \<le> 2147483647) \<longrightarrow>
          node \<in> others \<and> nv_addr (nase_view K) node = (if addr = [] then None else Some addr) \<and>
          (\<forall>m \<in> others. eff_expiry (nv_exp (nase_view K) kg m) \<le> eff_expiry (nv_exp (nase_view K) kg node))))
    (\<lambda>e w. False)"
    (is "triple _ _ ?Q _")
proof (rule tripleI, unfold GetNodeWithBiggerExpiry_def GetExpiry_def wp_attempt wp_andthen,
    rule wp_call [OF expiry_at [OF assms self_ok]], assumption, rule wp_call [OF members_at [OF assms]],
    goal_cases)
  case (1 w x w1)
  then show ?case by simp
next
  case (2 w x w1 r w2)
  obtain ids err where r: "r = (ids, err)" by force
  note 2 = 2 [unfolded r prod.case]
  let ?others = "members_nv (nase_view K) (n_NodeID n) kg True"
  show ?case
  proof (cases "err \<noteq> None \<or> ids = []")
    case True
    then show ?thesis using 2(3) by (auto simp: r wp_ret Let_def split: option.splits)
  next
    case False
    let ?best = "snd (bigger_loop ids 0 [])"
    have ids: "fst ` set ids = ?others" "\<forall>(node, x) \<in> set ids. x = nv_exp (nase_view K) kg node"
      using 2(3) False by auto
    have ok: "ok_name ?best"
      using bigger_loop_in [of ids 0 "[]"] 2(3) by (auto simp: ok_name_def)
    have best: "?best \<in> ?others \<and> (\<forall>m \<in> ?others. eff_expiry (nv_exp (nase_view K) kg m)
        \<le> eff_expiry (nv_exp (nase_view K) kg ?best))"
      if exp: "\<forall>m \<in> ?others. 0 \<le> nv_exp (nase_view K) kg m \<and> nv_exp (nase_view K) kg m \<le> 2147483647"
    proof -
      have "\<forall>(i, x) \<in> set ids. 0 \<le> x \<and> x \<le> MaxInt32"
        using exp ids by (force simp: MaxInt32_def)
      from bigger_loop_chosen [OF this] False
      obtain x where x: "(?best, x) \<in> set ids" "\<forall>(j, y) \<in> set ids. eff_expiry y \<le> eff_expiry x" by auto
      from x(1) ids have "?best \<in> ?others" "x = nv_exp (nase_view K) kg ?best" by force+
      moreover have "eff_expiry (nv_exp (nase_view K) kg m) \<le> eff_expiry x" if "m \<in> ?others" for m
        using that x(2) ids by (metis (mono_tags, lifting) case_prodD imageE prod.collapse)
      ultimately show ?thesis by blast
    qed
    have step: "wp (attempt (GetNodeAddress n ?best) (\<lambda>_. ret (?best, [])) (\<lambda>addr. ret (?best, addr))) ?Q
        (\<lambda>e w. False) w2"
      unfolding wp_attempt wp_ret
      by (rule wp_call [OF address_at [OF ok]]) (use 2(3) best in \<open>auto simp: Let_def\<close>)
    show ?thesis using False step by (simp add: r Let_def)
  qed
qed (simp_all add: wp_ret)

text \<open>Collecting the missed updates: the entries found are returned and removed one by one.\<close>

definition missed :: "(string \<times> string) list \<Rightarrow> Item list" where
  "missed kvs = map (\<lambda>(k, v). \<lparr>iKeygroup = split_on sep k ! 3, iID = split_on sep k ! 4, iVal = []\<rparr>) kvs"

definition cleared :: "(string \<rightharpoonup> string) \<Rightarrow> string set \<Rightarrow> 'w \<Rightarrow> bool" where
  "cleared K D w \<longleftrightarrow> (\<exists>K'. at K' w \<and> K' \<subseteq>\<^sub>m K \<and> (healthy \<longrightarrow> K' = K |` (- D)))"

lemma cleared_delete:
  "triple (cleared K D) (ndelete n k []) (\<lambda>_ w. cleared K (insert k D) w)
    (\<lambda>e w. cleared K (insert k D) w)"
proof (rule tripleI)
  fix w
  assume "cleared K D w"
  then obtain K' where K': "at K' w" "K' \<subseteq>\<^sub>m K" "healthy \<longrightarrow> K' = K |` (- D)"
    by (auto simp: cleared_def)
  then have sub: "K'(k := None) \<subseteq>\<^sub>m K" "healthy \<longrightarrow> K'(k := None) = K |` (- insert k D)"
    by (auto simp: map_le_def restrict_map_def fun_eq_iff)
  show "wp (ndelete n k []) (\<lambda>_ w. cleared K (insert k D) w) (\<lambda>e w. cleared K (insert k D) w) w"
    unfolding cleared_def by (rule wp_call [OF ndelete_at K'(1)]) (use K' sub in auto)
qed

lemma status_loop_at:
  assumes "\<forall>(k, v) \<in> set kvs. \<exists>kg i. split_on sep k = p_fail m kg i"
  shows "triple (cleared K D) (status_loop n kvs its)
    (\<lambda>r w. cleared K (D \<union> fst ` set kvs) w \<and> r = its @ missed kvs) (\<lambda>e w. False)"
  using assms
proof (induction kvs arbitrary: D its)
  case Nil
  then show ?case by (simp add: triple_def wp_ret missed_def)
next
  case (Cons p kvs)
  obtain k v where p: "p = (k, v)" by force
  with Cons.prems obtain kg i where s: "split_on sep k = p_fail m kg i" by auto
  let ?it = "\<lparr>iKeygroup = kg, iID = i, iVal = []\<rparr>"
  have IH: "triple (cleared K (insert k D)) (status_loop n kvs (its @ [?it]))
    (\<lambda>r w. cleared K (insert k D \<union> fst ` set kvs) w \<and> r = (its @ [?it]) @ missed kvs) (\<lambda>e w. False)"
    using Cons.prems by (intro Cons.IH) auto
  have "wp (status_loop n kvs (its @ [?it]))
      (\<lambda>r w. cleared K (D \<union> fst ` set (p # kvs)) w \<and> r = its @ missed (p # kvs)) (\<lambda>e w. False) w"
    if "cleared K (insert k D) w" for w
    by (rule wp_call [OF IH that]) (auto simp: p s missed_def)
  then show ?case
    by (intro tripleI) (auto simp: p s Let_def wp_attempt intro!: wp_call [OF cleared_delete])
qed

lemma status_at:
  assumes K: "kv_ok K" and node: "ok_name node"
  shows "triple (at K) (RequestNodeStatus n node)
    (\<lambda>its w. nase_inv frame kv w \<and>
       (\<forall>it \<in> set its. (iKeygroup it, iID it) \<in> nv_fail (nase_view K) node) \<and>
       (healthy \<longrightarrow> nat_at (collect_nv node (nase_view K)) w \<and>
          (\<lambda>it. (iKeygroup it, iID it)) ` set its = nv_fail (nase_view K) node))
    (\<lambda>e w. False)"
proof (rule tripleI, unfold RequestNodeStatus_def wp_attempt, rule wp_call [OF getPrefix_at],
    assumption, goal_cases)
  case (1 w res w')
  let ?r = "range_map (e_range (cli n)) res"
  have r: "set ?r = set res" using 1 ranged_at [of res] by simp
  have key: "(k, v) \<in> set res \<longleftrightarrow>
      (\<exists>kg i. k = joinl (p_fail node kg i) \<and> look K (p_fail node kg i) = Some v)" for k v
  proof -
    have path: "\<exists>kg i. y = ''kg'' \<and> ys = [kg, i]"
      if "look K ([''failnode'', node] @ y # ys) = Some v" for y ys
      using that by (auto simp: look_def elim: wf_path_failE split: if_splits)
    have "(\<exists>y ys. k = joinl ([''failnode'', node] @ y # ys) \<and>
        look K ([''failnode'', node] @ y # ys) = Some v) \<longleftrightarrow>
      (\<exists>kg i. k = joinl (p_fail node kg i) \<and> look K (p_fail node kg i) = Some v)"
    proof
      assume "\<exists>y ys. k = joinl ([''failnode'', node] @ y # ys) \<and>
        look K ([''failnode'', node] @ y # ys) = Some v"
      then obtain y ys where y: "k = joinl ([''failnode'', node] @ y # ys)"
        "look K ([''failnode'', node] @ y # ys) = Some v" by blast
      with path [OF y(2)]
      show "\<exists>kg i. k = joinl (p_fail node kg i) \<and> look K (p_fail node kg i) = Some v" by auto
    qed auto
    then show ?thesis
      using kv_prefix [OF K, of "[''failnode'', node]" k v] node 1 unfolding prefix_paths by simp
  qed
  have split: "split_on sep (joinl (p_fail node kg i)) = p_fail node kg i"
    if "look K (p_fail node kg i) = Some v" for kg i v
    using that by (intro split_joinl) (auto simp: look_def dest: wf_path_ok split: if_splits)
  have pre: "\<forall>(k, v) \<in> set ?r. \<exists>kg i. split_on sep k = p_fail node kg i"
  proof (unfold r, rule ballI, unfold case_prod_unfold)
    fix p
    assume "p \<in> set res"
    then obtain kg i where "fst p = joinl (p_fail node kg i)" "look K (p_fail node kg i) = Some (snd p)"
      using key [of "fst p" "snd p"] by auto
    then show "\<exists>kg i. split_on sep (fst p) = p_fail node kg i" using split by auto
  qed
  have items: "(\<lambda>it. (iKeygroup it, iID it)) ` set (missed ?r) = nv_fail (nase_view K) node"
  proof -
    have "(\<lambda>it. (iKeygroup it, iID it)) ` set (missed ?r) =
        (\<lambda>(k, v). (split_on sep k ! 3, split_on sep k ! 4)) ` set res"
      by (simp add: missed_def r image_image case_prod_unfold)
    also have "\<dots> = {(kg, i). look K (p_fail node kg i) \<noteq> None}"
    proof (intro set_eqI iffI)
      fix p
      assume "p \<in> (\<lambda>(k, v). (split_on sep k ! 3, split_on sep k ! 4)) ` set res"
      then obtain k v where "(k, v) \<in> set res" "p = (split_on sep k ! 3, split_on sep k ! 4)" by auto
      then show "p \<in> {(kg, i). look K (p_fail node kg i) \<noteq> None}" using key split by auto
    next
      fix p
      assume "p \<in> {(kg, i). look K (p_fail node kg i) \<noteq> None}"
      then obtain kg i v where p: "p = (kg, i)" "look K (p_fail node kg i) = Some v" by auto
      then have "(joinl (p_fail node kg i), v) \<in> set res" using key by blast
      from imageI [OF this, of "\<lambda>(k, v). (split_on sep k ! 3, split_on sep k ! 4)"]
      show "p \<in> (\<lambda>(k, v). (split_on sep k ! 3, split_on sep k ! 4)) ` set res"
        using split [OF p(2)] p(1) by simp
    qed
    finally show ?thesis by (simp add: nase_view_def)
  qed
  have keys: "K |` (- fst ` set ?r) = drop_prefix (fmtFailedNodePrefix node) K"
  proof
    fix k
    have "k \<in> fst ` set res \<longleftrightarrow> (\<exists>v. (k, v) \<in> set res)" by force
    also have "\<dots> \<longleftrightarrow> K k \<noteq> None \<and> prefix (fmtFailedNodePrefix node) k" using 1 by auto
    finally show "(K |` (- fst ` set ?r)) k = drop_prefix (fmtFailedNodePrefix node) K k"
      unfolding r by (cases "K k") (auto simp: drop_prefix_def restrict_map_def)
  qed
  have sub: "kv_ok K'" if "K' \<subseteq>\<^sub>m K" for K'
    by (rule kv_ok_sub [OF K]) (use that in \<open>auto simp: map_le_def dom_def\<close>)
  show ?case
  proof (rule wp_call [OF status_loop_at [OF pre, of K "{}" "[]"]], goal_cases)
    case 1
    then show ?case using \<open>at K w' \<and> _\<close> by (auto simp: cleared_def restrict_map_def intro!: exI [of _ K])
  next
    case (2 its w1)
    then obtain K' where K': "at K' w1" "K' \<subseteq>\<^sub>m K" "healthy \<longrightarrow> K' = drop_prefix (fmtFailedNodePrefix node) K"
      by (auto simp: cleared_def keys)
    then show ?case
      using 2 items sub [of K'] view_collect [OF K node]
      by (auto intro: sat_nase_inv nat_atI)
  qed simp
next
  case (2 w e w')
  then show ?case using K by (auto simp: wp_ret intro: sat_nase_inv)
qed

subsection \<open>The naming service implements the contract\<close>

lemma nase_refines: "nase_spec (etcdnase_NameService n) (nase_inv frame kv) (nase_of kv) healthy"
  unfolding etcdnase_NameService_def
proof (unfold_locales, unfold NameService.simps, goal_cases)
  case 1
  show ?case by (rule self_ok)
next
  case (2 kg U)
  then show ?case by (intro triple_nase triple_conseq [OF exists_at]) (auto intro: nat_atI)
next
  case (3 kg U)
  then show ?case by (intro triple_nase triple_conseq [OF mutable_at]) (auto intro: nat_atI)
next
  case (4 kg U)
  then show ?case
    unfolding GetExpiry_def
    by (intro triple_nase triple_conseq [OF expiry_at [OF _ _ self_ok]]) (auto intro: nat_atI)
next
  case (5 node U)
  then show ?case by (intro triple_nase triple_conseq [OF address_at]) (auto intro: nat_atI)
next
  case (6 kg x U mut)
  then show ?case by (intro triple_nase triple_conseq [OF create_at]) auto
next
  case (7 kg U)
  then show ?case by (rule delete_nspec)
next
  case (8 kg node x U)
  then show ?case by (intro triple_nase triple_conseq [OF join_at]) auto
next
  case (9 kg node U)
  then show ?case by (intro triple_nase triple_conseq [OF exit_at]) auto
next
  case (10 kg U excl)
  then show ?case by (intro triple_nase triple_conseq [OF members_at]) (auto intro: nat_atI)
next
  case (11 u kg mt U)
  then show ?case by (rule grant_nspec)
next
  case (12 u kg mt U)
  then show ?case by (rule revoke_nspec)
next
  case (13 u kg U)
  then show ?case by (intro triple_nase triple_conseq [OF permissions_at]) (auto intro: nat_atI)
next
  case (14 node kg i U)
  then show ?case by (rule report_nspec)
next
  case (15 node U)
  then show ?case by (intro triple_nase triple_conseq [OF status_at]) auto
next
  case (16 kg U)
  then show ?case by (intro triple_nase triple_conseq [OF bigger_at]) (auto intro: nat_atI)
next
  case (17 U host ext)
  then show ?case by (intro triple_nase triple_conseq [OF register_at]) auto
next
  case (18 U)
  then show ?case by (intro triple_nase triple_conseq [OF nodes_at]) (auto intro: nat_atI)
next
  case (19 U)
  then show ?case by (intro triple_nase triple_conseq [OF external_at]) (auto intro: nat_atI)
qed

end

sublocale etcd_backend \<subseteq> nase: nase_spec "etcdnase_NameService n" "nase_inv frame kv" "nase_of kv" healthy
  by (rule nase_refines)

end
