(* ===== verification/Etcd_Reference.thy ===== *)
theory Etcd_Reference
  imports Etcd_Correct
begin

text \<open>
  An executable etcd: an association list somewhere in the world, read with \<open>g\<close> and written with
  \<open>p\<close>. It satisfies what \<open>etcd_backend\<close> asks of the client, so the naming service can be run on
  concrete inputs and its theorems apply to it.
\<close>

type_synonym kvs = "(string \<times> string) list"

definition kv_keys :: "string \<Rightarrow> kvs \<Rightarrow> string list" where
  "kv_keys p kv = sort (remdups (filter (prefix p) (map fst kv)))"

definition kv_del :: "(string \<Rightarrow> bool) \<Rightarrow> kvs \<Rightarrow> kvs" where
  "kv_del P kv = filter (\<lambda>(k, v). \<not> P k) kv"

definition ref_etcd :: "('w \<Rightarrow> kvs) \<Rightarrow> (kvs \<Rightarrow> 'w \<Rightarrow> 'w) \<Rightarrow> 'w etcd" where
  "ref_etcd g p =
     \<lparr>e_Get = (\<lambda>k w. (Ok (case map_of (g w) k of None \<Rightarrow> [] | Some v \<Rightarrow> [(k, v)]), w)),
      e_GetPrefix = (\<lambda>pre w. (Ok (map (\<lambda>k. (k, the (map_of (g w) k))) (kv_keys pre (g w))), w)),
      e_Put = (\<lambda>k v w. (Ok (), p ((k, v) # g w) w)),
      e_Delete = (\<lambda>k w. (Ok (), p (kv_del (\<lambda>k'. k' = k) (g w)) w)),
      e_DeletePrefix = (\<lambda>pre w. (Ok (), p (kv_del (prefix pre) (g w)) w)),
      c_Get = (\<lambda>k. ret None), c_Set = (\<lambda>k v. ret ()), c_Del = (\<lambda>k. ret ()), c_Watch = (\<lambda>k b. ret ()),
      e_range = id\<rparr>"

definition ref_nase :: "('w \<Rightarrow> kvs) \<Rightarrow> (kvs \<Rightarrow> 'w \<Rightarrow> 'w) \<Rightarrow> string \<Rightarrow> 'w EtcdNase" where
  "ref_nase g p m = \<lparr>cli = ref_etcd g p, cached = False, n_NodeID = m\<rparr>"

lemma map_of_kv_del: "map_of (kv_del P kv) k = (if P k then None else map_of kv k)"
  by (induction kv) (auto simp: kv_del_def)

lemma map_of_kv_del_key: "map_of (kv_del (\<lambda>k'. k' = k) kv) = (map_of kv)(k := None)"
  by (auto simp: map_of_kv_del)

lemma map_of_kv_del_prefix: "map_of (kv_del (prefix p) kv) = drop_prefix p (map_of kv)"
  by (auto simp: map_of_kv_del drop_prefix_def)

lemma sorted_kv_keys: "sorted_wrt (<) (kv_keys p kv)"
  by (simp add: kv_keys_def strict_sorted_iff)

lemma set_kv_keys: "set (kv_keys p kv) = {k \<in> dom (map_of kv). prefix p k}"
  by (auto simp: kv_keys_def dom_map_of_conv_image_fst)

lemma kv_scan:
  "(k, v) \<in> set (map (\<lambda>k. (k, the (map_of kv k))) (kv_keys p kv)) \<longleftrightarrow> map_of kv k = Some v \<and> prefix p k"
  by (auto simp: set_kv_keys)

lemma ref_backend:
  assumes "\<And>s w. g (p s w) = s" "\<And>s w. frame (p s w) = frame w" "ok_name m"
  shows "etcd_backend (ref_nase g p m) frame (\<lambda>w. map_of (g w)) True"
  using assms
  by unfold_locales
     (simp_all add: ref_nase_def ref_etcd_def perm_order_def triple_def wp_def sat_def kv_scan
       map_of_kv_del_key map_of_kv_del_prefix comp_def sorted_kv_keys del: set_map,
      auto simp: kv_scan simp del: set_map)

definition kv_nase :: "string \<Rightarrow> kvs EtcdNase" where
  "kv_nase m = ref_nase id (\<lambda>kv _. kv) m"

interpretation kvA: etcd_backend "kv_nase ''A''" "\<lambda>_. True" map_of True
  using ref_backend [of id "\<lambda>kv _. kv" "\<lambda>_. True" "''A''"] by (simp add: kv_nase_def ok_name_def sep_def)

end
