(* ===== verification/Nase_Properties.thy ===== *)
theory Nase_Properties
  imports Etcd_Reference Handlers
begin

text \<open>
  Properties of the naming service on etcd: it implements the contract the rest of the node relies
  on, it gives back what was written into it, and what happens when a name contains the separator
  of its keys.
\<close>

section \<open>The contract\<close>

text \<open>C24: without its cache, the naming service on etcd implements the contract \<open>nase_spec\<close> of
  \<^verbatim>\<open>fred.NameService\<close>: every operation has the stated effect on keygroups, members, the addresses of
  nodes for their peers and for clients, permissions and missed updates, reports errors as such
  and never panics. etcd may fail at any call (\<open>healthy\<close> is false), and what then holds is part of
  the contract. The service with its cache is the subject of \<open>Nase_Cache\<close>.\<close>

theorem etcd_nase_refines:
  assumes "etcd_backend n frame kv healthy"
  shows "nase_spec (etcdnase_NameService n) (nase_inv frame kv) (nase_of kv) healthy"
  by (rule etcd_backend.nase_refines [OF assms])

theorem etcd_nase_refines_witness:
  "nase_spec (etcdnase_NameService (kv_nase ''A'')) (nase_inv (\<lambda>_. True) map_of) (nase_of map_of) True"
  by (rule etcd_nase_refines [OF kvA.etcd_backend_axioms])

text \<open>A call on a working naming service, seen as one run.\<close>

lemma nase_run:
  assumes "triple (sat I view (view w)) m Q E" "I w" "\<And>e w. \<not> E e w"
  shows "\<exists>x w'. m w = (Ok x, w') \<and> Q x w'"
proof -
  obtain r w' where run: "m w = (r, w')" by force
  from triple_run [OF assms(1) _ run] assms(2,3) run show ?thesis by (cases r) (auto simp: sat_def)
qed

section \<open>Missed updates\<close>

definition reported :: "string \<Rightarrow> (string \<times> string) list \<Rightarrow> nview \<Rightarrow> nview" where
  "reported node its U = U\<lparr>nv_fail := (nv_fail U)(node := nv_fail U node \<union> set its)\<rparr>"

lemma reports_at:
  assumes N: "nase_spec N I view True"
    and names: "ok_name node" "\<forall>(kg, i) \<in> set its. ok_name kg \<and> ok_name i"
  shows "triple (sat I view U) (foreach (\<lambda>(kg, i). ns_ReportFailedNode N node kg i) its)
    (\<lambda>_. sat I view (reported node its U)) (\<lambda>_ _. False)"
proof -
  have "triple (sat I view (reported node done U)) ((\<lambda>(kg, i). ns_ReportFailedNode N node kg i) p)
      (\<lambda>_. sat I view (reported node (done @ [p]) U)) (\<lambda>_ _. False)" if "p \<in> set its" for p "done"
  proof -
    obtain kg i where p: "p = (kg, i)" by force
    have step: "report_nv node kg i (reported node done U) = reported node (done @ [p]) U"
      by (simp add: reported_def report_nv_def p)
    have "ok_name kg" "ok_name i" using names(2) that by (auto simp: p)
    from nase_spec.report_spec [OF N names(1) this, of "reported node done U", unfolded step]
    show ?thesis by (simp add: p)
  qed
  then have "triple (sat I view (reported node [] U)) (foreach (\<lambda>(kg, i). ns_ReportFailedNode N node kg i) its)
      (\<lambda>_. sat I view (reported node ([] @ its) U)) (\<lambda>_ _. False)"
    by (rule triple_foreach [where I = "\<lambda>done. sat I view (reported node done U)"])
  then show ?thesis by (simp add: reported_def)
qed

text \<open>C29: without the cache and with an etcd that does not fail, the updates reported for a node
  together with those reported before and not yet collected are exactly what the node is told when
  it asks, and it is told once: the next answer is empty.\<close>

theorem report_collect_roundtrip:
  assumes B: "etcd_backend n frame kv True" and w: "nase_inv frame kv w"
    and names: "ok_name node" "\<forall>(kg, i) \<in> set its. ok_name kg \<and> ok_name i"
  shows "\<exists>w1 got w2 w3.
    foreach (\<lambda>(kg, i). ReportFailedNode n node kg i) its w = (Ok (), w1) \<and>
    RequestNodeStatus n node w1 = (Ok got, w2) \<and> (\<lambda>it. (iKeygroup it, iID it)) ` set got = nv_fail (nase_of kv w) node \<union> set its \<and>
    RequestNodeStatus n node w2 = (Ok [], w3)"
proof -
  let ?I = "nase_inv frame kv" and ?V = "nase_of kv"
  note N = etcd_backend.nase_refines [OF B]
  note status = nase_spec.status_spec [OF N names(1)]
  from nase_run [OF reports_at [OF N names] w] obtain w1 where
    w1: "foreach (\<lambda>(kg, i). ReportFailedNode n node kg i) its w = (Ok (), w1)"
      "?I w1" "?V w1 = reported node its (?V w)"
    by (auto simp: etcdnase_NameService_def sat_def)
  from nase_run [OF status w1(2)] obtain got w2 where
    w2: "RequestNodeStatus n node w1 = (Ok got, w2)" "?I w2" "?V w2 = collect_nv node (?V w1)"
      "(\<lambda>it. (iKeygroup it, iID it)) ` set got = nv_fail (?V w1) node"
    by (auto simp: etcdnase_NameService_def sat_def)
  from nase_run [OF status w2(2)] obtain got' w3 where
    "RequestNodeStatus n node w2 = (Ok got', w3)" "(\<lambda>it. (iKeygroup it, iID it)) ` set got' = nv_fail (?V w2) node"
    by (auto simp: etcdnase_NameService_def sat_def)
  with w1(1) w2 show ?thesis by (auto simp: w1(3) collect_nv_def reported_def)
qed

lemma empty_etcd: "nase_inv (\<lambda>_. True) map_of []" "nase_of map_of [] = nase_view Map.empty"
  by (simp_all add: nase_inv_def kv_ok_def look_def nase_of_def)

theorem report_collect_roundtrip_witness:
  "\<exists>w1 got w2 w3.
    foreach (\<lambda>(kg, i). ReportFailedNode (kv_nase ''A'') ''B'' kg i) [(''k'', ''1''), (''k'', ''2'')] [] = (Ok (), w1) \<and>
    RequestNodeStatus (kv_nase ''A'') ''B'' w1 = (Ok got, w2) \<and>
    (\<lambda>it. (iKeygroup it, iID it)) ` set got = {(''k'', ''1''), (''k'', ''2'')} \<and>
    RequestNodeStatus (kv_nase ''A'') ''B'' w2 = (Ok [], w3)"
  using report_collect_roundtrip [OF kvA.etcd_backend_axioms empty_etcd(1), of "''B''" "[(''k'', ''1''), (''k'', ''2'')]"]
  by (simp add: empty_etcd nase_view_def look_def ok_name_def sep_def)

section \<open>The member to ask\<close>

text \<open>C30: with an etcd that does not fail and without the cache, a node that needs data is sent to another
  member with the largest expiry, where 0 stands for no expiry at all, and gets the address of that
  member, provided the other members have expiries in 0..MaxInt32. Nothing in the code keeps expiries
  in that range: above it an expiring member is preferred to one that keeps its data forever.\<close>

theorem provider_biggest_expiry:
  assumes B: "etcd_backend n frame kv True" and w: "nase_inv frame kv w" and kg: "ok_name kg"
  defines "U \<equiv> nase_of kv w"
  defines "M \<equiv> nv_mem U kg - {n_NodeID n}"
  assumes M: "M \<noteq> {}" "\<forall>m \<in> M. 0 \<le> nv_exp U kg m \<and> nv_exp U kg m \<le> MaxInt32"
  shows "\<exists>node addr w'. GetNodeWithBiggerExpiry n kg w = (Ok (node, addr), w') \<and> node \<in> M \<and>
    nv_addr U node = (if addr = [] then None else Some addr) \<and>
    (\<forall>m \<in> M. eff_expiry (nv_exp U kg m) \<le> eff_expiry (nv_exp U kg node))"
proof -
  note N = etcd_backend.nase_refines [OF B]
  from nase_run [OF nase_spec.bigger_spec [OF N kg] w]
  obtain node addr w' where "GetNodeWithBiggerExpiry n kg w = (Ok (node, addr), w')"
    "M \<noteq> {} \<longrightarrow> (\<forall>m \<in> M. 0 \<le> nv_exp U kg m \<and> nv_exp U kg m \<le> 2147483647) \<longrightarrow>
       node \<in> M \<and> nv_addr U node = (if addr = [] then None else Some addr) \<and>
       (\<forall>m \<in> M. eff_expiry (nv_exp U kg m) \<le> eff_expiry (nv_exp U kg node))"
    by (auto simp: etcdnase_NameService_def members_nv_def M_def U_def Let_def)
  with M show ?thesis by (auto simp: MaxInt32_def)
qed

section \<open>Names with a separator\<close>

text \<open>What granting writes and what reading finds, for any names.\<close>

lemma grant_entry:
  assumes B: "etcd_backend n frame kv True"
  shows "triple (\<lambda>w. frame w) (AddUserPermissions n u mt kg)
    (\<lambda>_ w. frame w \<and> kv w (fmtUserPermissionStringPrefix u kg @ mt) = Some ''ok'') (\<lambda>_ _. False)"
    and "triple (\<lambda>w. frame w \<and> kv w key \<noteq> None) (AddUserPermissions n u mt kg)
    (\<lambda>_ w. frame w \<and> kv w key \<noteq> None) (\<lambda>_ _. False)"
proof -
  note put = etcd_backend.nput_at [OF B]
  show "triple (\<lambda>w. frame w) (AddUserPermissions n u mt kg)
    (\<lambda>_ w. frame w \<and> kv w (fmtUserPermissionStringPrefix u kg @ mt) = Some ''ok'') (\<lambda>_ _. False)"
    unfolding AddUserPermissions_def Let_def
    by (rule tripleI, rule wp_call [OF put]) (auto simp: sat_def)
  show "triple (\<lambda>w. frame w \<and> kv w key \<noteq> None) (AddUserPermissions n u mt kg)
    (\<lambda>_ w. frame w \<and> kv w key \<noteq> None) (\<lambda>_ _. False)"
    unfolding AddUserPermissions_def Let_def
    by (rule tripleI, rule wp_call [OF put]) (auto simp: sat_def)
qed

lemma permission_split:
  assumes "ok_name u" "ok_name kg" "prefix (fmtUserPermissionStringPrefix u kg) k"
  shows "\<exists>t. k = fmtUserPermissionStringPrefix u kg @ t \<and>
    split_on sep k = [''user'', u, ''kg'', kg, ''method''] @ split_on sep t"
proof -
  let ?ps = "[''user'', u, ''kg'', kg, ''method'']"
  obtain t where k: "k = fmtUserPermissionStringPrefix u kg @ t" using assms(3) by (auto simp: prefix_def)
  have "split_on sep (joinl ?ps @ sep # t) = ?ps @ split_on sep t"
    by (rule split_joinl_append) (use assms(1,2) in \<open>simp_all add: ok_name_def sep_def\<close>)
  with k show ?thesis unfolding prefix_paths by auto
qed

lemma permissions_loop_any:
  assumes "\<forall>(k, v) \<in> set kvs. 5 < length (split_on sep k)"
  shows "permissions_loop kvs = Ok (map (\<lambda>(k, v). split_on sep k ! 5) kvs)"
  using assms by (induction kvs rule: permissions_loop.induct) (auto simp: Let_def)

lemma read_entry:
  assumes B: "etcd_backend n frame kv True" and names: "ok_name u" "ok_name kg"
    and key: "prefix (fmtUserPermissionStringPrefix u kg) key"
  shows "triple (\<lambda>w. frame w \<and> kv w key \<noteq> None) (GetUserPermissions n u kg)
    (\<lambda>ms _. split_on sep key ! 5 \<in> set ms) (\<lambda>_ _. False)"
proof (rule tripleI, elim conjE exE)
  fix w assume w: "frame w" "kv w key \<noteq> None"
  let ?r = "range_map (e_range (cli n))"
  have loop: "wp (of_result (permissions_loop (?r m))) (\<lambda>ms _. split_on sep key ! 5 \<in> set ms) (\<lambda>_ _. False) w'"
    if m: "distinct (map fst m)" "\<And>k v. (k, v) \<in> set m \<longleftrightarrow> kv w k = Some v \<and> prefix (fmtUserPermissionStringPrefix u kg) k"
    for m w'
  proof -
    have r: "set (?r m) = set m" by (rule etcd_backend.ranged_at [OF B m(1)])
    have "5 < length (split_on sep k)" if "(k, v) \<in> set (?r m)" for k v
      using permission_split [OF names, of k] that m(2) split_on_nonempty by (fastforce simp: r)
    then have "permissions_loop (?r m) = Ok (map (\<lambda>(k, v). split_on sep k ! 5) (?r m))"
      by (intro permissions_loop_any) auto
    moreover obtain v where "(key, v) \<in> set (?r m)" using w(2) key m(2) r by auto
    ultimately show ?thesis by (force simp: wp_of_result)
  qed
  show "wp (GetUserPermissions n u kg) (\<lambda>ms _. split_on sep key ! 5 \<in> set ms) (\<lambda>_ _. False) w"
    unfolding GetUserPermissions_def wp_andthen
    by (intro wp_call [OF etcd_backend.getPrefix_at [OF B, of "kv w"]])
       (use w in \<open>simp_all add: sat_def loop\<close>)
qed

lemma permissions_frame:
  assumes B: "etcd_backend n frame kv True" and "frame w" "GetUserPermissions n u kg w = (r, w')"
  shows "frame w'"
proof -
  obtain x w1 where get: "getPrefix n (fmtUserPermissionStringPrefix u kg) w = (x, w1)" by force
  have "sat frame kv (kv w) w" using assms(2) by (simp add: sat_def)
  note run = triple_run [OF etcd_backend.getPrefix_at [OF B] this get]
  have "frame w1"
  proof (cases x)
    case (Ok m)
    from run(2) [OF this] show ?thesis by (simp add: sat_def)
  qed (use run(1,3) in \<open>simp_all add: sat_def\<close>)
  moreover have "w' = w1"
    using assms(3) get by (cases x) (simp_all add: GetUserPermissions_def op_runs)
  ultimately show ?thesis by simp
qed

text \<open>Granting a role with any user name writes at least one entry below that name.\<close>

lemma addRoles_entry:
  assumes B: "etcd_backend n frame kv True" and ms: "a_range a (permissions r) = m # ms"
    and a: "a_n a = etcdnase_NameService n"
  shows "triple (\<lambda>w. frame w) (addRoles a u [r] kg)
    (\<lambda>_ w. frame w \<and> kv w (fmtUserPermissionStringPrefix u kg @ m) \<noteq> None) (\<lambda>_ _. False)"
proof -
  let ?key = "fmtUserPermissionStringPrefix u kg @ m"
  let ?P = "\<lambda>_ w. frame w \<and> kv w ?key \<noteq> None"
  let ?add = "\<lambda>m. wrap_err (AddUserPermissions n u m kg)"
  have "triple (?P []) (?add x) (\<lambda>_. ?P []) (\<lambda>_ _. False)" for x
    by (rule triple_conseq [OF triple_wrap [OF grant_entry(2) [OF B, of ?key u x kg]]]) auto
  then have rest: "triple (?P []) (foreach ?add ms) (\<lambda>_. ?P ([] @ ms)) (\<lambda>_ _. False)"
    by (rule triple_foreach [where I = ?P])
  have "triple (\<lambda>w. frame w) (foreach ?add (m # ms)) (\<lambda>_. ?P []) (\<lambda>_ _. False)"
    unfolding foreach.simps
    by (rule triple_seq [OF triple_wrap [OF grant_entry(1) [OF B]]]) (use rest in \<open>auto simp: triple_def\<close>)
  then show ?thesis
    unfolding addRoles_def foreach_concat by (simp add: a ms etcdnase_NameService_def)
qed

text \<open>C28: a user who may add users to any keygroup can give every user a permission on every other
  keygroup: the name of the new user is not checked, and one that contains the separator is stored
  as a permission of another user on another keygroup. After the request that user is allowed to
  use that keygroup.\<close>

theorem add_user_escalates:
  assumes B: "etcd_backend n frame kv True" and w: "frame w"
    and h: "e_a h = \<lparr>a_n = etcdnase_NameService n, a_range = rng\<rparr>"
    and names: "ok_name u" "ok_name secret" "ok_name mt" and r: "rng (permissions r) \<noteq> []"
    and run: "HandleAddUser h attacker (u @ ''|kg|'' @ secret @ ''|method|'' @ mt) mine r w = (Ok (), w')"
  shows "\<exists>w''. isAllowed (e_a h) u mt secret w' = (Ok True, w'')"
proof -
  let ?new = "u @ ''|kg|'' @ secret @ ''|method|'' @ mt"
  obtain m ms where ms: "rng (permissions r) = m # ms" using r by (cases "rng (permissions r)") auto
  let ?key = "fmtUserPermissionStringPrefix ?new (Name mine) @ m"
  from run obtain w1 where check: "isAllowed (e_a h) attacker ''AddUser'' (Name mine) w = (Ok True, w1)"
    and add: "addRoles (e_a h) ?new [r] (Name mine) w1 = (Ok (), w')"
  proof -
    obtain y w1 where y: "isAllowed (e_a h) attacker ''AddUser'' (Name mine) w = (y, w1)" by force
    with run have "y = Ok True" by (cases y) (auto simp: HandleAddUser_def authorised_def op_runs split: if_splits)
    with run y that show ?thesis by (auto simp: HandleAddUser_def authorised_def)
  qed
  from check obtain p where "GetUserPermissions n attacker (Name mine) w = (Ok p, w1)"
    unfolding isAllowed_def by (elim andthen_OkE) (auto simp: h etcdnase_NameService_def op_runs dest: wrap_err_OkD)
  from permissions_frame [OF B w this] have "frame w1" .
  from triple_run(2) [OF addRoles_entry [OF B, of "e_a h" r m ms ?new "Name mine"] this add refl]
  have w': "frame w' \<and> kv w' ?key \<noteq> None" by (simp add: h ms)
  have pre: "prefix (fmtUserPermissionStringPrefix u secret) ?key"
    by (simp add: fmtUserPermissionStringPrefix_def prefix_def)
  from permission_split [OF names(1,2) this] obtain t where
    "?key = fmtUserPermissionStringPrefix u secret @ t"
    "split_on sep ?key = [''user'', u, ''kg'', secret, ''method''] @ split_on sep t" by blast
  moreover from this(1) have "t = mt @ sep # ''kg|'' @ Name mine @ ''|method|'' @ m"
    by (simp add: fmtUserPermissionStringPrefix_def sep_def)
  ultimately have five: "split_on sep ?key ! 5 = mt"
    using names(3) by (simp add: split_on_append ok_name_def)
  obtain x w'' where get: "GetUserPermissions n u secret w' = (x, w'')" by force
  from triple_run [OF read_entry [OF B names(1,2) pre] w' get] five get show ?thesis
    by (cases x) (simp_all add: isAllowed_def h etcdnase_NameService_def op_runs)
qed

end
