(* ===== verification/Peering.thy ===== *)
theory Peering
  imports Handlers Transport
begin

text \<open>
  pkg/peering: the client with which a node sends messages to its peers and the server that
  turns a message into a call of the peer's internal handler. The gRPC library and the stubs
  it generates are parameters: a record with \<^verbatim>\<open>Dial\<close>, which gives a connection, and one operation
  per remote procedure on a connection.
\<close>

section \<open>The client (client.go)\<close>

record 'w grpc_node =
  g_Dial :: "string \<Rightarrow> ('w, nat) op"
  g_CreateKeygroup :: "nat \<Rightarrow> string \<Rightarrow> int \<Rightarrow> ('w, unit) op"
  g_DeleteKeygroup :: "nat \<Rightarrow> string \<Rightarrow> ('w, unit) op"
  g_PutItem :: "nat \<Rightarrow> string \<Rightarrow> string \<Rightarrow> string \<Rightarrow> ('w, unit) op"
  g_AppendItem :: "nat \<Rightarrow> string \<Rightarrow> string \<Rightarrow> string \<Rightarrow> ('w, unit) op"
  g_DeleteItem :: "nat \<Rightarrow> string \<Rightarrow> string \<Rightarrow> ('w, unit) op"
  g_AddReplica :: "nat \<Rightarrow> string \<Rightarrow> string \<Rightarrow> int \<Rightarrow> ('w, unit) op"
  g_RemoveReplica :: "nat \<Rightarrow> string \<Rightarrow> string \<Rightarrow> ('w, unit) op"
  g_GetItem :: "nat \<Rightarrow> string \<Rightarrow> string \<Rightarrow> ('w, string) op"
  g_GetAllItems :: "nat \<Rightarrow> string \<Rightarrow> ('w, (string \<times> string) list) op"

text \<open>\<open>pc_conn\<close> and \<open>pc_set_conn\<close> read and write the client's map of open connections in the world.\<close>

record 'w PeeringClient =
  pc_conn :: "'w \<Rightarrow> (string \<times> nat) list"
  pc_set_conn :: "(string \<times> nat) list \<Rightarrow> 'w \<Rightarrow> 'w"
  pc_grpc :: "'w grpc_node"

definition getClient :: "'w PeeringClient \<Rightarrow> string \<Rightarrow> ('w, nat) op" where
  "getClient c host =
     andthen (gets (pc_conn c)) (\<lambda>conns.
       case map_of conns host of
         Some client \<Rightarrow> ret client
       | None \<Rightarrow>
           andthen (wrap_err (g_Dial (pc_grpc c) host)) (\<lambda>client.
           andthen (modify (\<lambda>w. pc_set_conn c (map_put host client (pc_conn c w)) w)) (\<lambda>_.
           ret client)))"

text \<open>One message: every error is wrapped, the one of \<open>getClient\<close> once more.\<close>

definition send_to :: "'w PeeringClient \<Rightarrow> string \<Rightarrow> (nat \<Rightarrow> ('w, 'a) op) \<Rightarrow> ('w, 'a) op" where
  "send_to c host rpc = andthen (wrap_err (getClient c host)) (\<lambda>client. wrap_err (rpc client))"

definition SendCreateKeygroup :: "'w PeeringClient \<Rightarrow> string \<Rightarrow> KeygroupName \<Rightarrow> int \<Rightarrow> ('w, unit) op" where
  "SendCreateKeygroup c host kgname expiry =
     send_to c host (\<lambda>client. g_CreateKeygroup (pc_grpc c) client kgname expiry)"

definition SendDeleteKeygroup :: "'w PeeringClient \<Rightarrow> string \<Rightarrow> KeygroupName \<Rightarrow> ('w, unit) op" where
  "SendDeleteKeygroup c host kgname =
     send_to c host (\<lambda>client. g_DeleteKeygroup (pc_grpc c) client kgname)"

definition SendUpdate ::
  "'w PeeringClient \<Rightarrow> string \<Rightarrow> KeygroupName \<Rightarrow> string \<Rightarrow> string \<Rightarrow> ('w, unit) op" where
  "SendUpdate c host kgname i v =
     send_to c host (\<lambda>client. g_PutItem (pc_grpc c) client kgname i v)"

definition SendAppend ::
  "'w PeeringClient \<Rightarrow> string \<Rightarrow> KeygroupName \<Rightarrow> string \<Rightarrow> string \<Rightarrow> ('w, unit) op" where
  "SendAppend c host kgname i v =
     send_to c host (\<lambda>client. g_AppendItem (pc_grpc c) client kgname i v)"

definition SendDelete :: "'w PeeringClient \<Rightarrow> string \<Rightarrow> KeygroupName \<Rightarrow> string \<Rightarrow> ('w, unit) op" where
  "SendDelete c host kgname i =
     send_to c host (\<lambda>client. g_DeleteItem (pc_grpc c) client kgname i)"

definition SendAddReplica ::
  "'w PeeringClient \<Rightarrow> string \<Rightarrow> KeygroupName \<Rightarrow> Node \<Rightarrow> int \<Rightarrow> ('w, unit) op" where
  "SendAddReplica c host kgname node expiry =
     send_to c host (\<lambda>client. g_AddReplica (pc_grpc c) client (nID node) kgname expiry)"

definition SendRemoveReplica ::
  "'w PeeringClient \<Rightarrow> string \<Rightarrow> KeygroupName \<Rightarrow> Node \<Rightarrow> ('w, unit) op" where
  "SendRemoveReplica c host kgname node =
     send_to c host (\<lambda>client. g_RemoveReplica (pc_grpc c) client (nID node) kgname)"

definition SendGetItem :: "'w PeeringClient \<Rightarrow> string \<Rightarrow> KeygroupName \<Rightarrow> string \<Rightarrow> ('w, Item) op" where
  "SendGetItem c host kgname i =
     andthen (send_to c host (\<lambda>client. g_GetItem (pc_grpc c) client kgname i)) (\<lambda>data.
       ret \<lparr>iKeygroup = kgname, iID = i, iVal = data\<rparr>)"

text \<open>Here the error of \<open>getClient\<close>, which is already wrapped, is returned as it is.\<close>

definition SendGetAllItems :: "'w PeeringClient \<Rightarrow> string \<Rightarrow> KeygroupName \<Rightarrow> ('w, Item list) op" where
  "SendGetAllItems c host kgname =
     andthen (getClient c host) (\<lambda>client.
     andthen (wrap_err (g_GetAllItems (pc_grpc c) client kgname)) (\<lambda>res.
       ret (map (\<lambda>(i, data). \<lparr>iKeygroup = kgname, iID = i, iVal = data\<rparr>) res)))"

text \<open>\<^verbatim>\<open>*peering.Client\<close> as a \<^verbatim>\<open>fred.Client\<close>.\<close>

definition peering_Client :: "'w PeeringClient \<Rightarrow> 'w Client" where
  "peering_Client c =
     \<lparr>cl_SendCreateKeygroup = SendCreateKeygroup c, cl_SendDeleteKeygroup = SendDeleteKeygroup c,
      cl_SendUpdate = SendUpdate c, cl_SendAppend = SendAppend c, cl_SendDelete = SendDelete c,
      cl_SendAddReplica = SendAddReplica c, cl_SendRemoveReplica = SendRemoveReplica c,
      cl_SendGetItem = SendGetItem c, cl_SendGetAllItems = SendGetAllItems c\<rparr>"

section \<open>The server (server.go)\<close>

text \<open>Requests carry the arguments of the message; fields the client does not set are empty.\<close>

definition srv_CreateKeygroup :: "'w inthandler \<Rightarrow> string \<Rightarrow> int \<Rightarrow> ('w, unit) op" where
  "srv_CreateKeygroup s kg expiry =
     iHandleCreateKeygroup s \<lparr>Name = kg, Mutable = False, Expiry = 0\<rparr>"

definition srv_DeleteKeygroup :: "'w inthandler \<Rightarrow> string \<Rightarrow> ('w, unit) op" where
  "srv_DeleteKeygroup s kg = iHandleDeleteKeygroup s \<lparr>Name = kg, Mutable = False, Expiry = 0\<rparr>"

definition srv_PutItem :: "'w inthandler \<Rightarrow> string \<Rightarrow> string \<Rightarrow> string \<Rightarrow> ('w, unit) op" where
  "srv_PutItem s kg i data = iHandleUpdate s \<lparr>iKeygroup = kg, iID = i, iVal = data\<rparr>"

definition srv_AppendItem :: "'w inthandler \<Rightarrow> string \<Rightarrow> string \<Rightarrow> string \<Rightarrow> ('w, unit) op" where
  "srv_AppendItem s kg i data = iHandleAppend s \<lparr>iKeygroup = kg, iID = i, iVal = data\<rparr>"

definition srv_GetItem :: "'w inthandler \<Rightarrow> string \<Rightarrow> string \<Rightarrow> ('w, string) op" where
  "srv_GetItem s kg i =
     andthen (iHandleGet s \<lparr>iKeygroup = kg, iID = i, iVal = []\<rparr>) (\<lambda>data. ret (iVal data))"

definition srv_GetAllItems :: "'w inthandler \<Rightarrow> string \<Rightarrow> ('w, (string \<times> string) list) op" where
  "srv_GetAllItems s kg =
     andthen (iHandleGetAllItems s \<lparr>Name = kg, Mutable = False, Expiry = 0\<rparr>)
       (\<lambda>data. ret (map (\<lambda>item. (iID item, iVal item)) data))"

definition srv_DeleteItem :: "'w inthandler \<Rightarrow> string \<Rightarrow> string \<Rightarrow> ('w, unit) op" where
  "srv_DeleteItem s kg i = iHandleDelete s \<lparr>iKeygroup = kg, iID = i, iVal = []\<rparr>"

definition srv_AddReplica :: "'w inthandler \<Rightarrow> string \<Rightarrow> string \<Rightarrow> int \<Rightarrow> ('w, unit) op" where
  "srv_AddReplica s node kg expiry =
     iHandleAddReplica s \<lparr>Name = kg, Mutable = False, Expiry = expiry\<rparr> \<lparr>nID = node, nHost = []\<rparr>"

definition srv_RemoveReplica :: "'w inthandler \<Rightarrow> string \<Rightarrow> string \<Rightarrow> ('w, unit) op" where
  "srv_RemoveReplica s node kg =
     iHandleRemoveReplica s \<lparr>Name = kg, Mutable = False, Expiry = 0\<rparr> \<lparr>nID = node, nHost = []\<rparr>"

section \<open>Where messages go\<close>

text \<open>
  The network: \<open>peer\<close> gives the internal handler of the node listening at a host, \<open>hostof\<close> the
  host of a connection. Dialling and the map of connections leave the data of the nodes
  (\<open>view\<close>) alone.
\<close>

locale peering_net =
  fixes c :: "'w PeeringClient"
    and hostof :: "nat \<Rightarrow> string"
    and peer :: "string \<Rightarrow> 'w inthandler"
    and up :: "string \<Rightarrow> bool"
    and inv :: "'w \<Rightarrow> bool"
    and view :: "'w \<Rightarrow> 'v"
  assumes conn_ok: "inv w \<Longrightarrow> map_of (pc_conn c w) host = Some h \<Longrightarrow> hostof h = host"
    and conn_put: "inv w \<Longrightarrow> hostof h = host \<Longrightarrow>
      inv (pc_set_conn c (map_put host h (pc_conn c w)) w) \<and>
      view (pc_set_conn c (map_put host h (pc_conn c w)) w) = view w"
    and dial: "triple (sat inv view V) (g_Dial (pc_grpc c) host)
      (\<lambda>h w. sat inv view V w \<and> hostof h = host) (\<lambda>e w. sat inv view V w \<and> \<not> up host)"
    and rpc_create: "transport (srv_CreateKeygroup (peer (hostof h)) kg x)
      (g_CreateKeygroup (pc_grpc c) h kg x) (up (hostof h))"
    and rpc_deleteKg: "transport (srv_DeleteKeygroup (peer (hostof h)) kg)
      (g_DeleteKeygroup (pc_grpc c) h kg) (up (hostof h))"
    and rpc_put: "transport (srv_PutItem (peer (hostof h)) kg i v)
      (g_PutItem (pc_grpc c) h kg i v) (up (hostof h))"
    and rpc_append: "transport (srv_AppendItem (peer (hostof h)) kg i v)
      (g_AppendItem (pc_grpc c) h kg i v) (up (hostof h))"
    and rpc_delete: "transport (srv_DeleteItem (peer (hostof h)) kg i)
      (g_DeleteItem (pc_grpc c) h kg i) (up (hostof h))"
    and rpc_add: "transport (srv_AddReplica (peer (hostof h)) n kg x)
      (g_AddReplica (pc_grpc c) h n kg x) (up (hostof h))"
    and rpc_remove: "transport (srv_RemoveReplica (peer (hostof h)) n kg)
      (g_RemoveReplica (pc_grpc c) h n kg) (up (hostof h))"
    and rpc_get: "transport (srv_GetItem (peer (hostof h)) kg i)
      (g_GetItem (pc_grpc c) h kg i) (up (hostof h))"
    and rpc_getAll: "transport (srv_GetAllItems (peer (hostof h)) kg)
      (g_GetAllItems (pc_grpc c) h kg) (up (hostof h))"
begin

abbreviation lost :: "string \<Rightarrow> 'v \<Rightarrow> ('b \<Rightarrow> 'w \<Rightarrow> bool) \<Rightarrow> (error \<Rightarrow> 'w \<Rightarrow> bool) \<Rightarrow> error \<Rightarrow> 'w \<Rightarrow> bool" where
  "lost host V Q E \<equiv> \<lambda>e w. is_wrapped e \<and>
     ((\<exists>e'. E e' w) \<or> \<not> up host \<and> (sat inv view V w \<or> (\<exists>x. Q x w)))"

lemma getClient_at:
  "triple (sat inv view V) (getClient c host)
    (\<lambda>h w. sat inv view V w \<and> hostof h = host)
    (\<lambda>e w. sat inv view V w \<and> is_wrapped e \<and> \<not> up host)"
  unfolding getClient_def
  by (rule tripleI, unfold wp_andthen wp_gets)
     (auto simp: wp_simps sat_def split: option.split dest: conn_ok conn_put
           intro!: wp_call [OF dial [unfolded sat_def, of _ host]])

lemma send_at:
  assumes "\<And>h. hostof h = host \<Longrightarrow> transport run (rpc h) (up host)"
    and "triple (sat inv view V) run Q E"
  shows "triple (sat inv view V) (send_to c host rpc) Q (lost host V Q E)"
  unfolding send_to_def
proof (rule triple_seq [OF triple_wrap [OF getClient_at]])
  fix h w assume h: "sat inv view V w \<and> hostof h = host"
  then show "wp (wrap_err (rpc h)) Q (lost host V Q E) w"
    using wp_call [OF transport_triple [OF assms(1) assms(2)], of h w] by (auto simp: wp_wrap_err)
qed auto

lemma SendCreateKeygroup_at:
  "triple (sat inv view V) (srv_CreateKeygroup (peer host) kg x) Q E \<Longrightarrow>
   triple (sat inv view V) (SendCreateKeygroup c host kg x) Q (lost host V Q E)"
  unfolding SendCreateKeygroup_def by (rule send_at) (use rpc_create in auto)

lemma SendDeleteKeygroup_at:
  "triple (sat inv view V) (srv_DeleteKeygroup (peer host) kg) Q E \<Longrightarrow>
   triple (sat inv view V) (SendDeleteKeygroup c host kg) Q (lost host V Q E)"
  unfolding SendDeleteKeygroup_def by (rule send_at) (use rpc_deleteKg in auto)

lemma SendUpdate_at:
  "triple (sat inv view V) (srv_PutItem (peer host) kg i v) Q E \<Longrightarrow>
   triple (sat inv view V) (SendUpdate c host kg i v) Q (lost host V Q E)"
  unfolding SendUpdate_def by (rule send_at) (use rpc_put in auto)

lemma SendAppend_at:
  "triple (sat inv view V) (srv_AppendItem (peer host) kg i v) Q E \<Longrightarrow>
   triple (sat inv view V) (SendAppend c host kg i v) Q (lost host V Q E)"
  unfolding SendAppend_def by (rule send_at) (use rpc_append in auto)

lemma SendDelete_at:
  "triple (sat inv view V) (srv_DeleteItem (peer host) kg i) Q E \<Longrightarrow>
   triple (sat inv view V) (SendDelete c host kg i) Q (lost host V Q E)"
  unfolding SendDelete_def by (rule send_at) (use rpc_delete in auto)

lemma SendAddReplica_at:
  "triple (sat inv view V) (srv_AddReplica (peer host) (nID n) kg x) Q E \<Longrightarrow>
   triple (sat inv view V) (SendAddReplica c host kg n x) Q (lost host V Q E)"
  unfolding SendAddReplica_def by (rule send_at) (use rpc_add in auto)

lemma SendRemoveReplica_at:
  "triple (sat inv view V) (srv_RemoveReplica (peer host) (nID n) kg) Q E \<Longrightarrow>
   triple (sat inv view V) (SendRemoveReplica c host kg n) Q (lost host V Q E)"
  unfolding SendRemoveReplica_def by (rule send_at) (use rpc_remove in auto)

lemma SendGetItem_at:
  "triple (sat inv view V) (srv_GetItem (peer host) kg i) Q E \<Longrightarrow>
   triple (sat inv view V) (SendGetItem c host kg i)
     (\<lambda>it w. iKeygroup it = kg \<and> iID it = i \<and> Q (iVal it) w) (lost host V Q E)"
  unfolding SendGetItem_def
  by (rule triple_seq, rule send_at, use rpc_get in auto) (auto simp: wp_ret)

lemma SendGetAllItems_at:
  assumes "triple (sat inv view V) (srv_GetAllItems (peer host) kg) Q E"
  shows "triple (sat inv view V) (SendGetAllItems c host kg)
     (\<lambda>its w. \<exists>m. Q m w \<and> its = items_of kg m) (lost host V Q E)"
  unfolding SendGetAllItems_def
proof (rule triple_seq [OF getClient_at])
  fix h w assume h: "sat inv view V w \<and> hostof h = host"
  then have "transport (srv_GetAllItems (peer host) kg) (g_GetAllItems (pc_grpc c) h kg) (up host)"
    using rpc_getAll by auto
  then show "wp (andthen (wrap_err (g_GetAllItems (pc_grpc c) h kg)) (\<lambda>res. ret (map
      (\<lambda>(i, data). \<lparr>iKeygroup = kg, iID = i, iVal = data\<rparr>) res)))
      (\<lambda>its w. \<exists>m. Q m w \<and> its = items_of kg m) (lost host V Q E) w"
    unfolding wp_andthen wp_wrap_err wp_ret
    by (rule wp_call [OF transport_triple [OF _ assms]]) (use h in \<open>auto simp: items_of_def\<close>)
qed auto

end

end
