(* ===== verification/Cluster.thy ===== *)
theory Cluster
  imports Peering Nase_Contract
begin

text \<open>
  Several nodes together. Every node has its own store and talks to the shared naming service
  and, through pkg/peering, to the internal handlers of the others (their replication service
  takes no part in that, so \<open>listen\<close> leaves it open). The locale \<open>cluster\<close>
  collects what the parts promise: the contracts of the store and of the naming service, the
  network, and that a part only touches its own share of the world. Stores fail on their own account
  only if \<open>hs\<close> is false, peers that are not \<open>up\<close> and trigger nodes may fail at any call. The naming
  service does not fail (its contract is taken with \<open>healthy\<close> true), and \<^verbatim>\<open>grpc.Dial\<close>, which does not wait
  for the trigger node, creates its connection: an etcd outage, for instance one in which the report of
  a missed update is lost, and the \<^verbatim>\<open>log.Fatal\<close> of \<^verbatim>\<open>getConnAndClient\<close> lie outside. Inside the locale the
  handlers of pkg/fred are specified by their effect on all stores and on the naming service at once.
\<close>

section \<open>The parts of a cluster\<close>

text \<open>Unification leaves function updates eta-expanded; the simplifier folds them again.\<close>

lemma fun_upd_fold [simp]: "(\<lambda>k. if k = m then x else f k) = f(m := x)"
  by (simp add: fun_upd_def)

lemma triple_or_error:
  assumes "triple P m Q E'" "\<And>x w. Q x w \<Longrightarrow> wp (f x) R E w"
    and "\<And>e w. E' e w \<Longrightarrow> is_wrapped e \<and> E (Wrapped msg) w"
  shows "triple P (or_error m msg f) R E"
  unfolding or_error_def using assms by (intro triple_attempt [OF assms(1)]) (auto simp: wp_simps)

locale cluster =
  fixes nodes :: "NodeID set"
    and node :: "NodeID \<Rightarrow> 'w Config"
    and pc :: "NodeID \<Rightarrow> 'w PeeringClient"
    and host :: "NodeID \<Rightarrow> string"
    and hostof :: "nat \<Rightarrow> string"
    and peer :: "string \<Rightarrow> 'w inthandler"
    and up :: "string \<Rightarrow> bool"
    and inv :: "'w \<Rightarrow> bool"
    and sv :: "NodeID \<Rightarrow> 'w \<Rightarrow> sview"
    and nv :: "'w \<Rightarrow> nview"
    and hs :: bool
  assumes self: "m \<in> nodes \<Longrightarrow> ns_GetNodeID (c_NaSe (node m)) = m"
    and client: "m \<in> nodes \<Longrightarrow> c_Client (node m) = peering_Client (pc m)"
    and range: "m \<in> nodes \<Longrightarrow> perm_order (c_range (node m))"
    and store: "m \<in> nodes \<Longrightarrow> store_spec (c_Store (node m))
      (\<lambda>w. inv w \<and> (\<forall>k. k \<noteq> m \<longrightarrow> sv k w = SV k) \<and> nv w = U) (sv m) hs"
    and nase: "m \<in> nodes \<Longrightarrow> nase_spec (c_NaSe (node m))
      (\<lambda>w. inv w \<and> (\<forall>k. sv k w = SV k)) nv True"
    and trig: "m \<in> nodes \<Longrightarrow>
      trigger_calls (\<lambda>_. sat inv (\<lambda>w. (\<lambda>k. sv k w, nv w)) V) (c_Trigger (node m))
        (\<lambda>h. tr_PutItemTrigger (c_Trigger (node m)) h kg i v) \<and>
      trigger_calls (\<lambda>_. sat inv (\<lambda>w. (\<lambda>k. sv k w, nv w)) V) (c_Trigger (node m))
        (\<lambda>h. tr_DeleteItemTrigger (c_Trigger (node m)) h kg i)"
    and net: "m \<in> nodes \<Longrightarrow>
      peering_net (pc m) hostof peer up inv (\<lambda>w. (\<lambda>k. sv k w, nv w))"
    and listen: "m \<in> nodes \<Longrightarrow> i_s (peer (host m)) = i_s (F_I (services (node m))) \<and>
      i_t (peer (host m)) = i_t (F_I (services (node m))) \<and>
      i_n (peer (host m)) = i_n (F_I (services (node m)))"
begin

abbreviation cat :: "(NodeID \<Rightarrow> sview) \<Rightarrow> nview \<Rightarrow> 'w \<Rightarrow> bool" where
  "cat SV U \<equiv> sat inv (\<lambda>w. (\<lambda>k. sv k w, nv w)) (SV, U)"

abbreviation svc :: "NodeID \<Rightarrow> 'w storeService" where
  "svc m \<equiv> \<lparr>iS = c_Store (node m)\<rparr>"

abbreviation repl :: "NodeID \<Rightarrow> 'w replicationService" where
  "repl m \<equiv> \<lparr>r_c = c_Client (node m), r_s = svc m, r_n = c_NaSe (node m)\<rparr>"

abbreviation trg :: "NodeID \<Rightarrow> 'w triggerService" where
  "trg m \<equiv> \<lparr>t_tc = c_Trigger (node m), t_s = svc m\<rparr>"

abbreviation auth :: "NodeID \<Rightarrow> 'w authService" where
  "auth m \<equiv> \<lparr>a_n = c_NaSe (node m), a_range = c_range (node m)\<rparr>"

abbreviation ext :: "NodeID \<Rightarrow> 'w exthandler" where
  "ext m \<equiv> \<lparr>e_s = svc m, e_r = repl m, e_t = trg m, e_a = auth m, e_n = c_NaSe (node m)\<rparr>"

abbreviation int :: "NodeID \<Rightarrow> 'w inthandler" where
  "int m \<equiv> \<lparr>i_s = svc m, i_r = repl m, i_t = trg m, i_n = c_NaSe (node m)\<rparr>"

lemma services_eq: "services (node m) = \<lparr>F_E = ext m, F_I = int m\<rparr>"
  by (simp add: services_def Let_def newStoreService_def newReplicationService_def
      newExthandler_def newAuthService_def newInthandler_def)

lemma sat_store:
  "sat (\<lambda>w. inv w \<and> (\<forall>k. k \<noteq> m \<longrightarrow> sv k w = SV k) \<and> nv w = U) (sv m) V = cat (SV(m := V)) U"
  by (auto simp: sat_def fun_eq_iff)

lemma sat_names:
  "sat (\<lambda>w. inv w \<and> (\<forall>k. sv k w = SV k)) nv U = cat SV U"
  by (auto simp: sat_def fun_eq_iff)

lemma item_named:
  assumes "b \<in> nodes" "inv w" "sv_items (sv b w) kg j \<noteq> None"
  shows "reg_MatchString j"
proof -
  obtain v where "sv_items (sv b w) kg j = Some v" using assms(3) by auto
  with store_spec.items_valid [OF store [OF assms(1), of "\<lambda>k. sv k w" "nv w"], of w kg j v] assms(2)
  show ?thesis by simp
qed

lemma kg_named:
  assumes "b \<in> nodes" "cat SV U w" "kg \<in> sv_kgs (SV b)"
  shows "reg_MatchString kg"
proof -
  from assms(2) have w: "inv w" "sv b w = SV b" by (auto simp: sat_def fun_eq_iff)
  with store_spec.kgs_valid [OF store [OF assms(1), of "\<lambda>k. sv k w" "nv w"], of w kg] assms(3)
  show ?thesis by simp
qed

text \<open>The store of one node, as seen from the whole cluster.\<close>

lemmas read_s = store_spec.read_at [OF store, unfolded sat_store]
lemmas exists_s = store_spec.exists_at [OF store, unfolded sat_store]
lemmas scan_s = store_spec.scan_at [OF store, unfolded sat_store]
lemmas readAll_s = store_spec.readAll_at [OF store, unfolded sat_store]
lemmas update_s = store_spec.update_at [OF store, unfolded sat_store]
lemmas delete_s = store_spec.delete_at [OF store, unfolded sat_store]
lemmas append_s = store_spec.append_at [OF store, unfolded sat_store]
lemmas createKg_s = store_spec.createKeygroup_at [OF store, unfolded sat_store]
lemmas deleteKg_s = store_spec.deleteKeygroup_at [OF store, unfolded sat_store]
lemmas getTrig_s = store_spec.getKeygroupTrigger_at [OF store, unfolded sat_store]
lemmas addTrig_s = store_spec.addKeygroupTrigger_at [OF store, unfolded sat_store]
lemmas delTrig_s = store_spec.deleteKeygroupTrigger_at [OF store, unfolded sat_store]

lemmas read_c = read_s [where V = "SV m" and m = m and SV = SV, unfolded fun_upd_triv] for m SV
lemmas exists_c = exists_s [where V = "SV m" and m = m and SV = SV, unfolded fun_upd_triv] for m SV
lemmas scan_c = scan_s [where V = "SV m" and m = m and SV = SV, unfolded fun_upd_triv] for m SV
lemmas readAll_c = readAll_s [where V = "SV m" and m = m and SV = SV, unfolded fun_upd_triv] for m SV
lemmas update_c = update_s [where V = "SV m" and m = m and SV = SV, unfolded fun_upd_triv] for m SV
lemmas delete_c = delete_s [where V = "SV m" and m = m and SV = SV, unfolded fun_upd_triv] for m SV
lemmas append_c = append_s [where V = "SV m" and m = m and SV = SV, unfolded fun_upd_triv] for m SV
lemmas createKg_c = createKg_s [where V = "SV m" and m = m and SV = SV, unfolded fun_upd_triv] for m SV
lemmas deleteKg_c = deleteKg_s [where V = "SV m" and m = m and SV = SV, unfolded fun_upd_triv] for m SV
lemmas getTrig_c = getTrig_s [where V = "SV m" and m = m and SV = SV, unfolded fun_upd_triv] for m SV
lemmas addTrig_c = addTrig_s [where V = "SV m" and m = m and SV = SV, unfolded fun_upd_triv] for m SV
lemmas delTrig_c = delTrig_s [where V = "SV m" and m = m and SV = SV, unfolded fun_upd_triv] for m SV

text \<open>The naming service, which never fails here.\<close>

lemmas kgExists_c = nase_spec.exists_spec [OF nase, unfolded sat_names]
lemmas isMutable_c = nase_spec.mutable_spec [OF nase, unfolded sat_names]
lemmas getExpiry_c = nase_spec.expiry_spec [OF nase, unfolded sat_names]
lemmas address_c = nase_spec.address_spec [OF nase, unfolded sat_names]
lemmas naseCreate_c = nase_spec.create_spec [OF nase, unfolded sat_names]
lemmas naseDelete_c = nase_spec.delete_spec [OF nase, unfolded sat_names]
lemmas join_c = nase_spec.join_spec [OF nase, unfolded sat_names]
lemmas exit_c = nase_spec.exit_spec [OF nase, unfolded sat_names]
lemmas members_c = nase_spec.members_spec [OF nase, unfolded sat_names]
lemmas report_c = nase_spec.report_spec [OF nase, unfolded sat_names]
lemmas status_c = nase_spec.status_spec [OF nase, unfolded sat_names]
lemmas bigger_c = nase_spec.bigger_spec [OF nase, unfolded sat_names]
lemmas register_c = nase_spec.register_spec [OF nase, unfolded sat_names]
lemmas external_c = nase_spec.external_spec [OF nase, unfolded sat_names]
lemmas grant_c = nase_spec.grant_spec [OF nase, unfolded sat_names]
lemmas isAllowed_c = nase_spec.isAllowed_at [OF nase, unfolded sat_names]
lemmas addRoles_c = nase_spec.addRoles_at [OF nase, unfolded sat_names]
lemmas revokeRoles_c = nase_spec.revokeRoles_at [OF nase, unfolded sat_names]

text \<open>A keygroup without triggers in a working store.\<close>

abbreviation quiet :: "string \<Rightarrow> sview \<Rightarrow> bool" where
  "quiet kg V \<equiv> hs \<and> reg_MatchString kg \<and> kg \<in> sv_kgs V \<and> sv_trigs V kg = Map.empty"

lemma trigger_all_c:
  assumes m: "m \<in> nodes" and calls: "trigger_calls (\<lambda>_. cat SV U) (c_Trigger (node m)) call"
  shows "triple (cat SV U) (trigger_all (trg m) kg call) (\<lambda>_. cat SV U)
    (\<lambda>e w. cat SV U w \<and> is_wrapped e \<and> \<not> quiet kg (SV m))"
proof -
  have nodes: "triple (cat SV U) (trigger_nodes (trg m) call ts None)
      (\<lambda>e w. cat SV U w \<and> (\<forall>x. e = Some x \<longrightarrow> is_wrapped x)) (\<lambda>_ _. False)" for ts
    by (rule triple_and_run [OF trigger_nodes_at [OF calls]]) (auto dest: trigger_nodes_wrapped [rotated])
  have round: "wp (andthen (trigger_nodes (trg m) call ts None) (\<lambda>e. case e of None \<Rightarrow> ret () | Some err \<Rightarrow> fail err))
      (\<lambda>_. cat SV U) (\<lambda>e w. cat SV U w \<and> is_wrapped e \<and> \<not> quiet kg (SV m)) w"
    if "cat SV U w" and ts: "set ts = {\<lparr>tID = t, tHost = h\<rparr> | t h. sv_trigs (SV m) kg t = Some h}" for w ts
  proof (cases "ts = []")
    case False
    then have "sv_trigs (SV m) kg \<noteq> Map.empty" using ts by (cases ts) auto
    then show ?thesis
      unfolding wp_andthen
      by (intro wp_call [OF nodes that(1)]) (auto simp: wp_simps split: option.splits)
  qed (use that(1) in \<open>simp add: wp_simps\<close>)
  show ?thesis
    unfolding trigger_all_def triggerService.simps
    by (rule triple_seq [OF getTrig_c [OF m]]) (use round in auto)
qed

lemma triggerUpdate_c:
  "m \<in> nodes \<Longrightarrow> triple (cat SV U) (triggerUpdate (trg m) it) (\<lambda>_. cat SV U)
     (\<lambda>e w. cat SV U w \<and> is_wrapped e \<and> \<not> quiet (iKeygroup it) (SV m))"
  using trig unfolding triggerUpdate_def by (intro trigger_all_c) auto

lemma triggerDelete_c:
  "m \<in> nodes \<Longrightarrow> triple (cat SV U) (triggerDelete (trg m) it) (\<lambda>_. cat SV U)
     (\<lambda>e w. cat SV U w \<and> is_wrapped e \<and> \<not> quiet (iKeygroup it) (SV m))"
  using trig unfolding triggerDelete_def by (intro trigger_all_c) auto

section \<open>What a peer does\<close>

text \<open>Every internal handler has its effect on its own store and only there; an error after the
  store was changed comes from a trigger.\<close>

lemma put_c:
  assumes "m \<in> nodes" "int64 x"
  shows "triple (cat SV U)
    (or_error (ss_update (svc m) it app x) msg (\<lambda>_. or_error (triggerUpdate (trg m) it) msg ret))
    (\<lambda>_ w. cat (SV(m := upd_item (iKeygroup it) (iID it) (iVal it) (SV m))) U w \<and>
       iKeygroup it \<in> sv_kgs (SV m))
    (\<lambda>e w. is_wrapped e \<and>
      (cat (SV(m := upd_item (iKeygroup it) (iID it) (iVal it) (SV m))) U w \<and> \<not> quiet (iKeygroup it) (SV m) \<or>
       cat SV U w \<and> \<not> (hs \<and> \<not> app \<and> reg_MatchString (iKeygroup it) \<and> reg_MatchString (iID it) \<and>
         iKeygroup it \<in> sv_kgs (SV m))))"
  using assms
  by (intro triple_or_error [OF update_c])
     (auto simp: wp_simps or_error_def upd_item_def intro!: wp_call [OF triggerUpdate_c])

lemma iHandlePut_c:
  assumes "m \<in> nodes" "ok_name (iKeygroup it)"
  shows "triple (cat SV U)
    (andthen (ns_GetExpiry (c_NaSe (node m)) (iKeygroup it)) (\<lambda>expiry.
     or_error (ss_update (svc m) it app expiry) ''error updating item'' (\<lambda>_.
     or_error (triggerUpdate (trg m) it) ''error updating item'' ret)))
    (\<lambda>_. cat (SV(m := upd_item (iKeygroup it) (iID it) (iVal it) (SV m))) U)
    (\<lambda>e w. is_wrapped e \<and>
      (cat (SV(m := upd_item (iKeygroup it) (iID it) (iVal it) (SV m))) U w \<or>
       cat SV U w \<and> \<not> (hs \<and> \<not> app \<and> reg_MatchString (iKeygroup it) \<and> reg_MatchString (iID it) \<and>
         iKeygroup it \<in> sv_kgs (SV m))))"
  using assms by (intro triple_seq [OF getExpiry_c]) (auto intro!: wp_call [OF put_c])

lemma iHandleDelete_c:
  assumes "m \<in> nodes"
  shows "triple (cat SV U) (iHandleDelete (int m) it)
    (\<lambda>_. cat (SV(m := del_item (iKeygroup it) (iID it) (SV m))) U)
    (\<lambda>e w. is_wrapped e \<and>
      (cat (SV(m := del_item (iKeygroup it) (iID it) (SV m))) U w \<or>
       cat SV U w \<and> \<not> (hs \<and> reg_MatchString (iKeygroup it) \<and> reg_MatchString (iID it) \<and>
         iKeygroup it \<in> sv_kgs (SV m) \<and> sv_items (SV m) (iKeygroup it) (iID it) \<noteq> None)))"
  using assms unfolding iHandleDelete_def inthandler.simps
  by (intro triple_or_error [OF delete_c])
     (auto simp: wp_simps or_error_def intro!: wp_call [OF triggerDelete_c])

lemma iHandleCreateKeygroup_c:
  assumes "m \<in> nodes"
  shows "triple (cat SV U) (iHandleCreateKeygroup (int m) k)
    (\<lambda>_ w. cat (SV(m := add_kg (Name k) (SV m))) U w \<and> reg_MatchString (Name k) \<and>
       (hs \<longrightarrow> Name k \<notin> sv_kgs (SV m)))
    (\<lambda>e w. is_wrapped e \<and> cat SV U w \<and> (hs \<longrightarrow> \<not> reg_MatchString (Name k) \<or> Name k \<in> sv_kgs (SV m)))"
  using assms unfolding iHandleCreateKeygroup_def inthandler.simps
  by (intro triple_or_error [OF createKg_c]) (auto simp: wp_simps)

lemma iHandleDeleteKeygroup_c:
  assumes "m \<in> nodes" "hs"
  shows "triple (cat SV U) (iHandleDeleteKeygroup (int m) k)
    (\<lambda>_ w. cat (SV(m := del_kg (Name k) (SV m))) U w \<and> Name k \<in> sv_kgs (SV m))
    (\<lambda>e w. is_wrapped e \<and> cat SV U w \<and> Name k \<notin> sv_kgs (SV m))"
  using assms unfolding iHandleDeleteKeygroup_def inthandler.simps deleteKeygroup_def
  by (intro triple_or_error [OF deleteKg_c]) (auto simp: wp_simps or_error_def)

lemma iHandleGet_c:
  assumes "m \<in> nodes"
  shows "triple (cat SV U) (iHandleGet (int m) it)
    (\<lambda>it' w. cat SV U w \<and> sv_items (SV m) (iKeygroup it) (iID it) = Some (iVal it') \<and>
       iKeygroup it \<in> sv_kgs (SV m))
    (\<lambda>e w. is_wrapped e \<and> cat SV U w \<and>
       (hs \<longrightarrow> \<not> (reg_MatchString (iKeygroup it) \<and> reg_MatchString (iID it)) \<or>
          iKeygroup it \<notin> sv_kgs (SV m) \<or> sv_items (SV m) (iKeygroup it) (iID it) = None))"
  using assms unfolding iHandleGet_def inthandler.simps
  by (intro triple_or_error [OF read_c]) (auto simp: wp_simps)

lemma iHandleGetAllItems_c:
  assumes "m \<in> nodes"
  shows "triple (cat SV U) (iHandleGetAllItems (int m) k)
    (\<lambda>its w. cat SV U w \<and> Name k \<in> sv_kgs (SV m) \<and>
       set its = {\<lparr>iKeygroup = Name k, iID = j, iVal = v\<rparr> | j v. sv_items (SV m) (Name k) j = Some v})
    (\<lambda>e w. is_wrapped e \<and> cat SV U w \<and> (hs \<longrightarrow> \<not> reg_MatchString (Name k) \<or> Name k \<notin> sv_kgs (SV m)))"
  using assms unfolding iHandleGetAllItems_def inthandler.simps
  by (intro triple_or_error [OF readAll_c]) (auto simp: wp_simps)

section \<open>Messages to a peer\<close>

lemma peer_int:
  assumes "m \<in> nodes"
  shows "i_s (peer (host m)) = svc m" "i_t (peer (host m)) = trg m" "i_n (peer (host m)) = c_NaSe (node m)"
    "srv_CreateKeygroup (peer (host m)) kg x = srv_CreateKeygroup (int m) kg x"
    "srv_DeleteKeygroup (peer (host m)) kg = srv_DeleteKeygroup (int m) kg"
    "srv_DeleteItem (peer (host m)) kg i = srv_DeleteItem (int m) kg i"
    "srv_GetItem (peer (host m)) kg i = srv_GetItem (int m) kg i"
    "srv_GetAllItems (peer (host m)) kg = srv_GetAllItems (int m) kg"
proof -
  show eq: "i_s (peer (host m)) = svc m" "i_t (peer (host m)) = trg m" "i_n (peer (host m)) = c_NaSe (node m)"
    using listen [OF assms] by (simp_all add: services_eq)
  show "srv_CreateKeygroup (peer (host m)) kg x = srv_CreateKeygroup (int m) kg x"
    "srv_DeleteKeygroup (peer (host m)) kg = srv_DeleteKeygroup (int m) kg"
    "srv_DeleteItem (peer (host m)) kg i = srv_DeleteItem (int m) kg i"
    "srv_GetItem (peer (host m)) kg i = srv_GetItem (int m) kg i"
    "srv_GetAllItems (peer (host m)) kg = srv_GetAllItems (int m) kg"
    by (simp_all add: eq srv_CreateKeygroup_def srv_DeleteKeygroup_def srv_DeleteItem_def srv_GetItem_def
        srv_GetAllItems_def iHandleCreateKeygroup_def iHandleDeleteKeygroup_def iHandleDelete_def
        iHandleGet_def iHandleGetAllItems_def deleteKeygroup_def)
qed

lemma client_sel:
  assumes "a \<in> nodes"
  shows "cl_SendCreateKeygroup (c_Client (node a)) = SendCreateKeygroup (pc a)"
    "cl_SendDeleteKeygroup (c_Client (node a)) = SendDeleteKeygroup (pc a)"
    "cl_SendUpdate (c_Client (node a)) = SendUpdate (pc a)"
    "cl_SendAppend (c_Client (node a)) = SendAppend (pc a)"
    "cl_SendDelete (c_Client (node a)) = SendDelete (pc a)"
    "cl_SendAddReplica (c_Client (node a)) = SendAddReplica (pc a)"
    "cl_SendRemoveReplica (c_Client (node a)) = SendRemoveReplica (pc a)"
    "cl_SendGetItem (c_Client (node a)) = SendGetItem (pc a)"
    "cl_SendGetAllItems (c_Client (node a)) = SendGetAllItems (pc a)"
  using assms by (simp_all add: client peering_Client_def)

lemma SendPut_c:
  assumes "a \<in> nodes" "m \<in> nodes" "ok_name kg"
  shows "triple (cat SV U) (cl_SendUpdate (c_Client (node a)) (host m) kg i v)
    (\<lambda>_. cat (SV(m := upd_item kg i v (SV m))) U)
    (\<lambda>e w. is_wrapped e \<and> (cat (SV(m := upd_item kg i v (SV m))) U w \<or>
       cat SV U w \<and> \<not> (up (host m) \<and> hs \<and> reg_MatchString kg \<and> reg_MatchString i \<and> kg \<in> sv_kgs (SV m))))"
    (is ?upd)
    and "triple (cat SV U) (cl_SendAppend (c_Client (node a)) (host m) kg i v)
    (\<lambda>_. cat (SV(m := upd_item kg i v (SV m))) U)
    (\<lambda>e w. is_wrapped e \<and> (cat (SV(m := upd_item kg i v (SV m))) U w \<or> cat SV U w))"
    (is ?app)
proof -
  note put = iHandlePut_c [where it = "\<lparr>iKeygroup = kg, iID = i, iVal = v\<rparr>", unfolded Item.simps, OF assms(2,3)]
  note N = net [OF assms(1)]
  have "triple (cat SV U) (srv_PutItem (peer (host m)) kg i v)
    (\<lambda>_. cat (SV(m := upd_item kg i v (SV m))) U)
    (\<lambda>e w. is_wrapped e \<and> (cat (SV(m := upd_item kg i v (SV m))) U w \<or>
       cat SV U w \<and> \<not> (hs \<and> \<not> False \<and> reg_MatchString kg \<and> reg_MatchString i \<and> kg \<in> sv_kgs (SV m))))"
    unfolding srv_PutItem_def iHandleUpdate_def peer_int [OF assms(2)] inthandler.simps Item.simps by (rule put)
  then show ?upd
    unfolding client_sel [OF assms(1)]
    by (rule triple_conseq [OF peering_net.SendUpdate_at [OF N]]) auto
  have "triple (cat SV U) (srv_AppendItem (peer (host m)) kg i v)
    (\<lambda>_. cat (SV(m := upd_item kg i v (SV m))) U)
    (\<lambda>e w. is_wrapped e \<and> (cat (SV(m := upd_item kg i v (SV m))) U w \<or> cat SV U w))"
    unfolding srv_AppendItem_def iHandleAppend_def peer_int [OF assms(2)] inthandler.simps Item.simps
    by (rule triple_conseq [OF put]) auto
  then show ?app
    unfolding client_sel [OF assms(1)]
    by (rule triple_conseq [OF peering_net.SendAppend_at [OF N]]) auto
qed

lemma SendDelete_c:
  assumes "a \<in> nodes" "m \<in> nodes"
  shows "triple (cat SV U) (cl_SendDelete (c_Client (node a)) (host m) kg i)
    (\<lambda>_. cat (SV(m := del_item kg i (SV m))) U)
    (\<lambda>e w. is_wrapped e \<and> (cat (SV(m := del_item kg i (SV m))) U w \<or>
       cat SV U w \<and> \<not> (up (host m) \<and> hs \<and> reg_MatchString kg \<and> reg_MatchString i \<and>
         kg \<in> sv_kgs (SV m) \<and> sv_items (SV m) kg i \<noteq> None)))"
proof -
  note del = iHandleDelete_c [where it = "\<lparr>iKeygroup = kg, iID = i, iVal = []\<rparr>", unfolded Item.simps, OF assms(2)]
  show ?thesis
    unfolding client_sel [OF assms(1)]
    by (rule triple_conseq [OF peering_net.SendDelete_at [OF net [OF assms(1)]
          del [of SV U, folded srv_DeleteItem_def, folded peer_int [OF assms(2)]]]]) auto
qed

lemma SendCreateKeygroup_c:
  assumes "a \<in> nodes" "m \<in> nodes"
  shows "triple (cat SV U) (cl_SendCreateKeygroup (c_Client (node a)) (host m) kg x)
    (\<lambda>_ w. cat (SV(m := add_kg kg (SV m))) U w \<and> reg_MatchString kg \<and> (hs \<longrightarrow> kg \<notin> sv_kgs (SV m)))
    (\<lambda>e w. is_wrapped e \<and> (cat SV U w \<or> cat (SV(m := add_kg kg (SV m))) U w) \<and>
       \<not> (up (host m) \<and> hs \<and> reg_MatchString kg \<and> kg \<notin> sv_kgs (SV m)))"
proof -
  note create = iHandleCreateKeygroup_c
    [where k = "\<lparr>Name = kg, Mutable = False, Expiry = 0\<rparr>", unfolded Keygroup.simps, OF assms(2)]
  have "triple (cat SV U) (srv_CreateKeygroup (peer (host m)) kg x)
    (\<lambda>_ w. cat (SV(m := add_kg kg (SV m))) U w \<and> reg_MatchString kg \<and> (hs \<longrightarrow> kg \<notin> sv_kgs (SV m)))
    (\<lambda>e w. cat SV U w \<and> (hs \<longrightarrow> \<not> reg_MatchString kg \<or> kg \<in> sv_kgs (SV m)))"
    unfolding peer_int [OF assms(2)] unfolding srv_CreateKeygroup_def by (rule triple_conseq [OF create]) auto
  then show ?thesis
    unfolding client_sel [OF assms(1)]
    by (rule triple_conseq [OF peering_net.SendCreateKeygroup_at [OF net [OF assms(1)]]]) auto
qed

lemma SendDeleteKeygroup_c:
  assumes "a \<in> nodes" "m \<in> nodes" "hs"
  shows "triple (cat SV U) (cl_SendDeleteKeygroup (c_Client (node a)) (host m) kg)
    (\<lambda>_. cat (SV(m := del_kg kg (SV m))) U)
    (\<lambda>e w. is_wrapped e \<and> (cat (SV(m := del_kg kg (SV m))) U w \<or>
       cat SV U w \<and> \<not> (up (host m) \<and> kg \<in> sv_kgs (SV m))))"
proof -
  note del = iHandleDeleteKeygroup_c
    [where k = "\<lparr>Name = kg, Mutable = False, Expiry = 0\<rparr>", unfolded Keygroup.simps, OF assms(2,3)]
  show ?thesis
    unfolding client_sel [OF assms(1)]
    by (rule triple_conseq [OF peering_net.SendDeleteKeygroup_at [OF net [OF assms(1)]
          del [of SV U, folded srv_DeleteKeygroup_def, folded peer_int [OF assms(2)]]]]) auto
qed

lemma SendGetItem_c:
  assumes "a \<in> nodes" "m \<in> nodes"
  shows "triple (cat SV U) (cl_SendGetItem (c_Client (node a)) (host m) kg i)
    (\<lambda>it w. cat SV U w \<and> iKeygroup it = kg \<and> iID it = i \<and> sv_items (SV m) kg i = Some (iVal it))
    (\<lambda>e w. is_wrapped e \<and> cat SV U w \<and>
       (up (host m) \<and> hs \<longrightarrow> \<not> (reg_MatchString kg \<and> reg_MatchString i) \<or>
          kg \<notin> sv_kgs (SV m) \<or> sv_items (SV m) kg i = None))"
proof -
  note get = iHandleGet_c [where it = "\<lparr>iKeygroup = kg, iID = i, iVal = []\<rparr>", unfolded Item.simps, OF assms(2)]
  have "triple (cat SV U) (srv_GetItem (peer (host m)) kg i)
    (\<lambda>v w. cat SV U w \<and> sv_items (SV m) kg i = Some v \<and> kg \<in> sv_kgs (SV m))
    (\<lambda>e w. is_wrapped e \<and> cat SV U w \<and> (hs \<longrightarrow> \<not> (reg_MatchString kg \<and> reg_MatchString i) \<or>
          kg \<notin> sv_kgs (SV m) \<or> sv_items (SV m) kg i = None))"
    unfolding peer_int [OF assms(2)] unfolding srv_GetItem_def
    by (rule triple_seq [OF get]) (auto simp: wp_ret)
  then show ?thesis
    unfolding client_sel [OF assms(1)]
    by (rule triple_conseq [OF peering_net.SendGetItem_at [OF net [OF assms(1)]]]) auto
qed

lemma SendGetAllItems_c:
  assumes "a \<in> nodes" "m \<in> nodes"
  shows "triple (cat SV U) (cl_SendGetAllItems (c_Client (node a)) (host m) kg)
    (\<lambda>its w. cat SV U w \<and> kg \<in> sv_kgs (SV m) \<and>
       set its = {\<lparr>iKeygroup = kg, iID = j, iVal = v\<rparr> | j v. sv_items (SV m) kg j = Some v})
    (\<lambda>e w. is_wrapped e \<and> cat SV U w \<and>
       (up (host m) \<and> hs \<longrightarrow> \<not> reg_MatchString kg \<or> kg \<notin> sv_kgs (SV m)))"
proof -
  note get = iHandleGetAllItems_c
    [where k = "\<lparr>Name = kg, Mutable = False, Expiry = 0\<rparr>", unfolded Keygroup.simps, OF assms(2)]
  let ?I = "{\<lparr>iKeygroup = kg, iID = j, iVal = v\<rparr> | j v. sv_items (SV m) kg j = Some v}"
  have pairs: "(\<lambda>it. (iID it, iVal it)) ` ?I = {(j, v). sv_items (SV m) kg j = Some v}"
  proof -
    have "?I = (\<lambda>(j, v). \<lparr>iKeygroup = kg, iID = j, iVal = v\<rparr>) ` {(j, v). sv_items (SV m) kg j = Some v}"
      by auto
    then show ?thesis by (simp add: image_image case_prod_unfold)
  qed
  have items: "set (items_of kg ps) = ?I" if "set ps = {(j, v). sv_items (SV m) kg j = Some v}" for ps
    using that by (auto simp: items_of_def)
  have "triple (cat SV U) (srv_GetAllItems (peer (host m)) kg)
    (\<lambda>ps w. cat SV U w \<and> kg \<in> sv_kgs (SV m) \<and> set ps = {(j, v). sv_items (SV m) kg j = Some v})
    (\<lambda>e w. is_wrapped e \<and> cat SV U w \<and> (hs \<longrightarrow> \<not> reg_MatchString kg \<or> kg \<notin> sv_kgs (SV m)))"
    unfolding peer_int [OF assms(2)] unfolding srv_GetAllItems_def
    by (rule triple_seq [OF get [of SV U]]) (simp_all add: wp_ret pairs)
  then show ?thesis
    unfolding client_sel [OF assms(1)]
    by (rule triple_conseq [OF peering_net.SendGetAllItems_at [OF net [OF assms(1)]]])
       (use items in auto)
qed

text \<open>The messages about replicas only inform: the receiver does nothing.\<close>

lemma SendReplica_c:
  assumes "a \<in> nodes" "m \<in> nodes"
  shows "triple (cat SV U) (cl_SendAddReplica (c_Client (node a)) (host m) kg n x)
      (\<lambda>_. cat SV U) (\<lambda>e w. is_wrapped e \<and> cat SV U w \<and> \<not> up (host m))"
    and "triple (cat SV U) (cl_SendRemoveReplica (c_Client (node a)) (host m) kg n)
      (\<lambda>_. cat SV U) (\<lambda>e w. is_wrapped e \<and> cat SV U w \<and> \<not> up (host m))"
proof -
  have nop: "triple (cat SV U) (srv_AddReplica h n' kg x) (\<lambda>_. cat SV U) (\<lambda>_ _. False)"
    "triple (cat SV U) (srv_RemoveReplica h n' kg) (\<lambda>_. cat SV U) (\<lambda>_ _. False)" for h n'
    by (simp_all add: srv_AddReplica_def srv_RemoveReplica_def iHandleAddReplica_def
        iHandleRemoveReplica_def addReplica_def removeReplica_def triple_def wp_ret)
  show "triple (cat SV U) (cl_SendAddReplica (c_Client (node a)) (host m) kg n x)
      (\<lambda>_. cat SV U) (\<lambda>e w. is_wrapped e \<and> cat SV U w \<and> \<not> up (host m))"
    unfolding client_sel [OF assms(1)]
    by (rule triple_conseq [OF peering_net.SendAddReplica_at [OF net [OF assms(1)] nop(1)]]) auto
  show "triple (cat SV U) (cl_SendRemoveReplica (c_Client (node a)) (host m) kg n)
      (\<lambda>_. cat SV U) (\<lambda>e w. is_wrapped e \<and> cat SV U w \<and> \<not> up (host m))"
    unfolding client_sel [OF assms(1)]
    by (rule triple_conseq [OF peering_net.SendRemoveReplica_at [OF net [OF assms(1)] nop(2)]]) auto
qed

end

section \<open>Relaying\<close>

text \<open>
  What relaying the effect \<open>eff\<close> of an item to the members \<open>M\<close> leaves: a member has it, or it is
  recorded as missed for this member; members that can be reached have it, other nodes and the
  rest of the naming service are as before.
\<close>

definition relayed ::
  "(sview \<Rightarrow> sview) \<Rightarrow> (NodeID \<Rightarrow> sview \<Rightarrow> bool) \<Rightarrow> string \<times> string \<Rightarrow> NodeID set
     \<Rightarrow> (NodeID \<Rightarrow> sview) \<Rightarrow> nview \<Rightarrow> (NodeID \<Rightarrow> sview) \<Rightarrow> nview \<Rightarrow> bool" where
  "relayed eff reach it M SV U SV' U' \<longleftrightarrow>
     (\<forall>m. m \<notin> M \<longrightarrow> SV' m = SV m) \<and>
     (\<forall>m \<in> M. SV' m = eff (SV m) \<or> SV' m = SV m \<and> it \<in> nv_fail U' m \<and> \<not> reach m (SV m)) \<and>
     (\<exists>F. U' = U\<lparr>nv_fail := F\<rparr> \<and>
        (\<forall>m. F m = nv_fail U m \<or> m \<in> M \<and> F m = insert it (nv_fail U m)))"

lemma relayed_empty [simp]: "relayed eff reach it {} SV U SV' U' \<longleftrightarrow> SV' = SV \<and> U' = U"
  by (auto simp: relayed_def simp flip: fun_eq_iff)

lemma relayed_step:
  assumes "relayed eff reach it M SV U SV' U'" "m \<notin> M"
  shows "relayed eff reach it (insert m M) SV U (SV'(m := eff (SV' m))) U'"
    and "relayed eff reach it (insert m M) SV U (SV'(m := eff (SV' m))) (report_nv m (fst it) (snd it) U')"
    and "\<not> reach m (SV' m) \<Longrightarrow>
      relayed eff reach it (insert m M) SV U SV' (report_nv m (fst it) (snd it) U')"
proof -
  obtain F where F: "U' = U\<lparr>nv_fail := F\<rparr>"
    "\<forall>k. F k = nv_fail U k \<or> k \<in> M \<and> F k = insert it (nv_fail U k)"
    using assms(1) by (auto simp: relayed_def)
  have "\<exists>F'. U\<lparr>nv_fail := F\<rparr> = U\<lparr>nv_fail := F'\<rparr> \<and>
      (\<forall>k. F' k = nv_fail U k \<or> (k = m \<or> k \<in> M) \<and> F' k = insert it (nv_fail U k))"
    using F(2) by (intro exI [of _ F]) auto
  moreover have "\<exists>F'. U\<lparr>nv_fail := F(m := insert it (F m))\<rparr> = U\<lparr>nv_fail := F'\<rparr> \<and>
      (\<forall>k. F' k = nv_fail U k \<or> (k = m \<or> k \<in> M) \<and> F' k = insert it (nv_fail U k))"
    using F(2) assms(2) by (intro exI [of _ "F(m := insert it (F m))"]) auto
  ultimately show "relayed eff reach it (insert m M) SV U (SV'(m := eff (SV' m))) U'"
    "relayed eff reach it (insert m M) SV U (SV'(m := eff (SV' m))) (report_nv m (fst it) (snd it) U')"
    "\<not> reach m (SV' m) \<Longrightarrow>
      relayed eff reach it (insert m M) SV U SV' (report_nv m (fst it) (snd it) U')"
    using assms unfolding relayed_def report_nv_def F(1) by auto
qed

context cluster
begin

lemma or_report_c:
  assumes a: "a \<in> nodes" and m: "ok_name m" "ok_name (fst it)" "ok_name (snd it)"
    and new: "m \<notin> M" "relayed eff reach it M SV U SV' U'"
    and send: "triple (cat SV' U') send (\<lambda>_. cat (SV'(m := eff (SV' m))) U')
      (\<lambda>e w. cat (SV'(m := eff (SV' m))) U' w \<or> cat SV' U' w \<and> \<not> reach m (SV' m))"
  shows "triple (cat SV' U') (or_report (repl a) send m (fst it) (snd it))
    (\<lambda>_ w. \<exists>SV'' U''. cat SV'' U'' w \<and> relayed eff reach it (insert m M) SV U SV'' U'') (\<lambda>_ _. False)"
  unfolding or_report_def reportNodeFail_def replicationService.simps
proof (rule triple_attempt [OF send])
  have rep: "wp (attempt (ns_ReportFailedNode (c_NaSe (node a)) m (fst it) (snd it)) (\<lambda>_. ret ()) ret)
      (\<lambda>_ w. \<exists>SV'' U''. cat SV'' U'' w \<and> relayed eff reach it (insert m M) SV U SV'' U'') (\<lambda>_ _. False) w"
    if "cat SV0 U' w" "relayed eff reach it (insert m M) SV U SV0 (report_nv m (fst it) (snd it) U')" for SV0 w
    unfolding wp_attempt wp_ret by (rule wp_call [OF report_c [OF a m] that(1)]) (use that(2) in auto)
  show "wp (attempt (ns_ReportFailedNode (c_NaSe (node a)) m (fst it) (snd it)) (\<lambda>_. ret ()) ret)
      (\<lambda>_ w. \<exists>SV'' U''. cat SV'' U'' w \<and> relayed eff reach it (insert m M) SV U SV'' U'') (\<lambda>_ _. False) w"
    if "cat (SV'(m := eff (SV' m))) U' w \<or> cat SV' U' w \<and> \<not> reach m (SV' m)" for w
    using that relayed_step [OF new(2,1)] by (auto intro: rep)
qed (use relayed_step [OF new(2,1)] in \<open>auto simp: wp_ret\<close>)

lemma relay_c:
  assumes a: "a \<in> nodes" and it: "ok_name (iKeygroup it)" "ok_name (iID it)"
    and ids: "distinct (map fst ids)" "\<And>m. m \<in> fst ` set ids \<Longrightarrow> m \<in> nodes \<and> ok_name m \<and> nv_addr U m = Some (host m)"
    and send: "\<And>m SV U. m \<in> fst ` set ids \<Longrightarrow>
      triple (cat SV U) (send (host m)) (\<lambda>_. cat (SV(m := eff (SV m))) U)
      (\<lambda>e w. cat (SV(m := eff (SV m))) U w \<or> cat SV U w \<and> \<not> reach m (SV m))"
  shows "triple (cat SV U) (foreach (relay_to (repl a) send it) ids)
    (\<lambda>_ w. \<exists>SV' U'. cat SV' U' w \<and>
       relayed eff reach (iKeygroup it, iID it) (fst ` set ids) SV U SV' U') (\<lambda>_ _. False)"
proof -
  let ?I = "\<lambda>done w. \<exists>SV' U'. cat SV' U' w \<and>
    relayed eff reach (iKeygroup it, iID it) (fst ` set done) SV U SV' U'"
  have "triple (?I done) (relay_to (repl a) send it p) (\<lambda>_. ?I (done @ [p])) (\<lambda>_ _. False)"
    if split: "ids = done @ p # rest" for p "done" rest
  proof (rule tripleI, elim exE conjE)
    fix w SV' U' assume w: "cat SV' U' w"
      and rel: "relayed eff reach (iKeygroup it, iID it) (fst ` set done) SV U SV' U'"
    obtain m x where p: "p = (m, x)" by force
    have m: "m \<in> nodes" "ok_name m" "nv_addr U' m = Some (host m)" and new: "m \<notin> fst ` set done"
      using ids split rel by (auto simp: p relayed_def)
    note report = or_report_c [where it = "(iKeygroup it, iID it)", unfolded fst_conv snd_conv,
        OF a m(2) it new rel send]
    show "wp (relay_to (repl a) send it p) (\<lambda>_. ?I (done @ [p])) (\<lambda>_ _. False) w"
      unfolding relay_to_def p prod.case wp_andthen replicationService.simps
      by (rule wp_call [OF address_c [OF a m(2)] w])
         (use m(3) split in \<open>auto simp: p intro!: wp_call [OF report]\<close>)
  qed
  from triple_foreach_prefix [of ids ?I, OF this] show ?thesis by simp
qed

end

text \<open>The members of a keygroup are nodes of the cluster registered under their address.\<close>

definition placed :: "NodeID set \<Rightarrow> (NodeID \<Rightarrow> string) \<Rightarrow> nview \<Rightarrow> KeygroupName \<Rightarrow> bool" where
  "placed nodes host U kg \<longleftrightarrow> (\<forall>m \<in> nv_mem U kg. m \<in> nodes \<and> nv_addr U m = Some (host m))"

abbreviation others :: "nview \<Rightarrow> KeygroupName \<Rightarrow> NodeID \<Rightarrow> NodeID set" where
  "others U kg a \<equiv> nv_mem U kg - {a}"

context cluster
begin

lemma node_ok: "m \<in> nodes \<Longrightarrow> ok_name m"
  using nase_spec.self_ok [OF nase] self by auto

lemma if_exists_c:
  assumes "a \<in> nodes" "ok_name kg" "kg \<in> nv_kgs U \<Longrightarrow> triple (cat SV U) f Q E"
    and "\<And>w. cat SV U w \<Longrightarrow> kg \<notin> nv_kgs U \<Longrightarrow> E (no_such_keygroup_nase kg) w"
  shows "triple (cat SV U) (if_exists (repl a) kg f) Q E"
  unfolding if_exists_def replicationService.simps
  by (rule triple_seq [OF kgExists_c]) (use assms in \<open>auto simp: wp_simps triple_def\<close>)

lemma members_or_fail_c:
  assumes "a \<in> nodes" "ok_name kg"
  shows "triple (cat SV U) (members_or_fail (repl a) kg excl)
    (\<lambda>ids w. cat SV U w \<and> distinct (map fst ids) \<and>
       fst ` set ids = (if excl then others U kg a else nv_mem U kg)) (\<lambda>_ _. False)"
  unfolding members_or_fail_def replicationService.simps
  by (rule triple_seq [OF members_c])
     (use assms in \<open>auto simp: wp_simps members_nv_def self split: option.splits\<close>)

lemma relay_members_c:
  assumes a: "a \<in> nodes" and it: "ok_name (iKeygroup it)" "ok_name (iID it)"
    and pl: "placed nodes host U (iKeygroup it)"
    and send: "\<And>m SV U. m \<in> nodes \<Longrightarrow>
      triple (cat SV U) (send (host m)) (\<lambda>_. cat (SV(m := eff (SV m))) U)
      (\<lambda>e w. cat (SV(m := eff (SV m))) U w \<or> cat SV U w \<and> \<not> reach m (SV m))"
  shows "triple (cat SV U)
    (if_exists (repl a) (iKeygroup it)
       (andthen (members_or_fail (repl a) (iKeygroup it) True) (foreach (relay_to (repl a) send it))))
    (\<lambda>_ w. iKeygroup it \<in> nv_kgs U \<and> (\<exists>SV' U'. cat SV' U' w \<and>
       relayed eff reach (iKeygroup it, iID it) (others U (iKeygroup it) a) SV U SV' U'))
    (\<lambda>e w. is_wrapped e \<and> cat SV U w \<and> iKeygroup it \<notin> nv_kgs U)"
proof (rule if_exists_c [OF a it(1)])
  assume kg: "iKeygroup it \<in> nv_kgs U"
  show "triple (cat SV U)
    (andthen (members_or_fail (repl a) (iKeygroup it) True) (foreach (relay_to (repl a) send it)))
    (\<lambda>_ w. iKeygroup it \<in> nv_kgs U \<and> (\<exists>SV' U'. cat SV' U' w \<and>
       relayed eff reach (iKeygroup it, iID it) (others U (iKeygroup it) a) SV U SV' U'))
    (\<lambda>e w. is_wrapped e \<and> cat SV U w \<and> iKeygroup it \<notin> nv_kgs U)"
  proof (rule triple_seq [OF members_or_fail_c [OF a it(1)]])
    fix ids :: "(NodeID \<times> int) list" and w
    assume ids: "cat SV U w \<and> distinct (map fst ids) \<and>
      fst ` set ids = (if True then others U (iKeygroup it) a else nv_mem U (iKeygroup it))"
    with pl have ok: "m \<in> nodes \<and> ok_name m \<and> nv_addr U m = Some (host m)" if "m \<in> fst ` set ids" for m
      using that by (auto simp: placed_def node_ok)
    note loop = relay_c [of a it ids U send eff reach SV, OF a it _ ok send]
    show "wp (foreach (relay_to (repl a) send it) ids)
       (\<lambda>_ w. iKeygroup it \<in> nv_kgs U \<and> (\<exists>SV' U'. cat SV' U' w \<and>
         relayed eff reach (iKeygroup it, iID it) (others U (iKeygroup it) a) SV U SV' U'))
       (\<lambda>e w. is_wrapped e \<and> cat SV U w \<and> iKeygroup it \<notin> nv_kgs U) w"
      by (rule wp_call [OF loop]) (use ids kg ok in auto)
  qed simp
qed (simp add: no_such_keygroup_nase_def)

text \<open>Nodes that take an update: up, with a working store that knows the keygroup.\<close>

abbreviation takes :: "string \<Rightarrow> string \<Rightarrow> NodeID \<Rightarrow> sview \<Rightarrow> bool" where
  "takes kg i \<equiv> \<lambda>m V. up (host m) \<and> hs \<and> reg_MatchString kg \<and> reg_MatchString i \<and> kg \<in> sv_kgs V"

lemma relayUpdate_c:
  assumes a: "a \<in> nodes" and it: "ok_name (iKeygroup it)" "ok_name (iID it)"
    and pl: "placed nodes host U (iKeygroup it)"
  shows "triple (cat SV U) (relayUpdate (repl a) it)
    (\<lambda>_ w. iKeygroup it \<in> nv_kgs U \<and> (\<exists>SV' U'. cat SV' U' w \<and>
       relayed (upd_item (iKeygroup it) (iID it) (iVal it)) (takes (iKeygroup it) (iID it))
         (iKeygroup it, iID it) (others U (iKeygroup it) a) SV U SV' U'))
    (\<lambda>e w. is_wrapped e \<and> cat SV U w \<and> iKeygroup it \<notin> nv_kgs U)"
  unfolding relayUpdate_def
  by (rule relay_members_c [OF assms]) (simp, rule triple_conseq [OF SendPut_c(1) [OF a]], use it in auto)

lemma relayAppend_c:
  assumes a: "a \<in> nodes" and it: "ok_name (iKeygroup it)" "ok_name (iID it)"
    and pl: "placed nodes host U (iKeygroup it)"
  shows "triple (cat SV U) (relayAppend (repl a) it)
    (\<lambda>_ w. iKeygroup it \<in> nv_kgs U \<and> (\<exists>SV' U'. cat SV' U' w \<and>
       relayed (upd_item (iKeygroup it) (iID it) (iVal it)) (\<lambda>_ _. False)
         (iKeygroup it, iID it) (others U (iKeygroup it) a) SV U SV' U'))
    (\<lambda>e w. is_wrapped e \<and> cat SV U w \<and> iKeygroup it \<notin> nv_kgs U)"
  unfolding relayAppend_def
  by (rule relay_members_c [OF assms]) (simp, rule triple_conseq [OF SendPut_c(2) [OF a]], use it in auto)

lemma relayDelete_c:
  assumes a: "a \<in> nodes" and it: "ok_name (iKeygroup it)" "ok_name (iID it)"
    and pl: "placed nodes host U (iKeygroup it)"
  shows "triple (cat SV U) (relayDelete (repl a) it)
    (\<lambda>_ w. iKeygroup it \<in> nv_kgs U \<and> (\<exists>SV' U'. cat SV' U' w \<and>
       relayed (del_item (iKeygroup it) (iID it))
         (\<lambda>m V. takes (iKeygroup it) (iID it) m V \<and> sv_items V (iKeygroup it) (iID it) \<noteq> None)
         (iKeygroup it, iID it) (others U (iKeygroup it) a) SV U SV' U'))
    (\<lambda>e w. is_wrapped e \<and> cat SV U w \<and> iKeygroup it \<notin> nv_kgs U)"
proof -
  show ?thesis
    unfolding relayDelete_def
  proof (rule if_exists_c [OF a it(1)])
    assume kg: "iKeygroup it \<in> nv_kgs U"
    let ?loop = "\<lambda>ids. foreach (relay_to (repl a)
      (\<lambda>addr. cl_SendDelete (r_c (repl a)) addr (iKeygroup it) (iID it)) it) ids"
    have loop: "triple (cat SV U) (?loop ids)
      (\<lambda>_ w. \<exists>SV' U'. cat SV' U' w \<and> relayed (del_item (iKeygroup it) (iID it))
         (\<lambda>m V. takes (iKeygroup it) (iID it) m V \<and> sv_items V (iKeygroup it) (iID it) \<noteq> None)
         (iKeygroup it, iID it) (fst ` set ids) SV U SV' U') (\<lambda>_ _. False)"
      if "distinct (map fst ids)" "fst ` set ids = others U (iKeygroup it) a" for ids :: "(NodeID \<times> int) list"
      by (rule relay_c [OF a it that(1)])
         (use that pl in \<open>auto simp: placed_def node_ok intro!: triple_conseq [OF SendDelete_c [OF a]]\<close>)
    show "triple (cat SV U)
      (andthen (ns_GetKeygroupMembers (r_n (repl a)) (iKeygroup it) True)
        (\<lambda>(ids, err). andthen (?loop ids) (\<lambda>_. case err of None \<Rightarrow> ret () | Some e \<Rightarrow> fail e)))
      (\<lambda>_ w. iKeygroup it \<in> nv_kgs U \<and> (\<exists>SV' U'. cat SV' U' w \<and>
         relayed (del_item (iKeygroup it) (iID it))
           (\<lambda>m V. takes (iKeygroup it) (iID it) m V \<and> sv_items V (iKeygroup it) (iID it) \<noteq> None)
           (iKeygroup it, iID it) (others U (iKeygroup it) a) SV U SV' U'))
      (\<lambda>e w. is_wrapped e \<and> cat SV U w \<and> iKeygroup it \<notin> nv_kgs U)"
      unfolding replicationService.simps
      by (rule triple_seq [OF members_c [OF a it(1)]])
         (use kg a in \<open>auto simp: wp_simps members_nv_def self split: option.splits
            intro!: wp_call [OF loop [unfolded replicationService.simps]]\<close>, blast?)
  qed (simp add: no_such_keygroup_nase_def)
qed

end

end
