(* ===== verification/Cluster_Handlers.thy ===== *)
theory Cluster_Handlers
  imports Cluster
begin

text \<open>
  The requests of clients in a cluster: each handler of exthandler.go specified by its effect on
  all stores and the naming service, errors included. The naming service does not fail here;
  stores, peers and trigger nodes may.
\<close>

context cluster
begin

lemma authorised_c:
  assumes "a \<in> nodes" "ok_name user" "ok_name kg"
    and "mt \<in> nv_perm U user kg \<Longrightarrow> triple (cat SV U) f Q E"
    and "\<And>w. cat SV U w \<Longrightarrow> mt \<notin> nv_perm U user kg \<Longrightarrow> E (Wrapped msg) w"
  shows "triple (cat SV U) (authorised (ext a) user mt kg msg f) Q E"
  unfolding authorised_def exthandler.simps
  by (rule triple_attempt [OF isAllowed_c [OF assms(1-3)]])
     (use assms in \<open>auto simp: wp_simps triple_def\<close>)

section \<open>Reading\<close>

lemma HandleRead_c:
  assumes "a \<in> nodes" "ok_name user" "ok_name (iKeygroup it)"
  shows "triple (cat SV U) (HandleRead (ext a) user it)
    (\<lambda>it' w. cat SV U w \<and> ''Read'' \<in> nv_perm U user (iKeygroup it) \<and> iKeygroup it \<in> sv_kgs (SV a) \<and>
       (\<exists>v. it' = it\<lparr>iVal := v\<rparr> \<and> sv_items (SV a) (iKeygroup it) (iID it) = Some v))
    (\<lambda>e w. cat SV U w \<and> is_wrapped e \<and> (''Read'' \<notin> nv_perm U user (iKeygroup it) \<or>
       (hs \<longrightarrow> \<not> (reg_MatchString (iKeygroup it) \<and> reg_MatchString (iID it)) \<or>
          iKeygroup it \<notin> sv_kgs (SV a) \<or> sv_items (SV a) (iKeygroup it) (iID it) = None)))"
  unfolding HandleRead_def
  by (rule authorised_c [OF assms], simp_all, rule triple_attempt [OF read_c])
     (use assms in \<open>auto simp: wp_simps\<close>)

lemma HandleScan_c:
  assumes "a \<in> nodes" "ok_name user" "ok_name (iKeygroup it)"
  shows "triple (cat SV U) (HandleScan (ext a) user it n)
    (\<lambda>its w. cat SV U w \<and> ''Read'' \<in> nv_perm U user (iKeygroup it) \<and> n \<noteq> 0 \<and>
       iKeygroup it \<in> sv_kgs (SV a) \<and> sv_items (SV a) (iKeygroup it) (iID it) \<noteq> None \<and>
       set its = {\<lparr>iKeygroup = iKeygroup it, iID = j, iVal = v\<rparr> | j v.
         j \<in> scan_ids (sv_items (SV a) (iKeygroup it)) (iID it) (unat n) \<and>
         sv_items (SV a) (iKeygroup it) j = Some v})
    (\<lambda>e w. cat SV U w \<and> is_wrapped e \<and> (''Read'' \<notin> nv_perm U user (iKeygroup it) \<or> n = 0 \<or>
       (hs \<longrightarrow> \<not> (reg_MatchString (iKeygroup it) \<and> reg_MatchString (iID it)) \<or>
          iKeygroup it \<notin> sv_kgs (SV a) \<or> sv_items (SV a) (iKeygroup it) (iID it) = None)))"
proof (cases "n = 0")
  case True
  then show ?thesis
    unfolding HandleScan_def by (intro authorised_c [OF assms]) (simp_all add: triple_def wp_simps)
next
  case False
  then have n: "\<not> n \<le> 0" by simp
  show ?thesis
    unfolding HandleScan_def if_not_P [OF n]
    by (rule authorised_c [OF assms], simp_all add: False, rule triple_attempt [OF scan_c [OF assms(1)]])
       (auto simp: wp_simps)
qed

section \<open>Writing\<close>

text \<open>
  An update: refused without a change, or spread to the members and then stored. It answers
  with an error after spreading when the own store or a trigger fails.
\<close>

abbreviation spread ::
  "(sview \<Rightarrow> sview) \<Rightarrow> (NodeID \<Rightarrow> sview \<Rightarrow> bool) \<Rightarrow> NodeID \<Rightarrow> string \<Rightarrow> string \<Rightarrow> (NodeID \<Rightarrow> sview) \<Rightarrow> nview
     \<Rightarrow> (NodeID \<Rightarrow> sview) \<Rightarrow> nview \<Rightarrow> bool" where
  "spread eff reach a kg i SV U SV' U' \<equiv> relayed eff reach (kg, i) (others U kg a) SV U SV' U'"

lemma spread_self: "spread eff reach a kg i SV U SV' U' \<Longrightarrow> SV' a = SV a"
  by (simp add: relayed_def)

lemma HandleUpdate_c:
  fixes it :: Item
  assumes a: "a \<in> nodes" and user: "ok_name user" and it: "ok_name (iKeygroup it)" "ok_name (iID it)"
    and pl: "placed nodes host U (iKeygroup it)"
  defines "kg \<equiv> iKeygroup it" and "i \<equiv> iID it"
  defines "eff \<equiv> upd_item kg i (iVal it)"
  shows "triple (cat SV U) (HandleUpdate (ext a) user it)
    (\<lambda>_ w. ''Update'' \<in> nv_perm U user kg \<and> kg \<in> nv_mut U \<and> kg \<in> nv_kgs U \<and> kg \<in> sv_kgs (SV a) \<and>
       (\<exists>SV' U'. spread eff (takes kg i) a kg i SV U SV' U' \<and> cat (SV'(a := eff (SV a))) U' w))
    (\<lambda>e w. is_wrapped e \<and>
       (cat SV U w \<and> (''Update'' \<notin> nv_perm U user kg \<or> kg \<notin> nv_mut U \<or> kg \<notin> nv_kgs U) \<or>
        ''Update'' \<in> nv_perm U user kg \<and> kg \<in> nv_mut U \<and> kg \<in> nv_kgs U \<and>
        (\<exists>SV' U'. spread eff (takes kg i) a kg i SV U SV' U' \<and>
          (cat (SV'(a := eff (SV a))) U' w \<and> \<not> quiet kg (SV a) \<or>
           cat SV' U' w \<and> \<not> (hs \<and> reg_MatchString kg \<and> reg_MatchString i \<and> kg \<in> sv_kgs (SV a))))))"
    (is "triple _ _ ?Q ?E")
proof -
  have relay: "wp (or_error (relayUpdate (repl a) it) msg (\<lambda>_.
      or_error (ss_update (svc a) it False x) msg (\<lambda>_. or_error (triggerUpdate (trg a) it) msg ret))) ?Q ?E w"
    if w: "cat SV U w" "int64 x" and ok: "''Update'' \<in> nv_perm U user kg" "kg \<in> nv_mut U" for w x msg
    unfolding or_error_def [of "relayUpdate _ _"] wp_attempt
  proof (rule wp_call [OF relayUpdate_c [OF a it pl] w(1)], elim conjE exE)
    fix w SV' U'
    assume "iKeygroup it \<in> nv_kgs U" and cat: "cat SV' U' w"
      and sp: "relayed (upd_item (iKeygroup it) (iID it) (iVal it)) (takes (iKeygroup it) (iID it))
         (iKeygroup it, iID it) (others U (iKeygroup it) a) SV U SV' U'"
    then show "wp (or_error (ss_update (svc a) it False x) msg (\<lambda>_. or_error (triggerUpdate (trg a) it) msg ret)) ?Q ?E w"
      unfolding kg_def i_def eff_def
      by (intro wp_call [OF put_c [OF a w(2)] cat])
         (use ok spread_self [OF sp] in \<open>simp add: kg_def; blast\<close>)+
  qed (use ok in \<open>auto simp: wp_simps kg_def\<close>)
  show ?thesis
    unfolding HandleUpdate_def kg_def [symmetric] exthandler.simps
    by (rule authorised_c [OF a user])
       (use a it relay in \<open>auto simp: kg_def wp_simps
          intro!: triple_seq [OF isMutable_c] wp_call [OF getExpiry_c]\<close>)
qed

text \<open>A deletion: refused, or done locally and then spread.\<close>

abbreviation has :: "string \<Rightarrow> string \<Rightarrow> NodeID \<Rightarrow> sview \<Rightarrow> bool" where
  "has kg i \<equiv> \<lambda>m V. takes kg i m V \<and> sv_items V kg i \<noteq> None"

lemma HandleDelete_c:
  fixes it :: Item
  assumes a: "a \<in> nodes" and user: "ok_name user" and it: "ok_name (iKeygroup it)" "ok_name (iID it)"
    and pl: "placed nodes host U (iKeygroup it)"
  defines "kg \<equiv> iKeygroup it" and "i \<equiv> iID it"
  defines "eff \<equiv> del_item kg i"
  shows "triple (cat SV U) (HandleDelete (ext a) user it)
    (\<lambda>_ w. ''Delete'' \<in> nv_perm U user kg \<and> kg \<in> nv_mut U \<and> kg \<in> nv_kgs U \<and> kg \<in> sv_kgs (SV a) \<and>
       sv_items (SV a) kg i \<noteq> None \<and>
       (\<exists>SV' U'. spread eff (has kg i) a kg i (SV(a := eff (SV a))) U SV' U' \<and> cat SV' U' w))
    (\<lambda>e w. is_wrapped e \<and>
       (cat SV U w \<and> (''Delete'' \<notin> nv_perm U user kg \<or> kg \<notin> nv_mut U \<or>
          (hs \<longrightarrow> \<not> (reg_MatchString kg \<and> reg_MatchString i) \<or> kg \<notin> sv_kgs (SV a) \<or> sv_items (SV a) kg i = None)) \<or>
        ''Delete'' \<in> nv_perm U user kg \<and> kg \<in> nv_mut U \<and> kg \<in> sv_kgs (SV a) \<and> sv_items (SV a) kg i \<noteq> None \<and>
        (cat (SV(a := eff (SV a))) U w \<and> kg \<notin> nv_kgs U \<or>
         (\<exists>SV' U'. spread eff (has kg i) a kg i (SV(a := eff (SV a))) U SV' U' \<and> cat SV' U' w) \<and>
          kg \<in> nv_kgs U \<and> \<not> quiet kg (SV a))))"
    (is "triple _ _ ?Q ?E")
proof -
  let ?SV1 = "SV(a := eff (SV a))"
  have relay: "wp (or_error (relayDelete (repl a) it) msg (\<lambda>_. or_error (triggerDelete (trg a) it) msg ret)) ?Q ?E w"
    if w: "cat ?SV1 U w" and ok: "''Delete'' \<in> nv_perm U user kg" "kg \<in> nv_mut U" "kg \<in> sv_kgs (SV a)"
      "sv_items (SV a) kg i \<noteq> None" for w msg
    unfolding or_error_def [of "relayDelete _ _"] wp_attempt
  proof (rule wp_call [OF relayDelete_c [OF a it pl] w], elim conjE exE)
    fix w SV' U'
    assume "iKeygroup it \<in> nv_kgs U" and cat: "cat SV' U' w"
      and sp: "relayed (del_item (iKeygroup it) (iID it)) (has (iKeygroup it) (iID it))
         (iKeygroup it, iID it) (others U (iKeygroup it) a) ?SV1 U SV' U'"
    have quiet: "quiet kg (SV' a) \<longleftrightarrow> quiet kg (SV a)"
      using spread_self [OF sp] by (simp add: eff_def del_item_def)
    have tr: "wp (triggerDelete (trg a) it) (\<lambda>_. cat SV' U')
        (\<lambda>e w. cat SV' U' w \<and> is_wrapped e \<and> \<not> quiet kg (SV a)) w"
      by (rule wp_call [OF triggerDelete_c [OF a] cat]) (use quiet in \<open>auto simp: kg_def\<close>)
    show "wp (or_error (triggerDelete (trg a) it) msg ret) ?Q ?E w"
      unfolding or_error_def wp_attempt
      by (rule wp_mono [OF tr])
         (use ok sp \<open>iKeygroup it \<in> nv_kgs U\<close> in \<open>simp add: kg_def i_def eff_def wp_simps; blast\<close>)+
  qed (use ok in \<open>auto simp: wp_simps kg_def\<close>)
  have del: "wp (or_error (ss_delete (svc a) kg i) msg (\<lambda>_.
      or_error (relayDelete (repl a) it) msg (\<lambda>_. or_error (triggerDelete (trg a) it) msg ret))) ?Q ?E w"
    if w: "cat SV U w" and ok: "''Delete'' \<in> nv_perm U user kg" "kg \<in> nv_mut U"
      "reg_MatchString kg \<and> reg_MatchString i \<longrightarrow> sv_items (SV a) kg i \<noteq> None" for w msg
    unfolding or_error_def [of "ss_delete _ _ _"] wp_attempt
  proof (rule wp_call [OF delete_c [OF a] w], elim conjE)
    fix w'
    assume del: "cat (SV(a := del_item kg i (SV a))) U w'" "kg \<in> sv_kgs (SV a)" "reg_MatchString i"
    have "reg_MatchString kg" by (rule kg_named [OF a w del(2)])
    with del ok relay show "wp (or_error (relayDelete (repl a) it) msg (\<lambda>_. or_error (triggerDelete (trg a) it) msg ret)) ?Q ?E w'"
      by (simp add: eff_def)
  qed (use ok in \<open>auto simp: wp_simps kg_def i_def eff_def\<close>)
  have refuse: "?E (Wrapped msg) w"
    if "cat SV U w" "''Delete'' \<notin> nv_perm U user kg \<or> kg \<notin> nv_mut U \<or>
      (hs \<longrightarrow> \<not> (reg_MatchString kg \<and> reg_MatchString i) \<or> sv_items (SV a) kg i = None)" for w msg
    using that by auto
  define Q E where "Q = ?Q" and "E = ?E"
  let ?del = "\<lambda>msg ex. if \<not> ex then fail (Wrapped ''item does not exist so it cannot be deleted.'')
        else or_error (ss_delete (svc a) kg i) msg (\<lambda>_.
             or_error (relayDelete (repl a) it) msg (\<lambda>_. or_error (triggerDelete (trg a) it) msg ret))"
  have ex: "wp (andthen (ss_exists (svc a) it) (?del msg)) Q E w"
    if w: "cat SV U w" and ok: "''Delete'' \<in> nv_perm U user kg" "kg \<in> nv_mut U" for w msg
    unfolding wp_andthen
  proof (rule wp_call [OF exists_c [OF a] w], elim conjE)
    fix ex w'
    assume w': "cat SV U w'" and i: "reg_MatchString (iKeygroup it) \<and> reg_MatchString (iID it) \<longrightarrow>
       (ex \<longrightarrow> sv_items (SV a) (iKeygroup it) (iID it) \<noteq> None) \<and>
       (hs \<longrightarrow> sv_items (SV a) (iKeygroup it) (iID it) \<noteq> None \<longrightarrow> ex)"
    show "wp (?del msg ex) Q E w'"
    proof (cases ex)
      case True
      have "wp (or_error (ss_delete (svc a) kg i) msg (\<lambda>_. or_error (relayDelete (repl a) it) msg
          (\<lambda>_. or_error (triggerDelete (trg a) it) msg ret))) Q E w'"
        unfolding Q_def E_def by (rule del [OF w' ok]) (use i True in \<open>simp add: kg_def i_def\<close>)
      with True show ?thesis by simp
    next
      case False
      then have "E (Wrapped ''item does not exist so it cannot be deleted.'') w'"
        unfolding E_def by (intro refuse [OF w']) (use i in \<open>auto simp: kg_def i_def\<close>)
      with False show ?thesis by (simp add: wp_fail)
    qed
  qed simp
  have mut: "triple (cat SV U) (andthen (ns_IsMutable (c_NaSe (node a)) kg) (\<lambda>m.
      if \<not> m then fail (Wrapped ''cannot update item because keygroup is immutable'')
      else andthen (ss_exists (svc a) it) (?del ''error deleting item''))) Q E"
    if ok: "''Delete'' \<in> nv_perm U user kg"
  proof (rule triple_seq [OF isMutable_c [OF a it(1)], folded kg_def], elim conjE)
    fix m w assume w: "cat SV U w" and m: "m = (kg \<in> nv_mut U)"
    show "wp (if \<not> m then fail (Wrapped ''cannot update item because keygroup is immutable'')
        else andthen (ss_exists (svc a) it) (?del ''error deleting item'')) Q E w"
    proof (cases m)
      case True
      then show ?thesis using ex [OF w ok] m by simp
    next
      case False
      then have "E (Wrapped ''cannot update item because keygroup is immutable'') w"
        unfolding E_def by (intro refuse [OF w]) (use m in simp)
      with False show ?thesis by (simp add: wp_fail)
    qed
  qed simp
  show ?thesis
    unfolding HandleDelete_def kg_def [symmetric] i_def [symmetric] exthandler.simps Q_def [symmetric] E_def [symmetric]
    by (rule authorised_c [OF a user it(1), folded kg_def], erule mut) (unfold E_def, rule refuse, auto)
qed

text \<open>An append: refused, or stored locally under a fresh number and then spread.\<close>

lemma HandleAppend_c:
  fixes it :: Item
  assumes a: "a \<in> nodes" and user: "ok_name user" and it: "ok_name (iKeygroup it)"
    and pl: "placed nodes host U (iKeygroup it)"
  defines "kg \<equiv> iKeygroup it"
  defines "eff \<equiv> \<lambda>i. upd_item kg i (iVal it)"
  shows "triple (cat SV U) (HandleAppend (ext a) user it)
    (\<lambda>r w. ''Update'' \<in> nv_perm U user kg \<and> kg \<notin> nv_mut U \<and> kg \<in> nv_kgs U \<and> kg \<in> sv_kgs (SV a) \<and>
       r = it\<lparr>iID := iID r\<rparr> \<and> all_digits (iID r) \<and>
       (\<exists>SV' U'. spread (eff (iID r)) (\<lambda>_ _. False) a kg (iID r) (SV(a := eff (iID r) (SV a))) U SV' U' \<and>
          cat SV' U' w))
    (\<lambda>e w. is_wrapped e \<and> (cat SV U w \<or> ''Update'' \<in> nv_perm U user kg \<and> kg \<notin> nv_mut U \<and> (\<exists>i. all_digits i \<and>
       (cat (SV(a := eff i (SV a))) U w \<and> kg \<notin> nv_kgs U \<or>
        (\<exists>SV' U'. spread (eff i) (\<lambda>_ _. False) a kg i (SV(a := eff i (SV a))) U SV' U' \<and> cat SV' U' w)))))"
    (is "triple _ _ ?Q ?E")
proof -
  have relay: "wp (or_error (relayAppend (repl a) r) msg (\<lambda>_. or_error (triggerUpdate (trg a) r) msg (\<lambda>_. ret r))) ?Q ?E w"
    if w: "cat (SV(a := eff (iID r) (SV a))) U w" and r: "r = it\<lparr>iID := iID r\<rparr>" "all_digits (iID r)"
      and ok: "''Update'' \<in> nv_perm U user kg" "kg \<notin> nv_mut U" "kg \<in> sv_kgs (SV a)" for w msg r
  proof -
    have r': "iKeygroup r = kg" "iVal r = iVal it" using r(1) by (metis Item.select_convs Item.surjective
          Item.update_convs(2) kg_def)+
    then have ok': "ok_name (iKeygroup r)" "ok_name (iID r)" "placed nodes host U (iKeygroup r)"
      using it pl r(2) by (simp_all add: kg_def digits_valid)
    show ?thesis
      unfolding or_error_def [of "relayAppend _ _"] wp_attempt
    proof (rule wp_call [OF relayAppend_c [OF a ok'] w], elim conjE exE)
      fix w SV' U'
      assume "iKeygroup r \<in> nv_kgs U" and cat: "cat SV' U' w"
        and sp: "relayed (upd_item (iKeygroup r) (iID r) (iVal r)) (\<lambda>_ _. False)
           (iKeygroup r, iID r) (others U (iKeygroup r) a) (SV(a := eff (iID r) (SV a))) U SV' U'"
      then show "wp (or_error (triggerUpdate (trg a) r) msg (\<lambda>_. ret r)) ?Q ?E w"
        unfolding or_error_def wp_attempt
        by (intro wp_call [OF triggerUpdate_c [OF a] cat])
           (use ok r r' in \<open>simp add: eff_def wp_simps; blast\<close>)+
    qed (use ok r(2) r' in \<open>auto simp: wp_simps kg_def\<close>)
  qed
  have app: "wp (or_error (ss_append (svc a) it x) msg (\<lambda>r.
      or_error (relayAppend (repl a) r) msg (\<lambda>_. or_error (triggerUpdate (trg a) r) msg (\<lambda>_. ret r)))) ?Q ?E w"
    if w: "cat SV U w" "int64 x" and ok: "''Update'' \<in> nv_perm U user kg" "kg \<notin> nv_mut U" for w msg x
    unfolding or_error_def [of "ss_append _ _ _"] wp_attempt
  proof (rule wp_call [OF append_c [OF a w(2)] w(1)], elim conjE)
    fix r w
    assume "iKeygroup it \<in> sv_kgs (SV a)" "all_digits (iID r)" and r: "r = it\<lparr>iID := iID r\<rparr>"
      and "cat (SV(a := upd_item (iKeygroup it) (iID r) (iVal it) (SV a))) U w"
    then show "wp (or_error (relayAppend (repl a) r) msg (\<lambda>_. or_error (triggerUpdate (trg a) r) msg (\<lambda>_. ret r))) ?Q ?E w"
      by (intro relay [OF _ r _ ok]) (simp_all add: kg_def eff_def)
  qed (simp add: wp_simps)
  show ?thesis
    unfolding HandleAppend_def kg_def [symmetric] exthandler.simps
    by (rule authorised_c [OF a user])
       (use a it app in \<open>auto simp: kg_def wp_simps
          intro!: triple_seq [OF isMutable_c] wp_call [OF getExpiry_c]\<close>)
qed

section \<open>Keygroups and users\<close>

abbreviation owner_roles :: "Role list" where
  "owner_roles \<equiv> [ReadKeygroup, WriteKeygroup, ConfigureReplica, ConfigureTrigger, ConfigureKeygroups]"

text \<open>
  Creating a keygroup: it is new in the naming service, this node is its only member and the user
  gets all roles. When the own store refuses, the entry in the naming service stays.
\<close>

lemma HandleCreateKeygroup_c:
  fixes k :: Keygroup and U :: nview
  assumes a: "a \<in> nodes" and user: "ok_name user" and k: "ok_name (Name k)" "int64 (Expiry k)"
  defines "U1 \<equiv> create_nv a (Name k) (Mutable k) (Expiry k) U"
  shows "triple (cat SV U) (HandleCreateKeygroup (ext a) user k)
    (\<lambda>_ w. Name k \<notin> nv_kgs U \<and> reg_MatchString (Name k) \<and>
       cat (SV(a := add_kg (Name k) (SV a)))
         (grants user (Name k) (role_methods (c_range (node a)) owner_roles) U1) w)
    (\<lambda>e w. is_wrapped e \<and> (cat SV U w \<and> Name k \<in> nv_kgs U \<or>
       Name k \<notin> nv_kgs U \<and> cat SV U1 w \<and> (hs \<longrightarrow> \<not> reg_MatchString (Name k) \<or> Name k \<in> sv_kgs (SV a))))"
    (is "triple _ _ ?Q ?E")
proof -
  have create: "triple (cat SV U) (createKeygroup (repl a) k)
      (\<lambda>_ w. cat SV U1 w \<and> Name k \<notin> nv_kgs U)
      (\<lambda>e w. is_wrapped e \<and> cat SV U w \<and> Name k \<in> nv_kgs U)"
    unfolding createKeygroup_def replicationService.simps
    by (rule triple_seq [OF kgExists_c [OF a k(1)]])
       (use a k in \<open>auto simp: wp_simps U1_def self intro!: wp_call [OF naseCreate_c]\<close>)
  have store: "wp (or_error (ss_createKeygroup (svc a) (Name k)) msg
      (\<lambda>_. addRoles (auth a) user owner_roles (Name k))) ?Q ?E w"
    if "cat SV U1 w" "Name k \<notin> nv_kgs U" for w msg
    unfolding or_error_def wp_attempt
    by (rule wp_call [OF createKg_c [OF a] that(1)])
       (use that a user k range in \<open>auto simp: wp_simps intro!: wp_call [OF addRoles_c]\<close>)
  show ?thesis
    unfolding HandleCreateKeygroup_def exthandler.simps
    by (rule triple_or_error [OF create]) (erule conjE, rule store, assumption+, simp)
qed

lemma HandleAddUser_c:
  assumes "a \<in> nodes" "ok_name user" "ok_name newuser" "ok_name (Name k)"
  shows "triple (cat SV U) (HandleAddUser (ext a) user newuser k r)
    (\<lambda>_ w. ''AddUser'' \<in> nv_perm U user (Name k) \<and>
       cat SV (grants newuser (Name k) (role_methods (c_range (node a)) [r]) U) w)
    (\<lambda>e w. is_wrapped e \<and> cat SV U w \<and> ''AddUser'' \<notin> nv_perm U user (Name k))"
  unfolding HandleAddUser_def exthandler.simps
  by (rule authorised_c) (use assms range in \<open>auto intro!: triple_conseq [OF addRoles_c]\<close>)

lemma HandleRemoveUser_c:
  assumes "a \<in> nodes" "ok_name user" "ok_name newuser" "ok_name (Name k)"
  shows "triple (cat SV U) (HandleRemoveUser (ext a) user newuser k r)
    (\<lambda>_ w. ''RemoveUser'' \<in> nv_perm U user (Name k) \<and>
       cat SV (revokes newuser (Name k) (role_methods (c_range (node a)) [r]) U) w)
    (\<lambda>e w. is_wrapped e \<and> cat SV U w \<and> ''RemoveUser'' \<notin> nv_perm U user (Name k))"
  unfolding HandleRemoveUser_def exthandler.simps
  by (rule authorised_c) (use assms range in \<open>auto intro!: triple_conseq [OF revokeRoles_c]\<close>)

text \<open>
  Deleting a keygroup: gone here and in the naming service, and at the members that could be
  told. A member that could not be told keeps its copy, without a record.
\<close>

abbreviation dropped :: "string \<Rightarrow> NodeID set \<Rightarrow> (NodeID \<Rightarrow> sview) \<Rightarrow> (NodeID \<Rightarrow> sview) \<Rightarrow> bool" where
  "dropped kg M SV SV' \<equiv> (\<forall>m. m \<notin> M \<longrightarrow> SV' m = SV m) \<and>
     (\<forall>m \<in> M. SV' m = del_kg kg (SV m) \<or>
        SV' m = SV m \<and> \<not> (up (host m) \<and> kg \<in> sv_kgs (SV m)))"

lemma drop_loop_c:
  fixes ids :: "(NodeID \<times> int) list"
  assumes a: "a \<in> nodes" and hs: hs
    and ids: "distinct (map fst ids)" "\<And>m. m \<in> fst ` set ids \<Longrightarrow> m \<in> nodes \<and> nv_addr U m = Some (host m)"
  shows "triple (cat SV U)
    (foreach (\<lambda>(i, _). andthen (ns_GetNodeAddress (c_NaSe (node a)) i)
       (\<lambda>addr. attempt (cl_SendDeleteKeygroup (c_Client (node a)) addr kg) (\<lambda>_. ret ()) ret)) ids)
    (\<lambda>_ w. \<exists>SV'. cat SV' U w \<and> dropped kg (fst ` set ids) SV SV') (\<lambda>_ _. False)"
proof -
  let ?I = "\<lambda>done w. \<exists>SV'. cat SV' U w \<and> dropped kg (fst ` set done) SV SV'"
  let ?f = "\<lambda>(i, _). andthen (ns_GetNodeAddress (c_NaSe (node a)) i)
       (\<lambda>addr. attempt (cl_SendDeleteKeygroup (c_Client (node a)) addr kg) (\<lambda>_. ret ()) ret)"
  have "triple (?I done) (?f p) (\<lambda>_. ?I (done @ [p])) (\<lambda>_ _. False)"
    if split: "ids = done @ p # rest" for p "done" rest
  proof (rule tripleI, elim exE conjE)
    fix w SV' assume w: "cat SV' U w" and rel: "\<forall>m. m \<notin> fst ` set done \<longrightarrow> SV' m = SV m"
      "\<forall>m \<in> fst ` set done. SV' m = del_kg kg (SV m) \<or> SV' m = SV m \<and> \<not> (up (host m) \<and> kg \<in> sv_kgs (SV m))"
    obtain m x where p: "p = (m, x)" by force
    have m: "m \<in> nodes" "nv_addr U m = Some (host m)" and new: "m \<notin> fst ` set done"
      using ids split by (auto simp: p)
    with rel have same: "SV' m = SV m" by auto
    have upd: "?I (done @ [p]) w" if "cat (SV'(m := del_kg kg (SV m))) U w" for w
      using that rel new by (intro exI [of _ "SV'(m := del_kg kg (SV m))"]) (auto simp: p)
    have keep: "?I (done @ [p]) w" if "cat SV' U w" "\<not> (up (host m) \<and> kg \<in> sv_kgs (SV m))" for w
      using that rel same by (intro exI [of _ SV']) (auto simp: p)
    have "wp (attempt (cl_SendDeleteKeygroup (c_Client (node a)) (host m) kg) (\<lambda>_. ret ()) ret)
        (\<lambda>_. ?I (done @ [p])) (\<lambda>_ _. False) w" if "cat SV' U w" for w
      unfolding wp_attempt wp_ret
      by (rule wp_call [OF SendDeleteKeygroup_c [OF a m(1) hs] that, unfolded same])
         ((rule upd, assumption), (elim conjE disjE, rule upd, assumption, rule keep, assumption, simp))
    then show "wp (?f p) (\<lambda>_. ?I (done @ [p])) (\<lambda>_ _. False) w"
      unfolding p prod.case wp_andthen
      by (intro wp_call [OF address_c [OF a node_ok [OF m(1)]] w]) (use m(2) in simp_all)
  qed
  from triple_foreach_prefix [of ids ?I, OF this]
  show ?thesis by (rule triple_conseq) (auto simp: fun_eq_iff)
qed

lemma relayDeleteKeygroup_c:
  assumes a: "a \<in> nodes" and hs: hs and kg: "ok_name (Name k)" and pl: "placed nodes host U (Name k)"
  shows "triple (cat SV U) (relayDeleteKeygroup (repl a) k)
    (\<lambda>_ w. Name k \<in> nv_kgs U \<and>
       (\<exists>SV'. cat SV' (delete_nv (Name k) U) w \<and> dropped (Name k) (others U (Name k) a) SV SV'))
    (\<lambda>e w. is_wrapped e \<and> cat SV U w \<and> Name k \<notin> nv_kgs U)"
  unfolding relayDeleteKeygroup_def
proof (rule if_exists_c [OF a kg])
  assume ex: "Name k \<in> nv_kgs U"
  show "triple (cat SV U)
    (andthen (members_or_fail (repl a) (Name k) True)
       (\<lambda>ids. andthen
          (foreach (\<lambda>(i, _). andthen (ns_GetNodeAddress (r_n (repl a)) i)
             (\<lambda>addr. attempt (cl_SendDeleteKeygroup (r_c (repl a)) addr (Name k)) (\<lambda>_. ret ()) ret)) ids)
          (\<lambda>_. attempt (ns_DeleteKeygroup (r_n (repl a)) (Name k)) (\<lambda>e. errstack e (fail e)) ret)))
    (\<lambda>_ w. Name k \<in> nv_kgs U \<and>
       (\<exists>SV'. cat SV' (delete_nv (Name k) U) w \<and> dropped (Name k) (others U (Name k) a) SV SV'))
    (\<lambda>e w. is_wrapped e \<and> cat SV U w \<and> Name k \<notin> nv_kgs U)"
    (is "triple _ _ ?Q ?E")
  proof (rule triple_seq [OF members_or_fail_c [OF a kg]], elim conjE)
    fix ids :: "(NodeID \<times> int) list" and w
    assume w: "cat SV U w" and d: "distinct (map fst ids)"
      and ids: "fst ` set ids = (if True then others U (Name k) a else nv_mem U (Name k))"
    have m: "m \<in> nodes \<and> nv_addr U m = Some (host m)" if "m \<in> fst ` set ids" for m
      using that ids pl by (auto simp: placed_def)
    have del: "wp (attempt (ns_DeleteKeygroup (c_NaSe (node a)) (Name k)) (\<lambda>e. errstack e (fail e)) ret) ?Q ?E w"
      if "\<exists>SV'. cat SV' U w \<and> dropped (Name k) (fst ` set ids) SV SV'" for w
    proof -
      from that obtain SV' where SV': "cat SV' U w" "dropped (Name k) (fst ` set ids) SV SV'" by blast
      show ?thesis
        unfolding wp_attempt wp_ret
        by (rule wp_call [OF naseDelete_c [OF a kg] SV'(1)]) (use SV'(2) ids ex in auto)
    qed
    show "wp (andthen
          (foreach (\<lambda>(i, _). andthen (ns_GetNodeAddress (r_n (repl a)) i)
             (\<lambda>addr. attempt (cl_SendDeleteKeygroup (r_c (repl a)) addr (Name k)) (\<lambda>_. ret ()) ret)) ids)
          (\<lambda>_. attempt (ns_DeleteKeygroup (r_n (repl a)) (Name k)) (\<lambda>e. errstack e (fail e)) ret)) ?Q ?E w"
      unfolding replicationService.simps wp_andthen
      by (rule wp_call [OF drop_loop_c [OF a hs d m] w del]) simp_all
  qed simp
qed (simp add: no_such_keygroup_nase_def)

lemma HandleDeleteKeygroup_c:
  fixes SV :: "NodeID \<Rightarrow> sview"
  assumes a: "a \<in> nodes" and hs: hs and user: "ok_name user" and kg: "ok_name (Name k)"
    and pl: "placed nodes host U (Name k)"
  defines "SV1 \<equiv> SV(a := del_kg (Name k) (SV a))"
  shows "triple (cat SV U) (HandleDeleteKeygroup (ext a) user k)
    (\<lambda>_ w. ''DeleteKeygroup'' \<in> nv_perm U user (Name k) \<and> Name k \<in> nv_kgs U \<and> Name k \<in> sv_kgs (SV a) \<and>
       (\<exists>SV'. cat SV' (delete_nv (Name k) U) w \<and> dropped (Name k) (others U (Name k) a) SV1 SV'))
    (\<lambda>e w. is_wrapped e \<and>
       (cat SV U w \<and> (''DeleteKeygroup'' \<notin> nv_perm U user (Name k) \<or> Name k \<notin> sv_kgs (SV a)) \<or>
        cat SV1 U w \<and> Name k \<notin> nv_kgs U))"
    (is "triple _ _ ?Q ?E")
proof -
  have relay: "wp (or_error (relayDeleteKeygroup (repl a) \<lparr>Name = Name k, Mutable = False, Expiry = 0\<rparr>) msg ret) ?Q ?E w"
    if "cat SV1 U w" "''DeleteKeygroup'' \<in> nv_perm U user (Name k)" "Name k \<in> sv_kgs (SV a)" for w msg
    unfolding or_error_def wp_attempt
    by (rule wp_call [OF relayDeleteKeygroup_c [OF a hs] that(1)])
       (use kg pl that in \<open>auto simp: wp_simps\<close>)
  show ?thesis
    unfolding HandleDeleteKeygroup_def exthandler.simps
  proof (rule authorised_c [OF a user kg])
    assume p: "''DeleteKeygroup'' \<in> nv_perm U user (Name k)"
    show "triple (cat SV U) (or_error (ss_deleteKeygroup (svc a) (Name k)) ''error deleting keygroup'' (\<lambda>_.
        or_error (relayDeleteKeygroup (repl a) \<lparr>Name = Name k, Mutable = False, Expiry = 0\<rparr>)
          ''error deleting keygroup'' ret)) ?Q ?E"
      by (rule triple_or_error [OF deleteKg_c [OF a]])
         (use p hs relay in \<open>auto simp: SV1_def\<close>)
  qed auto
qed

end

end
