(* ===== verification/Cluster_Replicas.thy ===== *)
theory Cluster_Replicas
  imports Cluster_Handlers
begin

text \<open>
  Members come and go: removing a replica, adding one and sending it the data, and a node that
  starts again and fetches what it missed.
\<close>

text \<open>Every address in the naming service is the one of a node of the cluster.\<close>

definition registered :: "NodeID set \<Rightarrow> (NodeID \<Rightarrow> string) \<Rightarrow> nview \<Rightarrow> bool" where
  "registered nodes host U \<longleftrightarrow> (\<forall>m h. nv_addr U m = Some h \<longrightarrow> m \<in> nodes \<and> h = host m)"

lemma distinct_other:
  assumes "distinct (map fst ids)" "\<not> length ids \<le> 1"
  shows "\<exists>m' \<in> fst ` set ids. m' \<noteq> m"
proof -
  have "card (fst ` set ids) = length ids" using assms(1) by (metis distinct_card length_map set_map)
  with assms(2) have "\<not> fst ` set ids \<subseteq> {m}"
    by (metis card.empty card_mono finite.emptyI finite_insert card_insert_disjoint empty_iff One_nat_def)
  then show ?thesis by blast
qed

lemma fst_image: "(\<And>m. m \<in> fst ` set ids \<Longrightarrow> P m) \<Longrightarrow> (m, x) \<in> set ids \<Longrightarrow> P m"
  by force

context cluster
begin

section \<open>Removing a replica\<close>

lemma informRemoved_c:
  fixes ids :: "(NodeID \<times> int) list"
  assumes a: "a \<in> nodes" and ids: "\<And>m. m \<in> fst ` set ids \<Longrightarrow> m \<in> nodes \<and> nv_addr U m = Some (host m)"
  shows "triple (cat SV U) (informRemoved (repl a) k n ids) (\<lambda>_. cat SV U) (\<lambda>_ _. False)"
proof -
  let ?n = "\<lparr>nID = nID n, nHost = []\<rparr>"
  have send: "triple (cat SV U) (attempt (cl_SendRemoveReplica (c_Client (node a)) (host m) (Name k) ?n) (\<lambda>_. ret ()) ret)
      (\<lambda>_. cat SV U) (\<lambda>_ _. False)" if "m \<in> nodes" for m
    by (rule triple_attempt [OF SendReplica_c(2) [OF a that]]) (auto simp: wp_ret)
  have "triple (cat SV U) ((\<lambda>(i, _). andthen (ns_GetNodeAddress (c_NaSe (node a)) i) (\<lambda>addr.
       attempt (cl_SendRemoveReplica (c_Client (node a)) addr (Name k) ?n) (\<lambda>_. ret ()) ret)) p)
    (\<lambda>_. cat SV U) (\<lambda>_ _. False)" if "p \<in> set ids" for p
  proof -
    obtain m x where p: "p = (m, x)" by force
    with that have m: "m \<in> nodes" "nv_addr U m = Some (host m)"
      using fst_image [where P = "\<lambda>m. m \<in> nodes \<and> nv_addr U m = Some (host m)" and ids = ids] ids by auto
    show ?thesis
      unfolding p prod.case
      by (rule triple_seq [OF address_c [OF a node_ok [OF m(1)]]])
         (use m(2) send [OF m(1)] in \<open>auto simp: triple_def\<close>)
  qed
  from triple_foreach [where I = "\<lambda>_. cat SV U", OF this]
  show ?thesis by (simp add: informRemoved_def)
qed

lemma dropReplica_c:
  fixes U :: nview
  assumes a: "a \<in> nodes" and hs: hs and kg: "ok_name (Name k)"
    and pl: "placed nodes host U (Name k)" and m: "m = nID n" "m \<in> nv_mem U (Name k)"
  shows "triple (cat SV U) (dropReplica (repl a) k n (host m))
    (\<lambda>_ w. cat (SV(m := del_kg (Name k) (SV m))) (exit_nv (Name k) m U) w)
    (\<lambda>e w. is_wrapped e \<and> (cat SV U w \<or> cat (SV(m := del_kg (Name k) (SV m))) U w))"
    (is "triple _ _ ?Q ?E")
proof -
  let ?SV1 = "SV(m := del_kg (Name k) (SV m))"
  have node: "m \<in> nodes" using pl m(2) by (simp add: placed_def)
  have inform: "wp (andthen (ns_ExitOtherNodeFromKeygroup (c_NaSe (node a)) (Name k) m)
      (\<lambda>_. informRemoved (repl a) k n ids)) ?Q ?E w"
    if w: "cat ?SV1 U w" and ids: "fst ` set ids = others U (Name k) a" for ids w
  proof -
    have "i \<in> nodes \<and> nv_addr (exit_nv (Name k) m U) i = Some (host i)" if "i \<in> fst ` set ids" for i
      using that ids pl by (auto simp: placed_def exit_nv_def)
    then show ?thesis
      unfolding wp_andthen
      by (intro wp_call [OF exit_c [OF a kg node_ok [OF node]] w])
         (auto intro!: wp_call [OF informRemoved_c [OF a]])
  qed
  have mem: "wp (andthen (members_or_fail (repl a) (Name k) True) (\<lambda>kgMembers.
      andthen (ns_ExitOtherNodeFromKeygroup (c_NaSe (node a)) (Name k) m) (\<lambda>_.
      informRemoved (repl a) k n kgMembers))) ?Q ?E w" if w: "cat ?SV1 U w" for w
    unfolding wp_andthen [of "members_or_fail _ _ _"]
    by (rule wp_call [OF members_or_fail_c [OF a kg] w]) (auto intro: inform)
  show ?thesis
    unfolding dropReplica_def replicationService.simps m(1) [symmetric]
    by (rule triple_attempt [OF SendDeleteKeygroup_c [OF a node hs]])
       (auto simp: wp_errstack wp_fail intro: mem)
qed

lemma removeReplica_c:
  fixes U :: nview
  assumes a: "a \<in> nodes" and hs: hs and kg: "ok_name (Name k)" and n: "ok_name (nID n)"
    and pl: "placed nodes host U (Name k)"
  defines "m \<equiv> nID n"
  shows "triple (cat SV U) (removeReplica (repl a) k n True)
    (\<lambda>_ w. m \<in> nv_mem U (Name k) \<and> nv_mem U (Name k) - {m} \<noteq> {} \<and>
       cat (SV(m := del_kg (Name k) (SV m))) (exit_nv (Name k) m U) w)
    (\<lambda>e w. is_wrapped e \<and> (cat SV U w \<or> cat (SV(m := del_kg (Name k) (SV m))) U w))"
    (is "triple _ _ ?Q ?E")
proof -
  let ?check = "\<lambda>h members. if nID n \<notin> fst ` set members
        then fail (Wrapped ''Can not remove node from keygroup it is not a member of.'')
        else if length members \<le> 1
        then fail (Wrapped (''Can not exit last node from keygroup '' @ Name k))
        else dropReplica (repl a) k n h"
  have check: "wp (?check h ids) ?Q ?E w"
    if w: "cat SV U w" and h: "nv_addr U m = Some h" and d: "distinct (map fst ids)"
      and ids: "fst ` set ids = nv_mem U (Name k)" for w h and ids :: "(NodeID \<times> int) list"
  proof (cases "m \<in> nv_mem U (Name k) \<and> \<not> length ids \<le> 1")
    case True
    then have "nv_mem U (Name k) - {m} \<noteq> {}" using distinct_other [OF d, of m] ids by auto
    moreover have "h = host m" using True pl h by (simp add: placed_def)
    moreover have "wp (dropReplica (repl a) k n (host m)) ?Q ?E w"
      by (rule wp_call [OF dropReplica_c [OF a hs kg pl m_def [THEN meta_eq_to_obj_eq]] w])
         (use True calculation(1) in auto)
    ultimately show ?thesis using True ids by (simp add: m_def)
  next
    case False
    with ids w show ?thesis by (auto simp: wp_if wp_fail m_def)
  qed
  have members: "wp (andthen (members_or_fail (repl a) (Name k) False) (?check h)) ?Q ?E w"
    if "cat SV U w" "nv_addr U m = Some h" for w h
    unfolding wp_andthen
    by (rule wp_call [OF members_or_fail_c [OF a kg] that(1)]) (use that check in simp_all)
  have exists: "wp (attempt (ns_ExistsKeygroup (c_NaSe (node a)) (Name k))
      (\<lambda>_. fail (no_such_keygroup_nase (Name k))) (\<lambda>ex. if \<not> ex then fail (no_such_keygroup_nase (Name k))
        else andthen (members_or_fail (repl a) (Name k) False) (?check h))) ?Q ?E w"
    if "cat SV U w" "nv_addr U m = Some h" for w h
    unfolding wp_attempt
    by (rule wp_call [OF kgExists_c [OF a kg] that(1)])
       (use that members in \<open>simp_all add: wp_fail no_such_keygroup_nase_def\<close>)
  show ?thesis
    unfolding removeReplica_def replicationService.simps
    by (simp only: simp_thms if_False)
       (rule triple_seq [OF address_c [OF a n]], use exists in \<open>simp_all add: m_def\<close>)
qed

end

section \<open>Adding a replica\<close>

text \<open>
  What sending the items \<open>its\<close> leaves at the receiver, whose store was \<open>V0\<close> and whose missed items
  were \<open>F0\<close>: every item is there or recorded as missed, and all are there if the transfer is
  \<open>sure\<close>; nothing else changes.
\<close>

definition filled ::
  "string \<Rightarrow> bool \<Rightarrow> Item list \<Rightarrow> sview \<Rightarrow> (string \<times> string) set \<Rightarrow> sview \<Rightarrow> (string \<times> string) set \<Rightarrow> bool" where
  "filled kg sure its V0 F0 V F \<longleftrightarrow>
     sv_kgs V = sv_kgs V0 \<and> sv_trigs V = sv_trigs V0 \<and>
     (\<forall>kg'. kg' \<noteq> kg \<longrightarrow> sv_items V kg' = sv_items V0 kg') \<and>
     (\<forall>i. i \<notin> iID ` set its \<longrightarrow> sv_items V kg i = sv_items V0 kg i) \<and>
     (\<forall>it \<in> set its. sv_items V kg (iID it) = Some (iVal it) \<or> \<not> sure \<and> (kg, iID it) \<in> F) \<and>
     F0 \<subseteq> F \<and> F \<subseteq> F0 \<union> (\<lambda>it. (kg, iID it)) ` set its"

lemma filled_start: "filled kg sure [] V F V F"
  by (simp add: filled_def)

lemma filled_step:
  assumes "filled kg sure its V0 F0 V F" "\<And>it'. it' \<in> set its \<Longrightarrow> iID it' = iID it \<Longrightarrow> iVal it' = iVal it"
  shows "filled kg sure (its @ [it]) V0 F0 (upd_item kg (iID it) (iVal it) V) F"
    and "filled kg sure (its @ [it]) V0 F0 (upd_item kg (iID it) (iVal it) V) (insert (kg, iID it) F)"
    and "\<not> sure \<Longrightarrow> filled kg sure (its @ [it]) V0 F0 V (insert (kg, iID it) F)"
  using assms by (auto simp: filled_def upd_item_def)

context cluster
begin

abbreviation missed :: "NodeID \<Rightarrow> (string \<times> string) set \<Rightarrow> nview \<Rightarrow> nview" where
  "missed m F U \<equiv> U\<lparr>nv_fail := (nv_fail U)(m := F)\<rparr>"

lemma sendItems_c:
  assumes a: "a \<in> nodes" and m: "m = nID n" "m \<in> nodes" and kg: "ok_name (Name k)"
    and its: "\<And>it. it \<in> set its \<Longrightarrow> ok_name (iID it)"
      "\<And>it it'. it \<in> set its \<Longrightarrow> it' \<in> set its \<Longrightarrow> iID it' = iID it \<Longrightarrow> iVal it' = iVal it"
    and sure: "sure \<Longrightarrow> mut \<and> (\<forall>it \<in> set its. takes (Name k) (iID it) m (SV m))"
  shows "triple (cat SV U) (sendItems (repl a) k n (host m) mut its)
    (\<lambda>_ w. \<exists>V F. cat (SV(m := V)) (missed m F U) w \<and>
       filled (Name k) sure its (SV m) (nv_fail U m) V F) (\<lambda>_ _. False)"
proof -
  let ?I = "\<lambda>done w. \<exists>V F. cat (SV(m := V)) (missed m F U) w \<and>
       filled (Name k) sure done (SV m) (nv_fail U m) V F"
  let ?f = "\<lambda>item. if mut
       then or_report (repl a) (cl_SendUpdate (c_Client (node a)) (host m) (Name k) (iID item) (iVal item))
              m (Name k) (iID item)
       else or_report (repl a) (cl_SendAppend (c_Client (node a)) (host m) (Name k) (iID item) (iVal item))
              m (Name k) (iID item)"
  have "triple (?I done) (?f it) (\<lambda>_. ?I (done @ [it])) (\<lambda>_ _. False)"
    if split: "its = done @ it # rest" for it "done" rest
  proof (rule tripleI, elim exE conjE)
    fix w V F assume w: "cat (SV(m := V)) (missed m F U) w"
      and fil: "filled (Name k) sure done (SV m) (nv_fail U m) V F"
    have mem: "it \<in> set its" "set done \<subseteq> set its" using split by auto
    have it: "ok_name (iID it)" "\<And>it'. it' \<in> set done \<Longrightarrow> iID it' = iID it \<Longrightarrow> iVal it' = iVal it"
      using its(1) [OF mem(1)] its(2) [OF mem(1)] mem(2) by blast+
    note step = filled_step [OF fil it(2)]
    let ?V = "upd_item (Name k) (iID it) (iVal it) V"
    have rep: "wp (attempt (reportNodeFail (repl a) m (Name k) (iID it)) (\<lambda>_. ret ()) ret)
        (\<lambda>_. ?I (done @ [it])) (\<lambda>_ _. False) w"
      if "cat (SV(m := V')) (missed m F U) w"
        "filled (Name k) sure (done @ [it]) (SV m) (nv_fail U m) V' (insert (Name k, iID it) F)" for w V'
      unfolding reportNodeFail_def replicationService.simps wp_attempt wp_ret
      by (rule wp_call [OF report_c [OF a node_ok [OF m(2)] kg it(1)] that(1)])
         (use that(2) in \<open>auto simp: report_nv_def\<close>)
    have done_: "?I (done @ [it]) w" if "cat (SV(m := ?V)) (missed m F U) w" for w
      using that step(1) by blast
    have send: "wp (or_report (repl a) snd m (Name k) (iID it)) (\<lambda>_. ?I (done @ [it])) (\<lambda>_ _. False) w"
      if "triple (cat (SV(m := V)) (missed m F U)) snd (\<lambda>_. cat (SV(m := ?V)) (missed m F U))
        (\<lambda>e w. cat (SV(m := ?V)) (missed m F U) w \<or> cat (SV(m := V)) (missed m F U) w \<and> \<not> sure)" for snd
      unfolding or_report_def wp_attempt [of snd] wp_ret
      by (rule wp_call [OF that w]) (auto intro: done_ rep step)
    have kgs: "sv_kgs V = sv_kgs (SV m)" using fil by (simp add: filled_def)
    note put = SendPut_c [OF a m(2) kg, of "SV(m := V)" "missed m F U" "iID it" "iVal it",
        unfolded fun_upd_same fun_upd_upd]
    show "wp (?f it) (\<lambda>_. ?I (done @ [it])) (\<lambda>_ _. False) w"
    proof (cases mut)
      case True
      have "triple (cat (SV(m := V)) (missed m F U))
          (cl_SendUpdate (c_Client (node a)) (host m) (Name k) (iID it) (iVal it))
          (\<lambda>_. cat (SV(m := ?V)) (missed m F U))
          (\<lambda>e w. cat (SV(m := ?V)) (missed m F U) w \<or> cat (SV(m := V)) (missed m F U) w \<and> \<not> sure)"
        by (rule triple_conseq [OF put(1)]) (use sure split kgs in auto)
      then show ?thesis using send True by simp
    next
      case False
      have "triple (cat (SV(m := V)) (missed m F U))
          (cl_SendAppend (c_Client (node a)) (host m) (Name k) (iID it) (iVal it))
          (\<lambda>_. cat (SV(m := ?V)) (missed m F U))
          (\<lambda>e w. cat (SV(m := ?V)) (missed m F U) w \<or> cat (SV(m := V)) (missed m F U) w \<and> \<not> sure)"
        by (rule triple_conseq [OF put(2)]) (use sure False in auto)
      then show ?thesis using send False by simp
    qed
  qed
  from triple_foreach_prefix [of its ?I, OF this]
  have "triple (?I []) (foreach ?f its) (\<lambda>_. ?I its) (\<lambda>_ _. False)" .
  moreover have "?I [] w" if "cat SV U w" for w
    using that by (intro exI [of _ "SV m"] exI [of _ "nv_fail U m"]) (simp add: filled_start)
  ultimately show ?thesis
    unfolding sendItems_def replicationService.simps m(1) [symmetric]
    by (rule triple_conseq)
qed

text \<open>The items of a store are sent: they have names, and each name one value.\<close>

lemma sent_items:
  assumes "set its = {\<lparr>iKeygroup = kg, iID = j, iVal = v\<rparr> | j v. M j = Some v}"
  shows "it \<in> set its \<longleftrightarrow> iKeygroup it = kg \<and> M (iID it) = Some (iVal it)"
  using assms by (cases it) auto

lemma transfer_c:
  assumes a: "a \<in> nodes" and m: "m = nID n" "m \<in> nodes" and kg: "ok_name (Name k)"
    and its: "set its = {\<lparr>iKeygroup = Name k, iID = j, iVal = v\<rparr> | j v. M j = Some v}"
    and named: "\<And>j. M j \<noteq> None \<Longrightarrow> reg_MatchString j"
  shows "triple (cat SV U)
    (andthen (ns_IsMutable (c_NaSe (node a)) (Name k)) (\<lambda>mut. sendItems (repl a) k n (host m) mut its))
    (\<lambda>_ w. \<exists>V F. cat (SV(m := V)) (missed m F U) w \<and> filled (Name k)
       (Name k \<in> nv_mut U \<and> up (host m) \<and> hs \<and> reg_MatchString (Name k) \<and> Name k \<in> sv_kgs (SV m))
       its (SV m) (nv_fail U m) V F) (\<lambda>_ _. False)"
proof (rule triple_seq [OF isMutable_c [OF a kg]], elim conjE)
  fix mut w assume w: "cat SV U w" and mut: "mut = (Name k \<in> nv_mut U)"
  show "wp (sendItems (repl a) k n (host m) mut its)
    (\<lambda>_ w. \<exists>V F. cat (SV(m := V)) (missed m F U) w \<and> filled (Name k)
       (Name k \<in> nv_mut U \<and> up (host m) \<and> hs \<and> reg_MatchString (Name k) \<and> Name k \<in> sv_kgs (SV m))
       its (SV m) (nv_fail U m) V F) (\<lambda>_ _. False) w"
    by (rule wp_call [OF sendItems_c [OF a m kg] w])
       (use named mut in \<open>auto simp: sent_items [OF its]\<close>)
qed simp

lemma provider_c:
  assumes "a \<in> nodes" "ok_name kg"
  shows "triple (cat SV U) (ns_GetNodeWithBiggerExpiry (c_NaSe (node a)) kg)
    (\<lambda>p w. cat SV U w \<and> (snd p \<noteq> [] \<longrightarrow> nv_addr U (fst p) = Some (snd p))) (\<lambda>_ _. False)"
  by (rule triple_conseq [OF bigger_c [OF assms]]) auto

text \<open>Where the data of a new replica comes from: this node, or another member if it adds itself.\<close>

abbreviation source :: "nview \<Rightarrow> string \<Rightarrow> NodeID \<Rightarrow> NodeID \<Rightarrow> NodeID set" where
  "source U kg a m \<equiv> if m = a then nodes else {a}"

lemma fillReplica_c:
  assumes a: "a \<in> nodes" and m: "m = nID n" "m \<in> nodes" and kg: "ok_name (Name k)"
    and reg: "registered nodes host U"
    and named: "\<And>b j. b \<in> nodes \<Longrightarrow> sv_items (SV b) (Name k) j \<noteq> None \<Longrightarrow> reg_MatchString j"
  shows "triple (cat SV U) (fillReplica (repl a) k n (host m))
    (\<lambda>_ w. m = a \<and> cat SV U w \<or> (\<exists>b its V F. b \<in> source U (Name k) a m \<and> Name k \<in> sv_kgs (SV b) \<and>
       set its = {\<lparr>iKeygroup = Name k, iID = j, iVal = v\<rparr> | j v. sv_items (SV b) (Name k) j = Some v} \<and>
       cat (SV(m := V)) (missed m F U) w \<and> filled (Name k)
       (Name k \<in> nv_mut U \<and> up (host m) \<and> hs \<and> reg_MatchString (Name k) \<and> Name k \<in> sv_kgs (SV m))
       its (SV m) (nv_fail U m) V F))
    (\<lambda>e w. is_wrapped e \<and> cat SV U w \<and>
       (m = a \<or> (hs \<longrightarrow> \<not> reg_MatchString (Name k) \<or> Name k \<notin> sv_kgs (SV a))))"
    (is "triple _ _ ?Q ?E")
proof -
  define Q where "Q = ?Q"
  define E where "E = ?E"
  have E_I: "cat SV U w \<Longrightarrow> is_wrapped e \<Longrightarrow> m = a \<or> (hs \<longrightarrow> \<not> reg_MatchString (Name k) \<or> Name k \<notin> sv_kgs (SV a)) \<Longrightarrow> E e w"
    for e w by (simp add: E_def)
  have transfer: "wp (andthen (ns_IsMutable (c_NaSe (node a)) (Name k))
      (\<lambda>mut. sendItems (repl a) k n (host m) mut its)) Q E w"
    if "cat SV U w" "b \<in> source U (Name k) a m" "b \<in> nodes" "Name k \<in> sv_kgs (SV b)"
      and its: "set its = {\<lparr>iKeygroup = Name k, iID = j, iVal = v\<rparr> | j v. sv_items (SV b) (Name k) j = Some v}"
    for w b its
    unfolding Q_def by (rule wp_call [OF transfer_c [OF a m kg its] that(1)])
       (use that named in \<open>blast+\<close>)
  have other: "triple (cat SV U) (attempt (ss_readAll (svc a) (Name k))
             (\<lambda>e. errstack e (fail (Wrapped ''error adding replica''))) (\<lambda>items.
           andthen (ns_IsMutable (c_NaSe (node a)) (Name k)) (\<lambda>mut. sendItems (repl a) k n (host m) mut items))) Q E"
    if "m \<noteq> a"
    by (rule triple_attempt [OF readAll_c [OF a]])
       (use that a in \<open>auto simp: wp_errstack wp_fail intro: transfer E_I\<close>)
  have self_: "triple (cat SV U) (andthen (ns_GetNodeWithBiggerExpiry (c_NaSe (node a)) (Name k)) (\<lambda>(_, addr).
           if addr = [] then ret ()
           else attempt (cl_SendGetAllItems (c_Client (node a)) addr (Name k))
                  (\<lambda>e. errstack e (fail (Wrapped ''error adding replica''))) (\<lambda>items.
                andthen (ns_IsMutable (c_NaSe (node a)) (Name k)) (\<lambda>mut.
                  sendItems (repl a) k n (host m) mut items)))) Q E"
    if "m = a"
  proof (rule triple_seq [OF provider_c [OF a kg]], elim conjE)
    fix p :: "NodeID \<times> string" and w
    assume w: "cat SV U w" and p: "snd p \<noteq> [] \<longrightarrow> nv_addr U (fst p) = Some (snd p)"
    obtain b addr where bp: "p = (b, addr)" by force
    show "wp (case p of (_, addr) \<Rightarrow> if addr = [] then ret ()
           else attempt (cl_SendGetAllItems (c_Client (node a)) addr (Name k))
                  (\<lambda>e. errstack e (fail (Wrapped ''error adding replica''))) (\<lambda>items.
                andthen (ns_IsMutable (c_NaSe (node a)) (Name k)) (\<lambda>mut.
                  sendItems (repl a) k n (host m) mut items))) Q E w"
    proof (cases "addr = []")
      case False
      with p reg have b: "b \<in> nodes" "addr = host b" by (auto simp: bp registered_def)
      with that have src: "b \<in> source U (Name k) a m" by simp
      show ?thesis
        unfolding bp prod.case if_not_P [OF False] wp_attempt
        unfolding b(2)
        by (rule wp_call [OF SendGetAllItems_c [OF a b(1)] w])
           (use src b(1) in \<open>auto simp: wp_errstack wp_fail intro: transfer E_I [OF _ _ disjI1 [OF that]]\<close>)
    qed (use w that in \<open>simp add: bp wp_ret Q_def\<close>)
  qed simp
  show ?thesis
    unfolding fillReplica_def replicationService.simps self [OF a] m(1) [symmetric] Q_def [symmetric]
      E_def [symmetric]
    using other self_ by (cases "m = a") auto
qed

text \<open>Introducing the new replica and the members to each other changes nothing.\<close>

lemma introduce_c:
  fixes ids :: "(NodeID \<times> int) list"
  assumes a: "a \<in> nodes" and m: "m \<in> nodes"
    and ids: "\<And>i. i \<in> fst ` set ids \<Longrightarrow> i \<in> nodes \<and> nv_addr U i = Some (host i)"
  shows "triple (cat SV U) (foreach (introduce (repl a) k \<lparr>nID = m, nHost = host m\<rparr>) ids)
    (\<lambda>_. cat SV U)
    (\<lambda>e w. is_wrapped e \<and> cat SV U w \<and> \<not> (\<forall>i \<in> insert m (fst ` set ids). up (host i)))"
    (is "triple _ _ _ ?E")
proof -
  define E where "E = ?E"
  have E_I: "is_wrapped e \<Longrightarrow> cat SV U w \<Longrightarrow> i \<in> insert m (fst ` set ids) \<Longrightarrow> \<not> up (host i) \<Longrightarrow> E e w" for e w i
    unfolding E_def by blast
  have "triple (cat SV U) (introduce (repl a) k \<lparr>nID = m, nHost = host m\<rparr> p) (\<lambda>_. cat SV U) E"
    if "p \<in> set ids" for p
  proof -
    obtain i x where p: "p = (i, x)" by force
    with that have i: "i \<in> nodes" "nv_addr U i = Some (host i)" "i \<in> fst ` set ids"
      using fst_image [where P = "\<lambda>i. i \<in> nodes \<and> nv_addr U i = Some (host i) \<and> i \<in> fst ` set ids" and ids = ids]
        ids by auto
    have there: "wp (cl_SendAddReplica (c_Client (node a)) (host m) (Name k) n' y) (\<lambda>_. cat SV U) E w"
      if "cat SV U w" for w n' y
      by (rule wp_call [OF SendReplica_c(1) [OF a m] that]) (auto intro: E_I [of _ _ m])
    have here: "wp (andthen (cl_SendAddReplica (c_Client (node a)) (host i) (Name k) n' y)
        (\<lambda>_. cl_SendAddReplica (c_Client (node a)) (host m) (Name k) n'' y)) (\<lambda>_. cat SV U) E w"
      if "cat SV U w" for w n' n'' y
      unfolding wp_andthen
      by (rule wp_call [OF SendReplica_c(1) [OF a i(1)] that]) (use i(3) in \<open>auto intro: there E_I [of _ _ i]\<close>)
    show ?thesis
      unfolding introduce_def p prod.case replicationService.simps Node.simps
      by (rule triple_seq [OF address_c [OF a node_ok [OF i(1)]]]) (use i(2) in \<open>auto intro: here\<close>)
  qed
  from triple_foreach [where I = "\<lambda>_. cat SV U", OF this] show ?thesis unfolding E_def .
qed

text \<open>
  Adding a replica: the new node is a member, knows the keygroup and was sent the data. An error
  can leave it a member without the data, when the new node or a member cannot be reached.
\<close>

lemma addReplica_c:
  fixes U :: nview and SV :: "NodeID \<Rightarrow> sview"
  assumes a: "a \<in> nodes" and kg: "ok_name (Name k)" and n: "ok_name (nID n)" and x: "int64 (Expiry k)"
    and reg: "registered nodes host U" and pl: "placed nodes host U (Name k)"
    and named: "\<And>b j. b \<in> nodes \<Longrightarrow> sv_items (SV b) (Name k) j \<noteq> None \<Longrightarrow> reg_MatchString j"
  defines "m \<equiv> nID n"
  defines "U1 \<equiv> join_nv (Name k) m (Expiry k) U" and "SV1 \<equiv> SV(m := add_kg (Name k) (SV m))"
  defines "fine \<equiv> hs \<and> reg_MatchString (Name k) \<and> Name k \<in> nv_kgs U \<and> nv_addr U m \<noteq> None \<and> m \<noteq> a \<and>
    Name k \<notin> sv_kgs (SV m) \<and> Name k \<in> sv_kgs (SV a) \<and> (\<forall>i \<in> insert m (nv_mem U (Name k) - {a}). up (host i))"
  shows "triple (cat SV U) (addReplica (repl a) k n True)
    (\<lambda>_ w. m \<in> nodes \<and> nv_addr U m \<noteq> None \<and> Name k \<in> nv_kgs U \<and> (m = a \<and> cat SV1 U1 w \<or>
       (\<exists>b its V F. b \<in> source U1 (Name k) a m \<and> Name k \<in> sv_kgs (SV1 b) \<and>
         set its = {\<lparr>iKeygroup = Name k, iID = j, iVal = v\<rparr> | j v. sv_items (SV1 b) (Name k) j = Some v} \<and>
         cat (SV1(m := V)) (missed m F U1) w \<and>
         filled (Name k) (Name k \<in> nv_mut U \<and> up (host m) \<and> hs) its (SV1 m) (nv_fail U m) V F)))
    (\<lambda>e w. is_wrapped e \<and> \<not> fine \<and> (cat SV U w \<or> m \<in> nodes \<and> nv_addr U m \<noteq> None \<and> (cat SV U1 w \<or> cat SV1 U1 w)))"
    (is "triple _ _ ?Q ?E")
proof -
  define Q where "Q = ?Q"
  define E where "E = ?E"
  have E_I: "is_wrapped e \<Longrightarrow> \<not> fine \<Longrightarrow> cat SV U w \<or> m \<in> nodes \<and> nv_addr U m \<noteq> None \<and> (cat SV U1 w \<or> cat SV1 U1 w) \<Longrightarrow> E e w" for e w
    by (simp add: E_def)
  have addr1: "nv_addr U1 = nv_addr U" by (simp add: U1_def join_nv_def)
  have reg1: "registered nodes host U1" using reg unfolding registered_def addr1 .
  have pl1: "m \<in> nodes \<Longrightarrow> nv_addr U m = Some (host m) \<Longrightarrow> placed nodes host U1 (Name k)"
    using pl by (auto simp: placed_def U1_def join_nv_def)
  have named1: "b \<in> nodes \<Longrightarrow> sv_items (SV1 b) (Name k) j \<noteq> None \<Longrightarrow> reg_MatchString j" for b j
    using named [of b j] by (cases "b = m") (simp_all add: SV1_def add_kg_def)
  have U1: "nv_mut U1 = nv_mut U" "nv_fail U1 = nv_fail U" by (simp_all add: U1_def join_nv_def)
  have SV1: "Name k \<in> sv_kgs (SV1 m)" by (simp add: SV1_def add_kg_def)
  have fill: "wp (fillReplica (repl a) k n (host m)) Q E w"
    if "cat SV1 U1 w" "reg_MatchString (Name k)" and m: "m \<in> nodes" "Name k \<in> nv_kgs U" "nv_addr U m = Some (host m)" for w
  proof -
    show ?thesis
    proof (rule wp_call [OF fillReplica_c [OF a m_def [THEN meta_eq_to_obj_eq] m(1) kg reg1] that(1)])
      show "b \<in> nodes \<Longrightarrow> sv_items (SV1 b) (Name k) j \<noteq> None \<Longrightarrow> reg_MatchString j" for b j
        by (rule named1)
      show "is_wrapped e \<and> cat SV1 U1 w \<and> (m = a \<or> (hs \<longrightarrow> \<not> reg_MatchString (Name k) \<or> Name k \<notin> sv_kgs (SV1 a)))
          \<Longrightarrow> E e w" for e w
        by (rule E_I) (auto simp: fine_def SV1_def m)
    qed (simp_all add: Q_def m that(2) SV1 U1)
  qed
  have intro: "wp (andthen (members_or_fail (repl a) (Name k) True) (\<lambda>ids.
         andthen (foreach (introduce (repl a) k \<lparr>nID = m, nHost = host m\<rparr>) ids) (\<lambda>_.
         fillReplica (repl a) k n (host m)))) Q E w"
    if "cat SV1 U1 w" "reg_MatchString (Name k)" and m: "m \<in> nodes" "Name k \<in> nv_kgs U" "nv_addr U m = Some (host m)" for w
    unfolding wp_andthen
  proof (rule wp_call [OF members_or_fail_c [OF a kg] that(1)], elim conjE)
    fix ids :: "(NodeID \<times> int) list" and w
    assume w: "cat SV1 U1 w" and ids: "fst ` set ids = (if True then others U1 (Name k) a else nv_mem U1 (Name k))"
    have "i \<in> nodes \<and> nv_addr U1 i = Some (host i)" if "i \<in> fst ` set ids" for i
      using that ids pl1 m by (auto simp: placed_def)
    moreover have "\<not> fine" if "\<not> (\<forall>i \<in> insert m (fst ` set ids). up (host i))"
      using that ids by (auto simp: fine_def U1_def join_nv_def)
    ultimately show "wp (foreach (introduce (repl a) k \<lparr>nID = m, nHost = host m\<rparr>) ids)
        (\<lambda>_. wp (fillReplica (repl a) k n (host m)) Q E) E w"
      by (intro wp_call [OF introduce_c [OF a m(1)] w]) (blast intro: fill that m E_I)+
  qed simp
  have join: "wp (attempt (ns_JoinNodeIntoKeygroup (c_NaSe (node a)) (Name k) m (Expiry k))
           (\<lambda>e. errstack e (fail e)) (\<lambda>_.
         attempt (cl_SendCreateKeygroup (c_Client (node a)) (host m) (Name k) (Expiry k))
           (\<lambda>e. errstack e (fail e)) (\<lambda>_.
         andthen (members_or_fail (repl a) (Name k) True) (\<lambda>ids.
         andthen (foreach (introduce (repl a) k \<lparr>nID = m, nHost = host m\<rparr>) ids) (\<lambda>_.
         fillReplica (repl a) k n (host m)))))) Q E w"
    if w: "cat SV U w" and m: "m \<in> nodes" "Name k \<in> nv_kgs U" "nv_addr U m = Some (host m)" for w
  proof -
    have create: "wp (attempt (cl_SendCreateKeygroup (c_Client (node a)) (host m) (Name k) (Expiry k))
           (\<lambda>e. errstack e (fail e)) (\<lambda>_.
         andthen (members_or_fail (repl a) (Name k) True) (\<lambda>ids.
         andthen (foreach (introduce (repl a) k \<lparr>nID = m, nHost = host m\<rparr>) ids) (\<lambda>_.
         fillReplica (repl a) k n (host m))))) Q E w" if "cat SV U1 w" for w
      unfolding wp_attempt
      by (rule wp_call [OF SendCreateKeygroup_c [OF a m(1)] that])
         (use m in \<open>auto simp: wp_errstack wp_fail SV1_def [symmetric] fine_def intro: intro intro!: E_I\<close>)
    show ?thesis
      unfolding wp_attempt [of "ns_JoinNodeIntoKeygroup _ _ _ _"]
      by (rule wp_call [OF join_c [OF a kg node_ok [OF m(1)] x] w])
         (use m in \<open>auto simp: wp_errstack wp_fail U1_def [symmetric] fine_def intro: create intro!: E_I\<close>)
  qed
  show ?thesis
    unfolding addReplica_def replicationService.simps m_def [symmetric] Q_def [symmetric] E_def [symmetric]
  proof (simp only: simp_thms if_False, rule if_exists_c [OF a kg], rule triple_attempt [OF address_c [OF a]])
    fix h w assume "cat SV U w \<and> nv_addr U m = Some h" and ex: "Name k \<in> nv_kgs U"
    then have w: "cat SV U w" and m: "m \<in> nodes" "nv_addr U m = Some (host m)" "h = host m"
      using reg unfolding registered_def by blast+
    show "wp (attempt (ns_JoinNodeIntoKeygroup (c_NaSe (node a)) (Name k) m (Expiry k))
           (\<lambda>e. errstack e (fail e)) (\<lambda>_.
         attempt (cl_SendCreateKeygroup (c_Client (node a)) h (Name k) (Expiry k))
           (\<lambda>e. errstack e (fail e)) (\<lambda>_.
         andthen (members_or_fail (repl a) (Name k) True) (\<lambda>ids.
         andthen (foreach (introduce (repl a) k \<lparr>nID = m, nHost = h\<rparr>) ids) (\<lambda>_.
         fillReplica (repl a) k n h))))) Q E w"
      unfolding m(3) by (rule join [OF w m(1) ex m(2)])
  qed (use n in \<open>auto simp: m_def wp_errstack wp_fail no_such_keygroup_nase_def fine_def intro!: E_I\<close>)
qed

section \<open>The handlers\<close>

lemma HandleRemoveReplica_c:
  fixes U :: nview
  assumes a: "a \<in> nodes" and hs: hs and names: "ok_name user" "ok_name (Name k)" "ok_name (nID n)"
    and pl: "placed nodes host U (Name k)"
  defines "m \<equiv> nID n"
  shows "triple (cat SV U) (HandleRemoveReplica (ext a) user k n)
    (\<lambda>_ w. ''RemoveReplica'' \<in> nv_perm U user (Name k) \<and> m \<in> nv_mem U (Name k) \<and> nv_mem U (Name k) - {m} \<noteq> {} \<and>
       cat (SV(m := del_kg (Name k) (SV m))) (exit_nv (Name k) m U) w)
    (\<lambda>e w. is_wrapped e \<and> (cat SV U w \<or> ''RemoveReplica'' \<in> nv_perm U user (Name k) \<and>
       cat (SV(m := del_kg (Name k) (SV m))) U w))"
  unfolding HandleRemoveReplica_def exthandler.simps m_def
proof (rule authorised_c [OF a names(1,2)], rule triple_or_error [OF removeReplica_c [OF a hs names(2,3) pl]])
qed (auto simp: wp_ret)

lemma HandleAddReplica_c:
  fixes U :: nview and SV :: "NodeID \<Rightarrow> sview"
  assumes a: "a \<in> nodes" and names: "ok_name user" "ok_name (Name k)" "ok_name (nID n)" and x: "int64 (Expiry k)"
    and reg: "registered nodes host U" and pl: "placed nodes host U (Name k)"
    and named: "\<forall>b \<in> nodes. \<forall>j. sv_items (SV b) (Name k) j \<noteq> None \<longrightarrow> reg_MatchString j"
  defines "m \<equiv> nID n"
  defines "U1 \<equiv> join_nv (Name k) m (Expiry k) U" and "SV1 \<equiv> SV(m := add_kg (Name k) (SV m))"
  defines "fine \<equiv> hs \<and> reg_MatchString (Name k) \<and> Name k \<in> nv_kgs U \<and> nv_addr U m \<noteq> None \<and> m \<noteq> a \<and>
    Name k \<notin> sv_kgs (SV m) \<and> Name k \<in> sv_kgs (SV a) \<and> (\<forall>i \<in> insert m (nv_mem U (Name k) - {a}). up (host i))"
  shows "triple (cat SV U) (HandleAddReplica (ext a) user k n)
    (\<lambda>_ w. ''AddReplica'' \<in> nv_perm U user (Name k) \<and>
       m \<in> nodes \<and> nv_addr U m \<noteq> None \<and> Name k \<in> nv_kgs U \<and> (m = a \<and> cat SV1 U1 w \<or>
       (\<exists>b its V F. b \<in> source U1 (Name k) a m \<and> Name k \<in> sv_kgs (SV1 b) \<and>
         set its = {\<lparr>iKeygroup = Name k, iID = j, iVal = v\<rparr> | j v. sv_items (SV1 b) (Name k) j = Some v} \<and>
         cat (SV1(m := V)) (missed m F U1) w \<and>
         filled (Name k) (Name k \<in> nv_mut U \<and> up (host m) \<and> hs) its (SV1 m) (nv_fail U m) V F)))
    (\<lambda>e w. is_wrapped e \<and> \<not> (''AddReplica'' \<in> nv_perm U user (Name k) \<and> fine) \<and> (cat SV U w \<or> ''AddReplica'' \<in> nv_perm U user (Name k) \<and>
       m \<in> nodes \<and> nv_addr U m \<noteq> None \<and> (cat SV U1 w \<or> cat SV1 U1 w)))"
    (is "triple _ _ ?Q ?E")
proof -
  define Q where "Q = ?Q"
  note add = addReplica_c [OF a names(2,3) x reg pl, of SV, folded m_def, folded U1_def SV1_def fine_def]
  show ?thesis
    unfolding HandleAddReplica_def exthandler.simps Q_def [symmetric]
  proof (rule authorised_c [OF a names(1,2)])
    assume p: "''AddReplica'' \<in> nv_perm U user (Name k)"
    show "triple (cat SV U) (or_error (addReplica (repl a) k n True) ''error adding replica'' ret) Q ?E"
    proof (rule triple_or_error [OF add])
      show "b \<in> nodes \<Longrightarrow> sv_items (SV b) (Name k) j \<noteq> None \<Longrightarrow> reg_MatchString j" for b j
        using named by blast
    qed (unfold Q_def wp_ret, use p in auto)
  qed auto
qed

end

end
