(* ===== verification/Cluster_Recovery.thy ===== *)
theory Cluster_Recovery
  imports Cluster_Replicas
begin

text \<open>
  A node that starts: it registers its address, asks for the items it missed while it was away
  and fetches each from another member. What it missed is forgotten afterwards, whether the
  item could be fetched or not.
\<close>

text \<open>All other members of the keygroup can be reached and hold the same value of the item.\<close>

definition agreed ::
  "NodeID set \<Rightarrow> (NodeID \<Rightarrow> string) \<Rightarrow> (string \<Rightarrow> bool) \<Rightarrow> NodeID \<Rightarrow> (NodeID \<Rightarrow> sview) \<Rightarrow> nview
     \<Rightarrow> string \<Rightarrow> string \<Rightarrow> string \<Rightarrow> bool" where
  "agreed nodes host up a SV U kg i v \<longleftrightarrow>
     reg_MatchString kg \<and> reg_MatchString i \<and> kg \<in> sv_kgs (SV a) \<and> nv_mem U kg - {a} \<noteq> {} \<and>
     (\<forall>m \<in> nv_mem U kg - {a}. 0 \<le> nv_exp U kg m \<and> nv_exp U kg m \<le> 2147483647 \<and> m \<in> nodes \<and>
        nv_addr U m = Some (host m) \<and> up (host m) \<and> kg \<in> sv_kgs (SV m) \<and> sv_items (SV m) kg i = Some v)"

text \<open>The own store before (\<open>SV a\<close>) and after (\<open>V\<close>) the missed items \<open>K\<close> were looked for.\<close>

definition recovered ::
  "NodeID set \<Rightarrow> (NodeID \<Rightarrow> string) \<Rightarrow> (string \<Rightarrow> bool) \<Rightarrow> NodeID \<Rightarrow> (NodeID \<Rightarrow> sview) \<Rightarrow> nview
     \<Rightarrow> (string \<times> string) set \<Rightarrow> sview \<Rightarrow> bool" where
  "recovered nodes host up a SV U K V \<longleftrightarrow> sv_kgs V = sv_kgs (SV a) \<and> sv_trigs V = sv_trigs (SV a) \<and>
     (\<forall>kg i. sv_items V kg i = sv_items (SV a) kg i \<or>
        (kg, i) \<in> K \<and> (\<exists>b \<in> nodes. sv_items V kg i = sv_items (SV b) kg i)) \<and>
     (\<forall>kg i v. (kg, i) \<in> K \<longrightarrow> agreed nodes host up a SV U kg i v \<longrightarrow> sv_items V kg i = Some v)"

lemma recovered_start: "recovered nodes host up a SV U {} (SV a)"
  by (simp add: recovered_def)

lemma recovered_skip:
  assumes "recovered nodes host up a SV U K V" "\<And>v. \<not> agreed nodes host up a SV U kg i v"
  shows "recovered nodes host up a SV U (insert (kg, i) K) V"
  using assms by (auto simp: recovered_def)

lemma recovered_fetch:
  assumes "recovered nodes host up a SV U K V" "b \<in> nodes" "sv_items ((SV(a := V)) b) kg i = Some v'"
    and "\<And>v. agreed nodes host up a SV U kg i v \<Longrightarrow> v' = v"
  shows "recovered nodes host up a SV U (insert (kg, i) K) (upd_item kg i v' V)"
proof (cases "b = a")
  case True
  with assms(3) have "upd_item kg i v' V = V" by (simp add: upd_item_def fun_upd_idem)
  moreover have "sv_items V kg i = Some v'" using assms(3) True by simp
  ultimately show ?thesis using assms(1,4) by (auto simp: recovered_def)
next
  case False
  then have "\<exists>b \<in> nodes. Some v' = sv_items (SV b) kg i" using assms(2,3) by force
  then show ?thesis using assms(1,4) by (auto simp: recovered_def upd_item_def)
qed

text \<open>The address under which clients are told to find a node.\<close>

definition external_address :: "'w Config \<Rightarrow> string" where
  "external_address c = (if c_PeeringHostProxy c \<noteq> [] \<and> c_PeeringHost c \<noteq> c_PeeringHostProxy c
     then c_ExternalHostProxy c else c_ExternalHost c)"

context cluster
begin

lemma provider_agreed:
  assumes "a \<in> nodes" "agreed nodes host up a SV U kg i v" "ok_name kg"
  shows "triple (cat SV' U) (ns_GetNodeWithBiggerExpiry (c_NaSe (node a)) kg)
    (\<lambda>p w. cat SV' U w \<and> fst p \<in> others U kg a \<and> snd p = host (fst p) \<and> snd p \<noteq> []) (\<lambda>_ _. False)"
  by (rule triple_conseq [OF bigger_c [OF assms(1,3)]])
     (use assms(1,2) in \<open>auto simp: agreed_def members_nv_def self Let_def split: if_splits\<close>)

lemma update_missed_c:
  assumes a: "a \<in> nodes" and that: "ok_name (iKeygroup it)"
  shows "triple (cat SV U)
    (andthen (attempt (ns_GetExpiry (c_NaSe (node a)) (iKeygroup it)) (\<lambda>_. ret 0) ret) (\<lambda>expiry.
       attempt (ss_update (svc a) it False expiry) (\<lambda>_. ret ()) ret))
    (\<lambda>_ w. cat (SV(a := upd_item (iKeygroup it) (iID it) (iVal it) (SV a))) U w \<and> it \<noteq> emptyItem \<or>
       cat SV U w \<and> \<not> (hs \<and> reg_MatchString (iKeygroup it) \<and> reg_MatchString (iID it) \<and>
         iKeygroup it \<in> sv_kgs (SV a)))
    (\<lambda>_ _. False)"
proof -
  have upd: "wp (attempt (ss_update (svc a) it False x) (\<lambda>_. ret ()) ret)
    (\<lambda>_ w. cat (SV(a := upd_item (iKeygroup it) (iID it) (iVal it) (SV a))) U w \<and> it \<noteq> emptyItem \<or>
       cat SV U w \<and> \<not> (hs \<and> reg_MatchString (iKeygroup it) \<and> reg_MatchString (iID it) \<and>
         iKeygroup it \<in> sv_kgs (SV a))) (\<lambda>_ _. False) w" if "cat SV U w" "int64 x" for w x
    unfolding wp_attempt wp_ret
    by (rule wp_call [OF update_c [OF a that(2)] that(1)]) (auto simp: emptyItem_def reg_MatchString_def)
  have "triple (cat SV U) (attempt (ns_GetExpiry (c_NaSe (node a)) (iKeygroup it)) (\<lambda>_. ret 0) ret)
      (\<lambda>x w. cat SV U w \<and> int64 x) (\<lambda>_ _. False)"
    by (rule triple_attempt [OF getExpiry_c [OF a that]]) (auto simp: wp_ret)
  then show ?thesis by (rule triple_seq) (erule conjE, rule upd, assumption+)
qed

text \<open>One missed item: the three outcomes of \<open>recover\<close>.\<close>

lemma recover_c:
  assumes a: "a \<in> nodes" and hs: hs and it: "ok_name (iKeygroup it)"
    and reg: "registered nodes host U" and V: "recovered nodes host up a SV U K V"
  shows "triple (cat (SV(a := V)) U) (recover (node a) (svc a) it)
    (\<lambda>_ w. \<exists>V'. cat (SV(a := V')) U w \<and>
       recovered nodes host up a SV U (insert (iKeygroup it, iID it) K) V') (\<lambda>_ _. False)"
    (is "triple _ _ ?Q _")
proof -
  let ?kg = "iKeygroup it" and ?i = "iID it" and ?SV = "SV(a := V)"
  define Q where "Q = ?Q"
  have skip: "Q u w" if "cat ?SV U w" "\<And>v. \<not> agreed nodes host up a SV U ?kg ?i v" for w u
    using recovered_skip [OF V that(2)] that(1) unfolding Q_def by blast
  have fetch: "Q u w" if "cat (?SV(a := upd_item ?kg ?i v' V)) U w" "b \<in> nodes"
      "sv_items (?SV b) ?kg ?i = Some v'" "\<And>v. agreed nodes host up a SV U ?kg ?i v \<Longrightarrow> v' = v" for w v' b u
    using recovered_fetch [OF V that(2,3,4)] that(1) unfolding Q_def by auto
  have kgs: "sv_kgs V = sv_kgs (SV a)" using V by (simp add: recovered_def)
  let ?store = "\<lambda>item'. andthen (attempt (ns_GetExpiry (c_NaSe (node a)) (iKeygroup item')) (\<lambda>_. ret 0) ret) (\<lambda>expiry.
       attempt (ss_update (svc a) item' False expiry) (\<lambda>_. ret ()) ret)"
  have got: "wp (?store item') Q (\<lambda>_ _. False) w"
    if w: "cat ?SV U w" and i': "iKeygroup item' = ?kg" "iID item' = ?i" and b: "b \<in> nodes"
      "sv_items (?SV b) ?kg ?i = Some (iVal item')"
      and ok: "\<And>v. agreed nodes host up a SV U ?kg ?i v \<Longrightarrow> iVal item' = v" for w item' b
  proof -
    have none: "\<not> agreed nodes host up a SV U ?kg ?i v"
      if "\<not> (hs \<and> reg_MatchString ?kg \<and> reg_MatchString ?i \<and> ?kg \<in> sv_kgs V)" for v
      using that hs kgs by (auto simp: agreed_def)
    have "ok_name (iKeygroup item')" using it i' by simp
    then show ?thesis
      by (rule wp_call [OF update_missed_c [OF a] w])
         (unfold i' fun_upd_same, use skip none fetch [OF _ b ok] in blast)+
  qed
  have lost: "wp (?store emptyItem) Q (\<lambda>_ _. False) w"
    if "cat ?SV U w" "\<And>v. \<not> agreed nodes host up a SV U ?kg ?i v" for w
    by (rule wp_call [OF update_missed_c [OF a] that(1)])
       (use that(2) in \<open>auto simp: emptyItem_def ok_name_def intro: skip\<close>)
  let ?get = "\<lambda>addr. andthen (attempt (cl_SendGetItem (c_Client (node a)) addr ?kg ?i) (\<lambda>_. ret emptyItem) ret) ?store"
  have asked: "wp (?get (host b)) Q (\<lambda>_ _. False) w"
    if w: "cat ?SV U w" and b: "b \<in> nodes"
      and ok: "\<And>v. agreed nodes host up a SV U ?kg ?i v \<Longrightarrow> b \<in> others U ?kg a" for w b
  proof -
    have v: "v' = v" if "agreed nodes host up a SV U ?kg ?i v" "sv_items (?SV b) ?kg ?i = Some v'" for v v'
      using ok [OF that(1)] that by (auto simp: agreed_def)
    have none: "\<not> agreed nodes host up a SV U ?kg ?i v"
      if "up (host b) \<and> hs \<longrightarrow> \<not> (reg_MatchString ?kg \<and> reg_MatchString ?i) \<or>
          ?kg \<notin> sv_kgs (?SV b) \<or> sv_items (?SV b) ?kg ?i = None" for v
    proof
      assume g: "agreed nodes host up a SV U ?kg ?i v"
      from ok [OF g] have "b \<in> others U ?kg a" "b \<noteq> a" by auto
      with g that hs show False by (auto simp: agreed_def)
    qed
    show ?thesis
      unfolding wp_andthen [of "attempt (cl_SendGetItem _ _ _ _) _ _"] wp_attempt [of "cl_SendGetItem _ _ _ _"] wp_ret
      by (rule wp_call [OF SendGetItem_c [OF a b] w])
         (elim conjE, rule got [OF _ _ _ b _ v], (simp; fail)+, elim conjE, rule lost, assumption, erule none)
  qed
  have chosen: "wp (case p of (_, addr) \<Rightarrow> if addr = [] then ret () else ?get addr) Q (\<lambda>_ _. False) w"
    if "cat ?SV U w" "snd p \<noteq> [] \<Longrightarrow> fst p \<in> nodes \<and> snd p = host (fst p)"
      "\<And>v. agreed nodes host up a SV U ?kg ?i v \<Longrightarrow> fst p \<in> others U ?kg a \<and> snd p \<noteq> []" for w p
    using that by (cases p; cases "snd p = []") (auto simp: wp_ret intro: skip asked)
  show ?thesis
    unfolding recover_def Q_def [symmetric]
  proof (cases "\<exists>v. agreed nodes host up a SV U ?kg ?i v")
    case True
    then obtain v where v: "agreed nodes host up a SV U ?kg ?i v" by blast
    show "triple (cat ?SV U) (andthen (ns_GetNodeWithBiggerExpiry (c_NaSe (node a)) ?kg) (\<lambda>(node, addr).
        if addr = [] then ret () else ?get addr)) Q (\<lambda>_ _. False)"
      by (rule triple_seq [OF provider_agreed [OF a v it]], rule chosen)
         (use v in \<open>auto simp: agreed_def\<close>)
  next
    case False
    have place: "b \<in> nodes \<and> h = host b" if "nv_addr U b = Some h" for b h
      using reg that unfolding registered_def by blast
    show "triple (cat ?SV U) (andthen (ns_GetNodeWithBiggerExpiry (c_NaSe (node a)) ?kg) (\<lambda>(node, addr).
        if addr = [] then ret () else ?get addr)) Q (\<lambda>_ _. False)"
      by (rule triple_seq [OF provider_c [OF a it]], rule chosen) (use False place in blast)+
  qed
qed

lemma recover_loop_c:
  assumes a: "a \<in> nodes" and hs: hs and its: "\<And>it. it \<in> set its \<Longrightarrow> ok_name (iKeygroup it)"
    and reg: "registered nodes host U"
  shows "triple (cat SV U) (foreach (recover (node a) (svc a)) its)
    (\<lambda>_ w. \<exists>V. cat (SV(a := V)) U w \<and>
       recovered nodes host up a SV U ((\<lambda>it. (iKeygroup it, iID it)) ` set its) V) (\<lambda>_ _. False)"
proof -
  let ?I = "\<lambda>(done :: Item list) w. \<exists>V. cat (SV(a := V)) U w \<and>
       recovered nodes host up a SV U ((\<lambda>it. (iKeygroup it, iID it)) ` set done) V"
  have step: "triple (?I done) (recover (node a) (svc a) it) (\<lambda>_. ?I (done @ [it])) (\<lambda>_ _. False)"
    if split: "its = done @ it # rest" for it "done" rest
  proof (rule tripleI, elim exE conjE)
    have it: "it \<in> set its" using split by simp
    fix w V assume "cat (SV(a := V)) U w"
      and "recovered nodes host up a SV U ((\<lambda>it. (iKeygroup it, iID it)) ` set done) V"
    then show "wp (recover (node a) (svc a) it) (\<lambda>_. ?I (done @ [it])) (\<lambda>_ _. False) w"
      by (intro wp_call [OF recover_c [OF a hs its [OF it] reg]]) simp_all
  qed
  have "triple (?I []) (foreach (recover (node a) (svc a)) its) (\<lambda>_. ?I its) (\<lambda>_ _. False)"
    by (rule triple_foreach_prefix [of its ?I]) (rule step)
  then show ?thesis
  proof (rule triple_conseq)
    show "?I [] w" if "cat SV U w" for w
      using that recovered_start [of nodes host up a SV U] by (intro exI [of _ "SV a"]) simp
  qed
qed

text \<open>Starting a node whose peering address is \<open>host a\<close>.\<close>

lemma New_c:
  fixes U :: nview
  assumes a: "a \<in> nodes" and hs: hs and reg: "registered nodes host U" and h: "host a \<noteq> []"
    and missed: "\<And>kg i. (kg, i) \<in> nv_fail U a \<Longrightarrow> ok_name kg"
    and addr: "(if c_PeeringHostProxy (node a) \<noteq> [] \<and> c_PeeringHost (node a) \<noteq> c_PeeringHostProxy (node a)
      then c_PeeringHostProxy (node a) else c_PeeringHost (node a)) = host a"
  defines "U1 \<equiv> collect_nv a (register_nv a (host a) (external_address (node a)) U)"
  shows "triple (cat SV U) (New (node a))
    (\<lambda>f w. f = services (node a) \<and> (\<exists>V. cat (SV(a := V)) U1 w \<and>
       recovered nodes host up a SV U1 (nv_fail U a) V)) (\<lambda>_ _. False)"
proof -
  let ?U0 = "register_nv a (host a) (external_address (node a)) U"
  have register: "triple (cat SV U) (register (node a)) (\<lambda>_. cat SV ?U0) (\<lambda>_ _. False)"
    unfolding register_def
    by (rule triple_attempt [where Q = "\<lambda>_. cat SV ?U0" and E' = "\<lambda>_ _. False"])
       (use addr in \<open>auto simp: wp_simps triple_def self a external_address_def split: if_splits intro!: wp_call [OF register_c [OF a]]\<close>)
  have reg1: "registered nodes host U1"
    using reg a h unfolding registered_def by (auto simp: U1_def collect_nv_def register_nv_def)
  have fail: "nv_fail ?U0 a = nv_fail U a" by (simp add: register_nv_def)
  have loop: "wp (andthen (foreach (recover (node a) (newStoreService (c_Store (node a)))) its) (\<lambda>_. ret (services (node a))))
      (\<lambda>f w. f = services (node a) \<and> (\<exists>V. cat (SV(a := V)) U1 w \<and>
         recovered nodes host up a SV U1 (nv_fail U a) V)) (\<lambda>_ _. False) w"
    if w: "cat SV U1 w" and its: "(\<lambda>it. (iKeygroup it, iID it)) ` set its = nv_fail U a" for w its
  proof -
    have "ok_name (iKeygroup it)" if "it \<in> set its" for it
      using its that missed [of "iKeygroup it" "iID it"] by blast
    from recover_loop_c [of a its U1 SV, OF a hs this reg1]
    show ?thesis
      unfolding wp_andthen wp_ret newStoreService_def by (rule wp_call) (use w its in simp_all)
  qed
  have status: "wp (andthen (ns_RequestNodeStatus (c_NaSe (node a)) a) (\<lambda>its.
      andthen (foreach (recover (node a) (newStoreService (c_Store (node a)))) its) (\<lambda>_. ret (services (node a)))))
      (\<lambda>f w. f = services (node a) \<and> (\<exists>V. cat (SV(a := V)) U1 w \<and>
         recovered nodes host up a SV U1 (nv_fail U a) V)) (\<lambda>_ _. False) w" if "cat SV ?U0 w" for w
    unfolding wp_andthen [of "ns_RequestNodeStatus _ _"]
    by (rule wp_call [OF status_c [OF a node_ok [OF a]] that]) (use loop in \<open>auto simp: fail U1_def\<close>)
  show ?thesis
    unfolding New_def self [OF a] by (rule triple_seq [OF register]) (use status in auto)
qed

end

end
