(* ===== verification/Cluster_Reference.thy ===== *)
theory Cluster_Reference
  imports Cluster_Recovery World_Parts Etcd_Reference Badger_Properties
begin

text \<open>
  An executable cluster of three nodes: an in-memory database per node, one etcd, and a network
  in which the hosts \<open>S\<close> can be reached. It satisfies everything \<open>cluster\<close> asks for, so
  the handlers can be run on it and their theorems apply.
\<close>

record world =
  w_db :: "string \<Rightarrow> mem"
  w_kv :: kvs
  w_conn :: "string \<Rightarrow> (string \<times> nat) list"

definition db_of :: "string \<Rightarrow> world \<Rightarrow> mem" where
  "db_of m w = w_db w m"

definition set_db :: "string \<Rightarrow> mem \<Rightarrow> world \<Rightarrow> world" where
  "set_db m d w = w\<lparr>w_db := (w_db w)(m := d)\<rparr>"

definition set_kv :: "kvs \<Rightarrow> world \<Rightarrow> world" where
  "set_kv kv w = w\<lparr>w_kv := kv\<rparr>"

definition rhosts :: "string list" where
  "rhosts = [''A'', ''B'', ''C'']"

definition rhostof :: "nat \<Rightarrow> string" where
  "rhostof h = (if h < 3 then rhosts ! h else [])"

definition rup :: "string list \<Rightarrow> string \<Rightarrow> bool" where
  "rup S h \<longleftrightarrow> h \<in> set rhosts \<and> h \<in> set S"

definition rtrigger :: "world TriggerNode" where
  "rtrigger = \<lparr>tr_Dial = (\<lambda>h. ret ()), tr_PutItemTrigger = (\<lambda>h kg i v. ret (Some (TRIGGER_OK, []))),
     tr_DeleteItemTrigger = (\<lambda>h kg i. ret (Some (TRIGGER_OK, []))), tr_Close = (\<lambda>h. ret ())\<rparr>"

definition rstore :: "string \<Rightarrow> world Store" where
  "rstore m = lift_Store (db_of m) (set_db m) (badgerdb_Store memB)"

definition rnase :: "string \<Rightarrow> world NameService" where
  "rnase m = etcdnase_NameService (ref_nase w_kv set_kv m)"

text \<open>The handler at a host; what it would send to others is not needed for what it receives.\<close>

definition no_client :: "world Client" where
  "no_client = (let off = fail (Wrapped ''no connection'') in
     \<lparr>cl_SendCreateKeygroup = (\<lambda>h kg x. off), cl_SendDeleteKeygroup = (\<lambda>h kg. off),
      cl_SendUpdate = (\<lambda>h kg i v. off), cl_SendAppend = (\<lambda>h kg i v. off), cl_SendDelete = (\<lambda>h kg i. off),
      cl_SendAddReplica = (\<lambda>h kg n x. off), cl_SendRemoveReplica = (\<lambda>h kg n. off),
      cl_SendGetItem = (\<lambda>h kg i. fail (Wrapped ''no connection'')),
      cl_SendGetAllItems = (\<lambda>h kg. fail (Wrapped ''no connection''))\<rparr>)"

definition rpeer :: "string \<Rightarrow> world inthandler" where
  "rpeer m = newInthandler \<lparr>iS = rstore m\<rparr>
     (newReplicationService \<lparr>iS = rstore m\<rparr> no_client (rnase m))
     \<lparr>t_tc = rtrigger, t_s = \<lparr>iS = rstore m\<rparr>\<rparr> (rnase m)"

definition ask :: "string list \<Rightarrow> nat \<Rightarrow> (world, 'a) op \<Rightarrow> (world, 'a) op" where
  "ask S h run = (if rup S (rhostof h) then run else fail (Raw ''transport: connection refused''))"

definition rgrpc :: "string list \<Rightarrow> world grpc_node" where
  "rgrpc S =
     \<lparr>g_Dial = (\<lambda>host. if host = ''A'' then ret 0 else if host = ''B'' then ret 1
        else if host = ''C'' then ret 2 else fail (Raw ''no such host'')),
      g_CreateKeygroup = (\<lambda>h kg x. ask S h (srv_CreateKeygroup (rpeer (rhostof h)) kg x)),
      g_DeleteKeygroup = (\<lambda>h kg. ask S h (srv_DeleteKeygroup (rpeer (rhostof h)) kg)),
      g_PutItem = (\<lambda>h kg i v. ask S h (srv_PutItem (rpeer (rhostof h)) kg i v)),
      g_AppendItem = (\<lambda>h kg i v. ask S h (srv_AppendItem (rpeer (rhostof h)) kg i v)),
      g_DeleteItem = (\<lambda>h kg i. ask S h (srv_DeleteItem (rpeer (rhostof h)) kg i)),
      g_AddReplica = (\<lambda>h n kg x. ask S h (srv_AddReplica (rpeer (rhostof h)) n kg x)),
      g_RemoveReplica = (\<lambda>h n kg. ask S h (srv_RemoveReplica (rpeer (rhostof h)) n kg)),
      g_GetItem = (\<lambda>h kg i. ask S h (srv_GetItem (rpeer (rhostof h)) kg i)),
      g_GetAllItems = (\<lambda>h kg. ask S h (srv_GetAllItems (rpeer (rhostof h)) kg))\<rparr>"

definition rclient :: "string list \<Rightarrow> string \<Rightarrow> world PeeringClient" where
  "rclient S m = \<lparr>pc_conn = (\<lambda>w. w_conn w m), pc_set_conn = (\<lambda>cs w. w\<lparr>w_conn := (w_conn w)(m := cs)\<rparr>),
     pc_grpc = rgrpc S\<rparr>"

definition rnode :: "string list \<Rightarrow> string \<Rightarrow> world Config" where
  "rnode S m = \<lparr>c_Store = rstore m, c_Client = peering_Client (rclient S m), c_NaSe = rnase m,
     c_PeeringHost = m, c_PeeringHostProxy = [], c_ExternalHost = m, c_ExternalHostProxy = [],
     c_Trigger = rtrigger, c_range = id\<rparr>"

definition conns_ok :: "world \<Rightarrow> bool" where
  "conns_ok w \<longleftrightarrow> (\<forall>m host h. map_of (w_conn w m) host = Some h \<longrightarrow> rhostof h = host)"

definition rinv :: "world \<Rightarrow> bool" where
  "rinv w \<longleftrightarrow> (\<forall>m. binv mem_view (w_db w m)) \<and> kv_ok (map_of (w_kv w)) \<and> conns_ok w"

definition rsv :: "string \<Rightarrow> world \<Rightarrow> sview" where
  "rsv m w = bstore_view mem_view (w_db w m)"

definition rnv :: "world \<Rightarrow> nview" where
  "rnv w = nase_view (map_of (w_kv w))"

section \<open>It is a cluster\<close>

lemma rstore_spec:
  "store_spec (rstore m) (\<lambda>w. rinv w \<and> (\<forall>k. k \<noteq> m \<longrightarrow> rsv k w = SV k) \<and> rnv w = U) (rsv m) True"
proof -
  let ?F = "\<lambda>w. (\<forall>k. k \<noteq> m \<longrightarrow> binv mem_view (w_db w k)) \<and> kv_ok (map_of (w_kv w)) \<and> conns_ok w \<and>
    (\<forall>k. k \<noteq> m \<longrightarrow> rsv k w = SV k) \<and> rnv w = U"
  have "(\<lambda>w. rinv w \<and> (\<forall>k. k \<noteq> m \<longrightarrow> rsv k w = SV k) \<and> rnv w = U) = (\<lambda>w. binv mem_view (db_of m w) \<and> ?F w)"
    by (auto simp: rinv_def db_of_def fun_eq_iff)
  moreover have "rsv m = (\<lambda>w. bstore_view mem_view (db_of m w))" by (simp add: rsv_def db_of_def fun_eq_iff)
  ultimately show ?thesis
    unfolding rstore_def
    using lift_store_spec [OF mem.badger_refines, of "db_of m" "set_db m" ?F]
    by (simp add: db_of_def set_db_def conns_ok_def rsv_def rnv_def)
qed

lemma rlog_store:
  "log_store (rstore m) rinv (rsv m) True (\<lambda>kg w. log_ok mem_view kg (w_db w m))"
proof -
  let ?F = "\<lambda>w. (\<forall>k. k \<noteq> m \<longrightarrow> binv mem_view (w_db w k)) \<and> kv_ok (map_of (w_kv w)) \<and> conns_ok w"
  have "rinv = (\<lambda>w. binv mem_view (db_of m w) \<and> ?F w)" "rsv m = (\<lambda>w. bstore_view mem_view (db_of m w))"
    by (auto simp: rinv_def rsv_def db_of_def fun_eq_iff)
  then show ?thesis
    unfolding rstore_def
    using lift_log_store [OF badger_log_store [OF mem.badger_backend_axioms], of "db_of m" "set_db m" ?F]
    by (simp add: db_of_def set_db_def conns_ok_def)
qed

interpretation rlog: log_store "rstore m" rinv "rsv m" True "\<lambda>kg w. log_ok mem_view kg (w_db w m)" for m
  by (rule rlog_store)

text \<open>The naming service does not touch the databases.\<close>

lemma rnase_apart:
  assumes "ok_name m"
  shows "nase_spec (rnase m) (\<lambda>w. (rinv w \<and> P (w_db w)) \<and> (\<forall>k. rsv k w = SV k)) rnv True"
proof -
  let ?F = "\<lambda>w. (\<forall>k. binv mem_view (w_db w k)) \<and> conns_ok w \<and> P (w_db w) \<and> (\<forall>k. rsv k w = SV k)"
  have eq: "(\<lambda>w. (rinv w \<and> P (w_db w)) \<and> (\<forall>k. rsv k w = SV k)) = nase_inv ?F (\<lambda>w. map_of (w_kv w))"
    "rnv = nase_of (\<lambda>w. map_of (w_kv w))"
    by (auto simp: rinv_def nase_inv_def nase_of_def rnv_def fun_eq_iff)
  have "etcd_backend (ref_nase w_kv set_kv m) ?F (\<lambda>w. map_of (w_kv w)) True"
    by (rule ref_backend) (use assms in \<open>simp_all add: set_kv_def conns_ok_def rsv_def\<close>)
  from etcd_backend.nase_refines [OF this] show ?thesis unfolding eq rnase_def .
qed

lemma rnase_spec: "ok_name m \<Longrightarrow> nase_spec (rnase m) (\<lambda>w. rinv w \<and> (\<forall>k. rsv k w = SV k)) rnv True"
  using rnase_apart [of m "\<lambda>_. True" SV] by simp

lemma ask_transport: "transport run (ask S h run) (rup S (rhostof h))"
proof -
  have "(\<exists>e. run w = (Err e, snd (run w))) \<or> (\<exists>x. fst (run w) = Ok x) \<or> fst (run w) = Panic" for w
    by (cases "run w"; cases "fst (run w)") auto
  then show ?thesis by (auto simp: transport_def ask_def fail_run) (metis fst_conv)+
qed

lemma rhostof_simps [simp]: "rhostof 0 = ''A''" "rhostof 1 = ''B''" "rhostof (Suc 0) = ''B''" "rhostof 2 = ''C''"
  by (simp_all add: rhostof_def rhosts_def)

lemma conns_put:
  "conns_ok w \<Longrightarrow> rhostof h = host \<Longrightarrow>
   conns_ok (w\<lparr>w_conn := (w_conn w)(m := map_put host h (w_conn w m))\<rparr>)"
  by (auto simp: conns_ok_def map_of_map_put split: if_splits)

lemma rclient_net:
  "peering_net (rclient S m) rhostof rpeer (rup S) rinv (\<lambda>w. (\<lambda>k. rsv k w, rnv w))"
proof unfold_locales
  fix w host h
  assume "rinv w" "map_of (pc_conn (rclient S m) w) host = Some h"
  then show "rhostof h = host" by (simp add: rinv_def conns_ok_def rclient_def)
next
  fix w h host
  assume "rinv w" "rhostof h = host"
  then show "rinv (pc_set_conn (rclient S m) (map_put host h (pc_conn (rclient S m) w)) w) \<and>
      (\<lambda>k. rsv k (pc_set_conn (rclient S m) (map_put host h (pc_conn (rclient S m) w)) w),
       rnv (pc_set_conn (rclient S m) (map_put host h (pc_conn (rclient S m) w)) w)) = (\<lambda>k. rsv k w, rnv w)"
    by (simp add: rinv_def rclient_def conns_put rsv_def rnv_def)
next
  fix V host
  show "triple (sat rinv (\<lambda>w. (\<lambda>k. rsv k w, rnv w)) V) (g_Dial (pc_grpc (rclient S m)) host)
      (\<lambda>h w. sat rinv (\<lambda>w. (\<lambda>k. rsv k w, rnv w)) V w \<and> rhostof h = host)
      (\<lambda>e w. sat rinv (\<lambda>w. (\<lambda>k. rsv k w, rnv w)) V w \<and> \<not> rup S host)"
    by (simp add: rclient_def rgrpc_def triple_def wp_simps rup_def rhosts_def)
qed (simp_all add: rclient_def rgrpc_def ask_transport)

interpretation rnet: peering_net "rclient S m" rhostof rpeer "rup S" rinv "\<lambda>w. (\<lambda>k. rsv k w, rnv w)" for S m
  by (rule rclient_net)

lemma rtrigger_calls:
  "trigger_calls (\<lambda>_. I) rtrigger (\<lambda>h. tr_PutItemTrigger rtrigger h kg i v)"
  "trigger_calls (\<lambda>_. I) rtrigger (\<lambda>h. tr_DeleteItemTrigger rtrigger h kg i)"
  by (simp_all add: trigger_calls_def rtrigger_def triple_def wp_ret)

lemma rnodes_ok: "m \<in> set rhosts \<Longrightarrow> ok_name m"
  by (auto simp: rhosts_def ok_name_def sep_def)

lemma rnode_simps [simp]:
  "c_Store (rnode S m) = rstore m" "c_Client (rnode S m) = peering_Client (rclient S m)"
  "c_NaSe (rnode S m) = rnase m" "c_Trigger (rnode S m) = rtrigger" "c_range (rnode S m) = id"
  "ns_GetNodeID (rnase m) = m"
  by (simp_all add: rnode_def rnase_def etcdnase_NameService_def ref_nase_def)

interpretation ref: cluster "set rhosts" "rnode S" "rclient S" "\<lambda>m. m" rhostof rpeer "rup S" rinv rsv rnv True
  for S
  by (rule cluster.intro)
     (simp_all add: rstore_spec rnase_spec rnodes_ok rclient_net rtrigger_calls perm_order_def rpeer_def
       newInthandler_def services_def Let_def newStoreService_def)

end
