(* ===== verification/Cluster_Properties.thy ===== *)
theory Cluster_Properties
  imports Cluster_Recovery
begin

text \<open>
  The properties of the handlers in a cluster, stated for a run of one handler: \<open>w\<close> is the world
  before, \<open>w'\<close> the one after, \<open>sv m\<close> what the store of node \<open>m\<close> holds and \<open>nv\<close> what the naming
  service knows. The parts of the cluster behave as their contracts say (\<open>cluster\<close>).
\<close>

abbreviation front :: "(NodeID \<Rightarrow> 'w Config) \<Rightarrow> NodeID \<Rightarrow> 'w exthandler" where
  "front node a \<equiv> F_E (services (node a))"

abbreviation cview :: "(NodeID \<Rightarrow> 'w \<Rightarrow> sview) \<Rightarrow> ('w \<Rightarrow> nview) \<Rightarrow> 'w \<Rightarrow> (NodeID \<Rightarrow> sview) \<times> nview" where
  "cview sv nv \<equiv> \<lambda>w. (\<lambda>k. sv k w, nv w)"

lemma sat_cview: "sat I (cview sv nv) (SV, U) w \<longleftrightarrow> I w \<and> (\<forall>k. sv k w = SV k) \<and> nv w = U"
  by (auto simp: sat_def fun_eq_iff)

lemma cview_start: "I w \<Longrightarrow> sat I (cview sv nv) (\<lambda>k. sv k w, nv w) w"
  by (simp add: sat_def)

lemma front_eq:
  "front node a = (let s = \<lparr>iS = c_Store (node a)\<rparr>; n = c_NaSe (node a);
      r = \<lparr>r_c = c_Client (node a), r_s = s, r_n = n\<rparr> in
    \<lparr>e_s = s, e_r = r, e_t = \<lparr>t_tc = c_Trigger (node a), t_s = s\<rparr>,
     e_a = \<lparr>a_n = n, a_range = c_range (node a)\<rparr>, e_n = n\<rparr>)"
  by (simp add: services_def Let_def newStoreService_def newReplicationService_def
      newExthandler_def newAuthService_def newInthandler_def)

text \<open>What relaying leaves, read off the definition.\<close>

lemma relayed_member:
  assumes "relayed eff reach it M SV U SV' U'"
  shows "m \<notin> M \<Longrightarrow> SV' m = SV m"
    and "m \<in> M \<Longrightarrow> SV' m = eff (SV m) \<or> SV' m = SV m \<and> it \<in> nv_fail U' m"
    and "m \<in> M \<Longrightarrow> reach m (SV m) \<Longrightarrow> SV' m = eff (SV m)"
    and "U' = U\<lparr>nv_fail := nv_fail U'\<rparr>"
    and "nv_fail U m \<subseteq> nv_fail U' m \<and> nv_fail U' m \<subseteq> insert it (nv_fail U m)"
proof -
  obtain F where F: "U' = U\<lparr>nv_fail := F\<rparr>" "\<forall>m. F m = nv_fail U m \<or> m \<in> M \<and> F m = insert it (nv_fail U m)"
    using assms unfolding relayed_def by blast
  then show "U' = U\<lparr>nv_fail := nv_fail U'\<rparr>" by simp
  show "nv_fail U m \<subseteq> nv_fail U' m \<and> nv_fail U' m \<subseteq> insert it (nv_fail U m)"
    using F(2) [rule_format, of m] by (auto simp: F(1))
  show "m \<notin> M \<Longrightarrow> SV' m = SV m" "m \<in> M \<Longrightarrow> SV' m = eff (SV m) \<or> SV' m = SV m \<and> it \<in> nv_fail U' m"
    "m \<in> M \<Longrightarrow> reach m (SV m) \<Longrightarrow> SV' m = eff (SV m)"
    using assms unfolding relayed_def by blast+
qed

lemma relayed_frame:
  assumes "relayed eff reach it M SV U SV' U'"
  shows "\<exists>F. U' = U\<lparr>nv_fail := F\<rparr> \<and> (\<forall>m. nv_fail U m \<subseteq> F m \<and> F m \<subseteq> insert it (nv_fail U m))"
  using relayed_member(4,5) [OF assms] by blast

lemma or_error_OkE:
  assumes "or_error m msg f w = (Ok y, w')"
  obtains x w1 where "m w = (Ok x, w1)" "f x w1 = (Ok y, w')"
proof -
  have "errstack e (fail (Wrapped msg)) w1 \<noteq> (Ok y, w')" for e w1
    by (cases e) (simp_all add: fail_run panic_run)
  then show ?thesis using assms that unfolding or_error_def by (elim attempt_OkE) blast+
qed

lemma authorised_OkE:
  assumes "authorised h user mt kg msg m w = (Ok y, w')"
  obtains w1 where "isAllowed (e_a h) user mt kg w = (Ok True, w1)" "m w1 = (Ok y, w')"
  using assms that unfolding authorised_def by (elim attempt_OkE) (auto simp: fail_run split: if_splits)

text \<open>The identifier of an appended item is the one the store of this node chose, in a world with the
  same items and, if it was in order, the log still in order.\<close>

lemma append_chosen:
  fixes it :: Item
  assumes log: "log_store S I view hs logged"
    and apart: "\<And>SV. nase_spec N (\<lambda>w. (I w \<and> logged (iKeygroup it) w) \<and> (\<forall>k. sv k w = SV k)) nv True"
    and names: "ok_name user" "ok_name (iKeygroup it)" "reg_MatchString (iKeygroup it)" and w: "I w"
    and view: "view = sv a" and l: "logged (iKeygroup it) w"
    and run: "HandleAppend \<lparr>e_s = \<lparr>iS = S\<rparr>, e_r = R, e_t = t, e_a = \<lparr>a_n = N, a_range = rng\<rparr>, e_n = N\<rparr> user it w = (Ok r, w')"
  shows "sv_items (sv a w) (iKeygroup it) (iID r) = None"
proof -
  let ?kg = "iKeygroup it"
  let ?J = "\<lambda>u. (I u \<and> logged ?kg u) \<and> (\<forall>k. sv k u = sv k w)"
  note N = apart [of "\<lambda>k. sv k w"]
  have w0: "sat ?J nv (nv w) w" using w l by (simp add: sat_def)
  from run obtain w1 m w2 x w3 ex w4 w5 where
    1: "isAllowed \<lparr>a_n = N, a_range = rng\<rparr> user ''Update'' ?kg w = (Ok True, w1)" and
    2: "ns_IsMutable N ?kg w1 = (Ok m, w2)" and 3: "ns_GetExpiry N ?kg w2 = (Ok x, w3)" and
    4: "st_ExistsKeygroup S ?kg w3 = (Ok ex, w4)" and 5: "st_Append S ?kg (iVal it) x w4 = (Ok (iID r), w5)"
    unfolding HandleAppend_def ss_append_def
    by (auto simp: ret_run fail_run split: if_splits elim!: authorised_OkE andthen_OkE or_error_OkE)
  from triple_run(2) [OF nase_spec.isAllowed_at [OF N names(1,2)] w0 1] have w1: "sat ?J nv (nv w) w1" by auto
  from triple_run(2) [OF nase_spec.mutable_spec [OF N names(2)] w1 2] have w2: "sat ?J nv (nv w) w2" by auto
  from triple_run(2) [OF nase_spec.expiry_spec [OF N names(2)] w2 3] have w3: "sat ?J nv (nv w) w3" "int64 x" by auto
  note S = log_store.axioms(1) [OF log]
  have "sat I view (view w) w3" using w3(1) view by (simp add: sat_def)
  from triple_run(2) [OF store_spec.existsKg_spec [OF S] this 4] have "I w4" "view w4 = view w"
    by (auto simp: sat_def)
  moreover have "logged ?kg w4" using log_store.existsKg_logged [OF log _ _ 4] w3(1) by (simp add: sat_def)
  ultimately show ?thesis using log_store.append_fresh [OF log names(3) w3(2) _ _ 5] view by simp
qed

section \<open>Updates reach every member\<close>

lemma update_effect:
  fixes it :: Item
  assumes C: "cluster nodes node pc host hostof peer up I sv nv hs"
    and a: "a \<in> nodes" "I w" and names: "ok_name user" "ok_name (iKeygroup it)" "ok_name (iID it)"
    and pl: "placed nodes host (nv w) (iKeygroup it)"
    and run: "HandleUpdate (front node a) user it w = (Ok (), w')"
  defines "eff \<equiv> upd_item (iKeygroup it) (iID it) (iVal it)"
    and "M \<equiv> nv_mem (nv w) (iKeygroup it) - {a}"
  shows "I w' \<and> ''Update'' \<in> nv_perm (nv w) user (iKeygroup it) \<and> iKeygroup it \<in> nv_mut (nv w) \<and>
    sv a w' = eff (sv a w) \<and>
    (\<forall>m \<in> M. sv m w' = eff (sv m w) \<or>
       sv m w' = sv m w \<and> (iKeygroup it, iID it) \<in> nv_fail (nv w') m) \<and>
    (\<forall>m \<in> M. up (host m) \<and> hs \<and> reg_MatchString (iKeygroup it) \<and> reg_MatchString (iID it) \<and>
       iKeygroup it \<in> sv_kgs (sv m w) \<longrightarrow> sv m w' = eff (sv m w)) \<and>
    (\<forall>m. m \<notin> insert a M \<longrightarrow> sv m w' = sv m w) \<and>
    (\<exists>F. nv w' = (nv w)\<lparr>nv_fail := F\<rparr> \<and>
       (\<forall>m. nv_fail (nv w) m \<subseteq> F m \<and> F m \<subseteq> insert (iKeygroup it, iID it) (nv_fail (nv w) m)))"
proof -
  note run' = run [unfolded front_eq Let_def]
  note post = triple_run(2) [OF cluster.HandleUpdate_c [OF C a(1) names pl] cview_start [of I, OF a(2)] run' refl]
  from post obtain SV' U' where ok: "''Update'' \<in> nv_perm (nv w) user (iKeygroup it)" "iKeygroup it \<in> nv_mut (nv w)"
    and rel: "relayed eff (\<lambda>m V. up (host m) \<and> hs \<and> reg_MatchString (iKeygroup it) \<and> reg_MatchString (iID it) \<and>
       iKeygroup it \<in> sv_kgs V) (iKeygroup it, iID it) M (\<lambda>k. sv k w) (nv w) SV' U'"
    and w': "sat I (cview sv nv) (SV'(a := eff (sv a w)), U') w'"
    unfolding eff_def M_def by blast
  have v: "I w'" "\<And>m. sv m w' = (SV'(a := eff (sv a w))) m" "nv w' = U'"
    using w' by (auto simp: sat_cview)
  from relayed_member(4,5) [OF rel] have "\<exists>F. nv w' = (nv w)\<lparr>nv_fail := F\<rparr> \<and>
       (\<forall>m. nv_fail (nv w) m \<subseteq> F m \<and> F m \<subseteq> insert (iKeygroup it, iID it) (nv_fail (nv w) m))"
    unfolding v by blast
  then show ?thesis
    using ok v relayed_member(1-3) [OF rel] by (auto simp: M_def)
qed

text \<open>C1: replication, with a naming service that works. After a successful update the item has its new
  value on this node and on every other member of the keygroup, or is recorded in the naming service
  as missed by that member; members that can be reached have it; no other node and nothing else in
  the naming service changes.\<close>

theorem update_replicated:
  fixes it :: Item
  assumes C: "cluster nodes node pc host hostof peer up I sv nv hs"
    and a: "a \<in> nodes" "I w" and names: "ok_name user" "ok_name (iKeygroup it)" "ok_name (iID it)"
    and pl: "placed nodes host (nv w) (iKeygroup it)"
    and run: "HandleUpdate (front node a) user it w = (Ok (), w')"
  defines "eff \<equiv> upd_item (iKeygroup it) (iID it) (iVal it)"
    and "M \<equiv> nv_mem (nv w) (iKeygroup it) - {a}"
  shows "I w' \<and> ''Update'' \<in> nv_perm (nv w) user (iKeygroup it) \<and> iKeygroup it \<in> nv_mut (nv w) \<and>
    sv a w' = eff (sv a w) \<and>
    (\<forall>m \<in> M. sv m w' = eff (sv m w) \<or>
       sv m w' = sv m w \<and> (iKeygroup it, iID it) \<in> nv_fail (nv w') m) \<and>
    (\<forall>m \<in> M. up (host m) \<and> hs \<and> reg_MatchString (iKeygroup it) \<and> reg_MatchString (iID it) \<and>
       iKeygroup it \<in> sv_kgs (sv m w) \<longrightarrow> sv m w' = eff (sv m w)) \<and>
    (\<forall>m. m \<notin> insert a M \<longrightarrow> sv m w' = sv m w) \<and>
    (\<exists>F. nv w' = (nv w)\<lparr>nv_fail := F\<rparr> \<and>
       (\<forall>m. nv_fail (nv w) m \<subseteq> F m \<and> F m \<subseteq> insert (iKeygroup it, iID it) (nv_fail (nv w) m)))"
  unfolding eff_def M_def by (rule update_effect [OF C a names pl run])

text \<open>C6: an update by a user without the permission, on an immutable keygroup or on one the naming
  service does not know is refused with an error, and no store and nothing in the naming
  service changes.\<close>

theorem update_refused:
  fixes it :: Item
  assumes C: "cluster nodes node pc host hostof peer up I sv nv hs"
    and a: "a \<in> nodes" "I w" and names: "ok_name user" "ok_name (iKeygroup it)" "ok_name (iID it)"
    and pl: "placed nodes host (nv w) (iKeygroup it)"
    and no: "\<not> (''Update'' \<in> nv_perm (nv w) user (iKeygroup it) \<and> iKeygroup it \<in> nv_mut (nv w) \<and>
      iKeygroup it \<in> nv_kgs (nv w))"
  shows "\<exists>e w'. HandleUpdate (front node a) user it w = (Err e, w') \<and> is_wrapped e \<and> I w' \<and>
    (\<forall>m. sv m w' = sv m w) \<and> nv w' = nv w"
proof -
  obtain r w' where run: "HandleUpdate (front node a) user it w = (r, w')" by force
  note res = triple_run [OF cluster.HandleUpdate_c [OF C a(1) names pl] cview_start [of I, OF a(2)]
      run [unfolded front_eq Let_def]]
  show ?thesis
  proof (cases r)
    case (Ok x)
    with res(2) no show ?thesis by (cases x) auto
  next
    case (Err e)
    with res(3) no run show ?thesis by (auto simp: sat_cview relayed_def)
  qed (use res(1) in simp)
qed

text \<open>C4: convergence. When all members of a mutable keygroup are up and know the keygroup, after a
  permitted update all of them, this node included, hold the new value, whatever the trigger nodes do.
  Without triggers on this node the update succeeds; a trigger node that fails can turn the answer
  into an error although the value is stored everywhere.\<close>

theorem update_converges:
  fixes it :: Item
  assumes C: "cluster nodes node pc host hostof peer up I sv nv True"
    and a: "a \<in> nodes" "I w" and names: "ok_name user" "reg_MatchString (iKeygroup it)" "reg_MatchString (iID it)"
    and pl: "placed nodes host (nv w) (iKeygroup it)"
    and allowed: "''Update'' \<in> nv_perm (nv w) user (iKeygroup it)" "iKeygroup it \<in> nv_mut (nv w)"
      "iKeygroup it \<in> nv_kgs (nv w)"
    and all: "\<forall>m \<in> insert a (nv_mem (nv w) (iKeygroup it)). (m = a \<or> up (host m)) \<and> iKeygroup it \<in> sv_kgs (sv m w)"
  shows "\<exists>r w'. HandleUpdate (front node a) user it w = (r, w') \<and> I w' \<and>
    (\<forall>m \<in> insert a (nv_mem (nv w) (iKeygroup it)). sv_items (sv m w') (iKeygroup it) (iID it) = Some (iVal it)) \<and>
    (r = Ok () \<or> (\<exists>msg. r = Err (Wrapped msg)) \<and> sv_trigs (sv a w) (iKeygroup it) \<noteq> Map.empty)"
proof -
  let ?kg = "iKeygroup it" and ?eff = "upd_item (iKeygroup it) (iID it) (iVal it)"
  let ?reach = "\<lambda>m V. up (host m) \<and> True \<and> reg_MatchString ?kg \<and> reg_MatchString (iID it) \<and> ?kg \<in> sv_kgs V"
  have ok: "ok_name ?kg" "ok_name (iID it)" using names by simp_all
  obtain r w' where run: "HandleUpdate (front node a) user it w = (r, w')" by force
  note res = triple_run [OF cluster.HandleUpdate_c [OF C a(1) names(1) ok pl] cview_start [of I, OF a(2)]
      run [unfolded front_eq Let_def]]
  have stored: "I w' \<and> (\<forall>m \<in> insert a (nv_mem (nv w) ?kg). sv_items (sv m w') ?kg (iID it) = Some (iVal it))"
    if rel: "relayed ?eff ?reach (?kg, iID it) (nv_mem (nv w) ?kg - {a}) (\<lambda>k. sv k w) (nv w) SV' U'"
      and w': "sat I (cview sv nv) (SV'(a := ?eff (sv a w)), U') w'" for SV' U'
  proof -
    have v: "I w'" "\<And>m. sv m w' = (SV'(a := ?eff (sv a w))) m" using w' by (auto simp: sat_cview)
    have "sv m w' = ?eff (sv m w)" if "m \<in> insert a (nv_mem (nv w) ?kg)" for m
      using that v(2) [of m] relayed_member(3) [OF rel, of m] all names by (cases "m = a") auto
    then show ?thesis using v(1) by (simp add: upd_item_def)
  qed
  show ?thesis
  proof (cases r)
    case (Ok x)
    from res(2) [OF Ok] obtain SV' U' where
      "relayed ?eff ?reach (?kg, iID it) (nv_mem (nv w) ?kg - {a}) (\<lambda>k. sv k w) (nv w) SV' U'"
      "sat I (cview sv nv) (SV'(a := ?eff (sv a w)), U') w'" by blast
    from stored [OF this] run Ok show ?thesis by simp
  next
    case (Err e)
    from res(3) [OF Err] have e: "is_wrapped e" by simp
    from res(3) [OF Err] allowed all names obtain SV' U' where
      "relayed ?eff ?reach (?kg, iID it) (nv_mem (nv w) ?kg - {a}) (\<lambda>k. sv k w) (nv w) SV' U'"
      "sat I (cview sv nv) (SV'(a := ?eff (sv a w)), U') w'" "sv_trigs (sv a w) ?kg \<noteq> Map.empty" by blast
    from stored [OF this(1,2)] this(3) run Err e show ?thesis by (cases e) auto
  qed (use res(1) in simp)
qed

text \<open>C5: reading elsewhere. A value written on one node is what a permitted user reads on every
  member that was reached.\<close>

theorem read_after_update:
  fixes it :: Item
  assumes C: "cluster nodes node pc host hostof peer up I sv nv True"
    and a: "a \<in> nodes" "I w" and b: "b \<in> nv_mem (nv w) (iKeygroup it)" "b = a \<or> up (host b)"
      "iKeygroup it \<in> sv_kgs (sv b w)"
    and names: "ok_name user" "ok_name reader" "reg_MatchString (iKeygroup it)" "reg_MatchString (iID it)"
    and pl: "placed nodes host (nv w) (iKeygroup it)"
    and reader: "''Read'' \<in> nv_perm (nv w) reader (iKeygroup it)"
    and run: "HandleUpdate (front node a) user it w = (Ok (), w')"
  shows "\<exists>w''. HandleRead (front node b) reader (it\<lparr>iVal := x\<rparr>) w' = (Ok it, w'')"
proof -
  have ok: "ok_name (iKeygroup it)" "ok_name (iID it)" using names by simp_all
  let ?eff = "upd_item (iKeygroup it) (iID it) (iVal it)"
  note rep = update_effect [OF C a names(1) ok pl run]
  have "sv b w' = ?eff (sv b w)" using rep b names by (cases "b = a") auto
  then have item: "sv_items (sv b w') (iKeygroup it) (iID it) = Some (iVal it)"
    and kg: "iKeygroup it \<in> sv_kgs (sv b w')" using b(3) by (simp_all add: upd_item_def)
  have node: "b \<in> nodes" using pl b(1) by (simp add: placed_def)
  have w': "I w'" and "nv_perm (nv w') = nv_perm (nv w)" using rep by auto
  then have perm: "''Read'' \<in> nv_perm (nv w') reader (iKeygroup it)" using reader by simp
  obtain r w'' where r: "HandleRead (front node b) reader (it\<lparr>iVal := x\<rparr>) w' = (r, w'')" by force
  note res = triple_run [OF cluster.HandleRead_c [OF C node names(2)] cview_start [of I, OF w']
      r [unfolded front_eq Let_def]]
  show ?thesis
  proof (cases r)
    case (Ok y)
    with res(2) [of y] ok item r show ?thesis by auto
  next
    case (Err e)
    with res(3) [of e] ok item kg perm names show ?thesis by auto
  qed (use res(1) ok in simp)
qed

end
