(* ===== verification/Replica_Properties.thy ===== *)
theory Replica_Properties
  imports Cluster_Properties
begin

text \<open>
  Further properties of the handlers in a cluster: deletion and append, the life of a keygroup,
  the permissions of users, members that join and leave, and a node that starts again.
\<close>

section \<open>Deletion and append\<close>

text \<open>C7: after a successful deletion the item is gone on this node and on every other member of the
  keygroup, or recorded as missed by that member; every other item of every store is as before, and
  in the naming service nothing changes but those records.\<close>

theorem delete_replicated:
  fixes it :: Item
  assumes C: "cluster nodes node pc host hostof peer up I sv nv hs"
    and a: "a \<in> nodes" "I w"
    and names: "ok_name user" "ok_name (iKeygroup it)" "ok_name (iID it)"
    and pl: "placed nodes host (nv w) (iKeygroup it)"
    and run: "HandleDelete (front node a) user it w = (Ok (), w')"
  defines "M \<equiv> nv_mem (nv w) (iKeygroup it) - {a}"
  shows "I w' \<and> ''Delete'' \<in> nv_perm (nv w) user (iKeygroup it) \<and> iKeygroup it \<in> nv_mut (nv w) \<and>
    sv a w' = del_item (iKeygroup it) (iID it) (sv a w) \<and>
    (\<forall>m \<in> M. sv m w' = del_item (iKeygroup it) (iID it) (sv m w) \<or>
       sv m w' = sv m w \<and> (iKeygroup it, iID it) \<in> nv_fail (nv w') m) \<and>
    (\<forall>m. m \<notin> insert a M \<longrightarrow> sv m w' = sv m w) \<and>
    (\<exists>F. nv w' = (nv w)\<lparr>nv_fail := F\<rparr> \<and>
       (\<forall>m. nv_fail (nv w) m \<subseteq> F m \<and> F m \<subseteq> insert (iKeygroup it, iID it) (nv_fail (nv w) m)))"
proof -
  let ?eff = "del_item (iKeygroup it) (iID it)"
  from triple_run(2) [OF cluster.HandleDelete_c [OF C a(1) names pl] cview_start [of I, OF a(2)]
      run [unfolded front_eq Let_def] refl]
  obtain SV' U' reach where ok: "''Delete'' \<in> nv_perm (nv w) user (iKeygroup it)" "iKeygroup it \<in> nv_mut (nv w)"
    and rel: "relayed ?eff reach (iKeygroup it, iID it) M ((\<lambda>k. sv k w)(a := ?eff (sv a w))) (nv w) SV' U'"
    and w': "sat I (cview sv nv) (SV', U') w'"
    unfolding M_def by blast
  have v: "I w'" "\<And>m. sv m w' = SV' m" "nv w' = U'" using w' by (auto simp: sat_cview)
  note frame = relayed_frame [OF rel]
  show ?thesis
    using ok v relayed_member(1,2) [OF rel] frame by (auto simp: M_def)
qed


section \<open>Keygroups\<close>

text \<open>C9: a keygroup that was created is new, has a valid name, is known to this node's store and to
  the naming service with this node as its only member and the given settings; its creator
  holds all roles and nobody else gained or lost a permission.\<close>

theorem create_keygroup:
  fixes k :: Keygroup
  assumes C: "cluster nodes node pc host hostof peer up I sv nv hs"
    and a: "a \<in> nodes" "I w" and names: "ok_name user" "ok_name (Name k)" and x: "int64 (Expiry k)"
    and run: "HandleCreateKeygroup (front node a) user k w = (Ok (), w')"
  shows "I w' \<and> Name k \<notin> nv_kgs (nv w) \<and> nv_kgs (nv w') = insert (Name k) (nv_kgs (nv w)) \<and>
    reg_MatchString (Name k) \<and> sv a w' = add_kg (Name k) (sv a w) \<and> (\<forall>m. m \<noteq> a \<longrightarrow> sv m w' = sv m w) \<and>
    nv_mem (nv w') (Name k) = {a} \<and> (Name k \<in> nv_mut (nv w') \<longleftrightarrow> Mutable k) \<and>
    nv_exp (nv w') (Name k) a = Expiry k \<and>
    (\<forall>u kg. nv_perm (nv w') u kg = nv_perm (nv w) u kg \<union>
       (if u = user \<and> kg = Name k then set (concat (map permissions [ReadKeygroup, WriteKeygroup,
          ConfigureReplica, ConfigureTrigger, ConfigureKeygroups])) else {}))"
proof -
  note range = cluster.range [OF C a(1)]
  from triple_run(2) [OF cluster.HandleCreateKeygroup_c [OF C a(1) names x] cview_start [of I, OF a(2)]
      run [unfolded front_eq Let_def] refl]
  show ?thesis
    by (auto simp: sat_cview grants_other grants_perm create_nv_def set_role_methods [OF range])
qed

text \<open>C17: a creation that this node's store refuses because of the name has already registered the
  keygroup: the user gets an error, the name is taken in the naming service and the user has
  no permission on it.\<close>

theorem create_invalid_name_registered:
  fixes k :: Keygroup
  assumes C: "cluster nodes node pc host hostof peer up I sv nv hs"
    and a: "a \<in> nodes" "I w" and names: "ok_name user" "ok_name (Name k)" and x: "int64 (Expiry k)"
    and bad: "\<not> reg_MatchString (Name k)" "Name k \<notin> nv_kgs (nv w)"
  shows "\<exists>e w'. HandleCreateKeygroup (front node a) user k w = (Err e, w') \<and>
    nv_kgs (nv w') = insert (Name k) (nv_kgs (nv w)) \<and> nv_perm (nv w') = nv_perm (nv w)"
proof -
  obtain r w' where run: "HandleCreateKeygroup (front node a) user k w = (r, w')" by force
  note res = triple_run [OF cluster.HandleCreateKeygroup_c [OF C a(1) names x] cview_start [of I, OF a(2)]
      run [unfolded front_eq Let_def]]
  show ?thesis
  proof (cases r)
    case (Ok u)
    with res(2) [of u] bad show ?thesis by simp
  next
    case (Err e)
    with res(3) [of e] bad run show ?thesis by (auto simp: sat_cview create_nv_def)
  qed (use res(1) in simp)
qed

text \<open>C10: a keygroup that was deleted is unknown to the naming service and to this node, which holds
  none of its items and triggers, and so do the other members that could be reached. The
  permissions on its name stay.\<close>

theorem delete_keygroup:
  assumes C: "cluster nodes node pc host hostof peer up I sv nv True"
    and a: "a \<in> nodes" "I w" and names: "ok_name user" "ok_name (Name k)"
    and pl: "placed nodes host (nv w) (Name k)"
    and run: "HandleDeleteKeygroup (front node a) user k w = (Ok (), w')"
  shows "I w' \<and> ''DeleteKeygroup'' \<in> nv_perm (nv w) user (Name k) \<and>
    nv_kgs (nv w') = nv_kgs (nv w) - {Name k} \<and> nv_perm (nv w') = nv_perm (nv w) \<and>
    sv a w' = del_kg (Name k) (sv a w) \<and>
    (\<forall>m \<in> nv_mem (nv w) (Name k). m \<noteq> a \<and> up (host m) \<and> Name k \<in> sv_kgs (sv m w) \<longrightarrow>
       sv m w' = del_kg (Name k) (sv m w)) \<and>
    (\<forall>m. m \<notin> insert a (nv_mem (nv w) (Name k)) \<longrightarrow> sv m w' = sv m w)"
proof -
  from triple_run(2) [OF cluster.HandleDeleteKeygroup_c [OF C a(1) TrueI names pl] cview_start [of I, OF a(2)]
      run [unfolded front_eq Let_def] refl]
  obtain SV' where ok: "''DeleteKeygroup'' \<in> nv_perm (nv w) user (Name k)"
    and w': "sat I (cview sv nv) (SV', delete_nv (Name k) (nv w)) w'"
    and same: "\<forall>m. m \<notin> nv_mem (nv w) (Name k) - {a} \<longrightarrow> SV' m = ((\<lambda>k. sv k w)(a := del_kg (Name k) (sv a w))) m"
    and gone: "\<forall>m \<in> nv_mem (nv w) (Name k) - {a}. SV' m = del_kg (Name k) (((\<lambda>k. sv k w)(a := del_kg (Name k) (sv a w))) m) \<or>
      SV' m = ((\<lambda>k. sv k w)(a := del_kg (Name k) (sv a w))) m \<and>
      \<not> (up (host m) \<and> Name k \<in> sv_kgs (((\<lambda>k. sv k w)(a := del_kg (Name k) (sv a w))) m))"
    by blast
  have v: "I w'" "\<And>m. sv m w' = SV' m" "nv w' = delete_nv (Name k) (nv w)" using w' by (auto simp: sat_cview)
  show ?thesis
    unfolding v using ok v(1) same gone by (auto simp: delete_nv_def split: if_splits)
qed

section \<open>Users\<close>

text \<open>Permissions are all that granting and revoking change.\<close>

lemma perm_update: "\<exists>P. grants u kg ms U = U\<lparr>nv_perm := P\<rparr>" "\<exists>P. revokes u kg ms U = U\<lparr>nv_perm := P\<rparr>"
proof (induction ms rule: rev_induct)
  case Nil
  have "U = U\<lparr>nv_perm := nv_perm U\<rparr>" by simp
  then show "\<exists>P. grants u kg [] U = U\<lparr>nv_perm := P\<rparr>" "\<exists>P. revokes u kg [] U = U\<lparr>nv_perm := P\<rparr>"
    by (auto simp: grants_def revokes_def intro!: exI [of _ "nv_perm U"])
next
  case (snoc m ms)
  then show "\<exists>P. grants u kg (ms @ [m]) U = U\<lparr>nv_perm := P\<rparr>" "\<exists>P. revokes u kg (ms @ [m]) U = U\<lparr>nv_perm := P\<rparr>"
    by (auto simp: grants_def revokes_def grant_nv_def revoke_nv_def)
qed

lemma only_perm:
  "U\<lparr>nv_perm := nv_perm (grants u kg ms U)\<rparr> = grants u kg ms U"
  "U\<lparr>nv_perm := nv_perm (revokes u kg ms U)\<rparr> = revokes u kg ms U"
  using perm_update [of u kg ms U] by auto

text \<open>C15: granting a role succeeds exactly for a user with the permission to add users, gives the new
  user the methods of the role on this keygroup, and changes nothing else.\<close>

theorem add_user_role:
  assumes C: "cluster nodes node pc host hostof peer up I sv nv hs"
    and a: "a \<in> nodes" "I w" and names: "ok_name user" "ok_name newuser" "ok_name (Name k)"
    and run: "HandleAddUser (front node a) user newuser k r w = (res, w')"
  shows "I w' \<and> (\<forall>m. sv m w' = sv m w) \<and>
    (if ''AddUser'' \<in> nv_perm (nv w) user (Name k)
     then res = Ok () \<and> nv w' = (nv w)\<lparr>nv_perm := nv_perm (nv w')\<rparr> \<and>
       (\<forall>u kg. nv_perm (nv w') u kg = nv_perm (nv w) u kg \<union>
          (if u = newuser \<and> kg = Name k then set (permissions r) else {}))
     else (\<exists>e. res = Err e) \<and> nv w' = nv w)"
proof -
  note range = cluster.range [OF C a(1)]
  note post = triple_run [OF cluster.HandleAddUser_c [OF C a(1) names] cview_start [of I, OF a(2)]
      run [unfolded front_eq Let_def]]
  show ?thesis
  proof (cases res)
    case (Ok x)
    with post(2) [of x] show ?thesis by (auto simp: sat_cview grants_perm set_role_methods [OF range] only_perm)
  next
    case (Err e)
    with post(3) [of e] show ?thesis by (auto simp: sat_cview)
  qed (use post(1) in simp)
qed

text \<open>C16: revoking a role succeeds exactly for a user with the permission to remove users, takes the
  methods of the role on this keygroup from the user, and changes nothing else.\<close>

theorem remove_user_role:
  assumes C: "cluster nodes node pc host hostof peer up I sv nv hs"
    and a: "a \<in> nodes" "I w" and names: "ok_name user" "ok_name newuser" "ok_name (Name k)"
    and run: "HandleRemoveUser (front node a) user newuser k r w = (res, w')"
  shows "I w' \<and> (\<forall>m. sv m w' = sv m w) \<and>
    (if ''RemoveUser'' \<in> nv_perm (nv w) user (Name k)
     then res = Ok () \<and> nv w' = (nv w)\<lparr>nv_perm := nv_perm (nv w')\<rparr> \<and>
       (\<forall>u kg. nv_perm (nv w') u kg = nv_perm (nv w) u kg -
          (if u = newuser \<and> kg = Name k then set (permissions r) else {}))
     else (\<exists>e. res = Err e) \<and> nv w' = nv w)"
proof -
  note range = cluster.range [OF C a(1)]
  note post = triple_run [OF cluster.HandleRemoveUser_c [OF C a(1) names] cview_start [of I, OF a(2)]
      run [unfolded front_eq Let_def]]
  show ?thesis
  proof (cases res)
    case (Ok x)
    with post(2) [of x] show ?thesis by (auto simp: sat_cview revokes_perm set_role_methods [OF range] only_perm)
  next
    case (Err e)
    with post(3) [of e] show ?thesis by (auto simp: sat_cview)
  qed (use post(1) in simp)
qed

section \<open>Members\<close>

text \<open>C13: removing a replica never removes the last member. When it succeeds the node was a member, is
  none any more and its store has lost the keygroup; otherwise the members are unchanged.\<close>

theorem remove_replica_keeps_member:
  assumes C: "cluster nodes node pc host hostof peer up I sv nv True"
    and a: "a \<in> nodes" "I w" and names: "ok_name user" "ok_name (Name k)" "ok_name (nID n)"
    and pl: "placed nodes host (nv w) (Name k)" and some: "nv_mem (nv w) (Name k) \<noteq> {}"
    and run: "HandleRemoveReplica (front node a) user k n w = (res, w')"
  shows "I w' \<and> res \<noteq> Panic \<and> nv_mem (nv w') (Name k) \<noteq> {} \<and>
    (if res = Ok ()
     then nID n \<in> nv_mem (nv w) (Name k) \<and> nv_mem (nv w') (Name k) = nv_mem (nv w) (Name k) - {nID n} \<and>
       sv (nID n) w' = del_kg (Name k) (sv (nID n) w)
     else nv w' = nv w) \<and>
    (\<forall>m. m \<noteq> nID n \<longrightarrow> sv m w' = sv m w)"
proof -
  note post = triple_run [OF cluster.HandleRemoveReplica_c [OF C a(1) TrueI names pl] cview_start [of I, OF a(2)]
      run [unfolded front_eq Let_def]]
  show ?thesis
  proof (cases res)
    case (Ok x)
    with post(2) [of x] show ?thesis by (auto simp: sat_cview exit_nv_def)
  next
    case (Err e)
    with post(3) [of e] some show ?thesis by (auto simp: sat_cview)
  qed (use post(1) in simp)
qed

lemma add_replica_effect:
  assumes C: "cluster nodes node pc host hostof peer up I sv nv hs"
    and a: "a \<in> nodes" "I w" and names: "ok_name user" "ok_name (Name k)" "ok_name (nID n)"
    and x: "int64 (Expiry k)" and n: "nID n \<noteq> a"
    and reg: "registered nodes host (nv w)" and pl: "placed nodes host (nv w) (Name k)"
    and run: "HandleAddReplica (front node a) user k n w = (Ok (), w')"
  shows "I w' \<and> ''AddReplica'' \<in> nv_perm (nv w) user (Name k) \<and>
    nv_mem (nv w') (Name k) = insert (nID n) (nv_mem (nv w) (Name k)) \<and>
    nv_exp (nv w') (Name k) (nID n) = Expiry k \<and> Name k \<in> sv_kgs (sv (nID n) w') \<and>
    (\<forall>i v. sv_items (sv a w) (Name k) i = Some v \<longrightarrow>
       sv_items (sv (nID n) w') (Name k) i = Some v \<or> (Name k, i) \<in> nv_fail (nv w') (nID n)) \<and>
    (\<forall>i v. Name k \<in> nv_mut (nv w) \<and> up (host (nID n)) \<and> hs \<longrightarrow> sv_items (sv a w) (Name k) i = Some v \<longrightarrow>
       sv_items (sv (nID n) w') (Name k) i = Some v) \<and>
    (\<forall>m. m \<noteq> nID n \<longrightarrow> sv m w' = sv m w)"
proof -
  let ?SV1 = "(\<lambda>k. sv k w)(nID n := add_kg (Name k) (sv (nID n) w))"
  have named: "\<forall>b \<in> nodes. \<forall>j. sv_items (sv b w) (Name k) j \<noteq> None \<longrightarrow> reg_MatchString j"
    using cluster.item_named [OF C _ a(2)] by blast
  obtain its V F where ok: "''AddReplica'' \<in> nv_perm (nv w) user (Name k)"
    and its: "set its = {\<lparr>iKeygroup = Name k, iID = j, iVal = v\<rparr> | j v. sv_items (sv a w) (Name k) j = Some v}"
    and w': "sat I (cview sv nv) (?SV1(nID n := V),
       (join_nv (Name k) (nID n) (Expiry k) (nv w))\<lparr>nv_fail := (nv_fail (join_nv (Name k) (nID n) (Expiry k) (nv w)))(nID n := F)\<rparr>) w'"
    and fil: "filled (Name k) (Name k \<in> nv_mut (nv w) \<and> up (host (nID n)) \<and> hs) its (?SV1 (nID n))
       (nv_fail (nv w) (nID n)) V F"
  proof -
    note add = cluster.HandleAddReplica_c [OF C a(1) names x reg pl, of "\<lambda>k. sv k w", OF named]
    have src: "?SV1 b = sv a w" if "b \<in> (if nID n = a then nodes else {a})" for b using that n by simp
    from triple_run(2) [OF add cview_start [of I, OF a(2)] run [unfolded front_eq Let_def] refl]
    show ?thesis
      by (elim conjE disjE exE) (simp add: n, rule that, assumption, simp only: src, assumption+)
  qed
  have v: "I w'" "\<And>m. sv m w' = (?SV1(nID n := V)) m"
    "nv w' = (join_nv (Name k) (nID n) (Expiry k) (nv w))\<lparr>nv_fail := (nv_fail (join_nv (Name k) (nID n) (Expiry k) (nv w)))(nID n := F)\<rparr>"
    using w' by (auto simp: sat_cview)
  have item: "\<lparr>iKeygroup = Name k, iID = i, iVal = s\<rparr> \<in> set its" if "sv_items (sv a w) (Name k) i = Some s" for i s
    using that its by auto
  have there: "sv_items V (Name k) i = Some s \<or>
      \<not> (Name k \<in> nv_mut (nv w) \<and> up (host (nID n)) \<and> hs) \<and> (Name k, i) \<in> F"
    if "sv_items (sv a w) (Name k) i = Some s" for i s
  proof -
    have "\<forall>it \<in> set its. sv_items V (Name k) (iID it) = Some (iVal it) \<or>
      \<not> (Name k \<in> nv_mut (nv w) \<and> up (host (nID n)) \<and> hs) \<and> (Name k, iID it) \<in> F"
      using fil unfolding filled_def by (elim conjE)
    from bspec [OF this item [OF that]] show ?thesis by (simp only: Item.simps)
  qed
  have "sv_kgs V = sv_kgs (?SV1 (nID n))" using fil unfolding filled_def by (elim conjE)
  then have "Name k \<in> sv_kgs V" by (simp add: add_kg_def)
  then show ?thesis
    unfolding v using ok v(1) there by (auto simp: join_nv_def)
qed

text \<open>C11: adding a replica on another node. When it succeeds the node is a member with the given
  expiry, its store knows the keygroup, and every item this node holds is in it or recorded as
  missed; if the keygroup is mutable and the node can be reached, every item is in it. No
  other node's store changes.\<close>

theorem add_replica_copies:
  assumes C: "cluster nodes node pc host hostof peer up I sv nv hs"
    and a: "a \<in> nodes" "I w" and names: "ok_name user" "ok_name (Name k)" "ok_name (nID n)"
    and x: "int64 (Expiry k)" and n: "nID n \<noteq> a"
    and reg: "registered nodes host (nv w)" and pl: "placed nodes host (nv w) (Name k)"
    and run: "HandleAddReplica (front node a) user k n w = (Ok (), w')"
  shows "I w' \<and> ''AddReplica'' \<in> nv_perm (nv w) user (Name k) \<and>
    nv_mem (nv w') (Name k) = insert (nID n) (nv_mem (nv w) (Name k)) \<and>
    nv_exp (nv w') (Name k) (nID n) = Expiry k \<and> Name k \<in> sv_kgs (sv (nID n) w') \<and>
    (\<forall>i v. sv_items (sv a w) (Name k) i = Some v \<longrightarrow>
       sv_items (sv (nID n) w') (Name k) i = Some v \<or> (Name k, i) \<in> nv_fail (nv w') (nID n)) \<and>
    (\<forall>i v. Name k \<in> nv_mut (nv w) \<and> up (host (nID n)) \<and> hs \<longrightarrow> sv_items (sv a w) (Name k) i = Some v \<longrightarrow>
       sv_items (sv (nID n) w') (Name k) i = Some v) \<and>
    (\<forall>m. m \<noteq> nID n \<longrightarrow> sv m w' = sv m w)"
  by (rule add_replica_effect [OF assms])

text \<open>C12: a permitted request to add a replica of a mutable keygroup on another node succeeds when
  this node holds the keygroup, the new node is registered and does not hold it yet, and it and
  all members can be reached; afterwards the new node holds every item of this node.\<close>

theorem add_replica_succeeds:
  assumes C: "cluster nodes node pc host hostof peer up I sv nv True"
    and a: "a \<in> nodes" "I w" and names: "ok_name user" "reg_MatchString (Name k)" "ok_name (nID n)"
    and x: "int64 (Expiry k)" and n: "nID n \<noteq> a" "nv_addr (nv w) (nID n) \<noteq> None" "Name k \<notin> sv_kgs (sv (nID n) w)"
    and reg: "registered nodes host (nv w)" and pl: "placed nodes host (nv w) (Name k)"
    and ok: "''AddReplica'' \<in> nv_perm (nv w) user (Name k)" "Name k \<in> nv_kgs (nv w)" "Name k \<in> nv_mut (nv w)"
      "Name k \<in> sv_kgs (sv a w)"
    and reach: "\<forall>i \<in> insert (nID n) (nv_mem (nv w) (Name k)). i = a \<or> up (host i)"
  shows "\<exists>w'. HandleAddReplica (front node a) user k n w = (Ok (), w') \<and>
    nID n \<in> nv_mem (nv w') (Name k) \<and>
    (\<forall>i v. sv_items (sv a w) (Name k) i = Some v \<longrightarrow> sv_items (sv (nID n) w') (Name k) i = Some v)"
proof -
  obtain r w' where run: "HandleAddReplica (front node a) user k n w = (r, w')" by force
  have named: "\<forall>b \<in> nodes. \<forall>j. sv_items (sv b w) (Name k) j \<noteq> None \<longrightarrow> reg_MatchString j"
    using cluster.item_named [OF C _ a(2)] by blast
  note names' = names(1) valid_ok_name [OF names(2)] names(3)
  note post = triple_run [OF cluster.HandleAddReplica_c [OF C a(1) names' x reg pl, of "\<lambda>k. sv k w", OF named]
      cview_start [of I, OF a(2)] run [unfolded front_eq Let_def]]
  show ?thesis
  proof (cases r)
    case (Ok u)
    with run have run': "HandleAddReplica (front node a) user k n w = (Ok (), w')" by simp
    note eff = add_replica_effect [OF C a names' x n(1) reg pl run']
    have "up (host (nID n))" using reach n(1) by auto
    with eff ok(3) run' show ?thesis by blast
  next
    case (Err e)
    with post(3) [of e] have "\<not> (\<forall>i \<in> insert (nID n) (nv_mem (nv w) (Name k) - {a}). up (host i))"
      using names n ok by auto
    with reach n(1) show ?thesis by auto
  qed (use post(1) in simp)
qed

section \<open>A node that was away\<close>

text \<open>
  A node that starts registers its addresses, is told what it missed and forgets it, and stores for
  every missed item on which the other members agree exactly their value. Another missed item
  stays as it was or becomes what some node has; no other item changes, and no other node.
\<close>

lemma restart_effect:
  assumes C: "cluster nodes node pc host hostof peer up I sv nv True"
    and a: "a \<in> nodes" "I w" and reg: "registered nodes host (nv w)" and h: "host a \<noteq> []"
    and missed: "\<forall>(kg, i) \<in> nv_fail (nv w) a. ok_name kg"
    and addr: "(if c_PeeringHostProxy (node a) \<noteq> [] \<and> c_PeeringHost (node a) \<noteq> c_PeeringHostProxy (node a)
      then c_PeeringHostProxy (node a) else c_PeeringHost (node a)) = host a"
  shows "\<exists>w'. New (node a) w = (Ok (services (node a)), w') \<and> I w' \<and>
    nv_addr (nv w') a = Some (host a) \<and> nv_ext (nv w') a = Some (external_address (node a)) \<and>
    nv_fail (nv w') a = {} \<and>
    (\<forall>kg i v. (kg, i) \<in> nv_fail (nv w) a \<and> agreed nodes host up a (\<lambda>k. sv k w) (nv w) kg i v \<longrightarrow>
       sv_items (sv a w') kg i = Some v) \<and>
    (\<forall>kg i. sv_items (sv a w') kg i = sv_items (sv a w) kg i \<or>
       (kg, i) \<in> nv_fail (nv w) a \<and> (\<exists>b \<in> nodes. sv_items (sv a w') kg i = sv_items (sv b w) kg i)) \<and>
    (\<forall>m. m \<noteq> a \<longrightarrow> sv m w' = sv m w)"
proof -
  obtain r w' where run: "New (node a) w = (r, w')" by force
  note new = cluster.New_c [OF C a(1) TrueI reg h _ addr]
  have post: "triple (sat I (cview sv nv) (\<lambda>k. sv k w, nv w)) (New (node a))
    (\<lambda>f w1. f = services (node a) \<and> (\<exists>V. sat I (cview sv nv)
       ((\<lambda>k. sv k w)(a := V), collect_nv a (register_nv a (host a) (external_address (node a)) (nv w))) w1 \<and>
       recovered nodes host up a (\<lambda>k. sv k w) (collect_nv a (register_nv a (host a) (external_address (node a)) (nv w))) (nv_fail (nv w) a) V))
    (\<lambda>_ _. False)"
    by (rule new) (use missed in blast)
  note post = triple_run [OF post cview_start [of I, OF a(2)] run]
  have agree: "agreed nodes host up a SV (collect_nv a (register_nv a (host a) x U)) kg i v"
    if "agreed nodes host up a SV U kg i v" for SV U kg i v x
    using that by (auto simp: agreed_def collect_nv_def register_nv_def)
  show ?thesis
  proof (cases r)
    case (Ok f)
    from post(2) [OF Ok] obtain V where f: "f = services (node a)"
      and w': "sat I (cview sv nv) ((\<lambda>k. sv k w)(a := V), collect_nv a (register_nv a (host a) (external_address (node a)) (nv w))) w'"
      and rec: "recovered nodes host up a (\<lambda>k. sv k w) (collect_nv a (register_nv a (host a) (external_address (node a)) (nv w)))
        (nv_fail (nv w) a) V" by auto
    have v: "I w'" "\<And>m. sv m w' = ((\<lambda>k. sv k w)(a := V)) m" "nv w' = collect_nv a (register_nv a (host a) (external_address (node a)) (nv w))"
      using w' by (auto simp: sat_cview)
    have rec': "(kg, i) \<in> nv_fail (nv w) a \<Longrightarrow> agreed nodes host up a (\<lambda>k. sv k w) (nv w) kg i v \<Longrightarrow> sv_items V kg i = Some v"
      "sv_items V kg i = sv_items (sv a w) kg i \<or>
         (kg, i) \<in> nv_fail (nv w) a \<and> (\<exists>b \<in> nodes. sv_items V kg i = sv_items (sv b w) kg i)" for kg i v
      using rec agree unfolding recovered_def by blast+
    show ?thesis
      using run Ok f v rec' h by (auto simp: collect_nv_def register_nv_def)
  next
    case (Err e)
    with post(3) [of e] show ?thesis by auto
  qed (use post(1) in blast)
qed


end
