(* ===== verification/Cluster_Witnesses.thy ===== *)
theory Cluster_Witnesses
  imports Cluster_Reference Replica_Properties
begin

text \<open>
  The properties of the handlers applied to runs in the executable cluster: user \<open>u\<close> has created
  the keygroups \<open>kg\<close> (mutable) and \<open>log\<close> (immutable) at node \<open>A\<close>, nodes \<open>B\<close> and \<open>C\<close> are members too,
  and \<open>C\<close> cannot be reached.
\<close>

abbreviation AB :: "string list" where
  "AB \<equiv> [''A'', ''B'']"

definition boot :: world where
  "boot = \<lparr>w_db = (\<lambda>_. mem_new), w_kv = [], w_conn = (\<lambda>_. [])\<rparr>"

abbreviation at :: "(NodeID \<Rightarrow> sview) \<Rightarrow> nview \<Rightarrow> world \<Rightarrow> bool" where
  "at SV U \<equiv> sat rinv (\<lambda>w. (\<lambda>k. rsv k w, rnv w)) (SV, U)"

definition none :: sview where
  "none = \<lparr>sv_items = (\<lambda>_ _. None), sv_kgs = {}, sv_trigs = (\<lambda>_ _. None)\<rparr>"

definition nobody :: nview where
  "nobody = \<lparr>nv_kgs = {}, nv_mut = {}, nv_exp = (\<lambda>_ _. 0), nv_mem = (\<lambda>_. {}), nv_addr = Map.empty,
     nv_ext = Map.empty, nv_perm = (\<lambda>_ _. {}), nv_fail = (\<lambda>_. {})\<rparr>"

lemma boot_at: "at (\<lambda>_. none) nobody boot"
  by (auto simp: sat_def boot_def rinv_def binv_def mem_new_def mem_view_def kv_ok_def look_def conns_ok_def
      rsv_def rnv_def bstore_view_def nase_view_def none_def nobody_def blive_def live_def expiry_of_def fun_eq_iff)

text \<open>The world after an operation that cannot fail.\<close>

lemma run_at:
  assumes "triple P m Q E" "P w" "\<And>e w. \<not> E e w"
  shows "\<exists>x. fst (m w) = Ok x \<and> Q x (snd (m w))"
proof (cases "m w")
  case (Pair r w')
  from triple_run [OF assms(1,2) Pair] assms(3) Pair show ?thesis by (cases r) auto
qed

lemma snd_at:
  assumes "triple (at SV U) m (\<lambda>_ w. at SV' U' w \<and> R w) E" "at SV U w" "\<And>e w. \<not> E e w"
  shows "at SV' U' (snd (m w))"
  using run_at [OF assms] by blast

definition registered3 :: world where
  "registered3 = (let reg = (\<lambda>m w. snd (ns_RegisterSelf (rnase m) m m w)) in reg ''C'' (reg ''B'' (reg ''A'' boot)))"

abbreviation three :: nview where
  "three \<equiv> nobody\<lparr>nv_addr := [''A'' \<mapsto> ''A'', ''B'' \<mapsto> ''B'', ''C'' \<mapsto> ''C''],
     nv_ext := [''A'' \<mapsto> ''A'', ''B'' \<mapsto> ''B'', ''C'' \<mapsto> ''C'']\<rparr>"

lemma nodes3 [simp]: "''A'' \<in> set rhosts" "''B'' \<in> set rhosts" "''C'' \<in> set rhosts"
  by (simp_all add: rhosts_def)

lemma entered_at:
  assumes "m \<in> set rhosts" "at SV U w"
  shows "at SV (register_nv m m m U) (snd (ns_RegisterSelf (rnase m) m m w))"
  using run_at [OF ref.register_c [where S = AB, OF assms(1)] assms(2)] ref.self [where S = AB, OF assms(1)] by auto

lemma registered3_at: "at (\<lambda>_. none) three registered3"
proof -
  note r = entered_at [OF nodes3(3) entered_at [OF nodes3(2) entered_at [OF nodes3(1) boot_at]]]
  have "register_nv ''C'' ''C'' ''C'' (register_nv ''B'' ''B'' ''B'' (register_nv ''A'' ''A'' ''A'' nobody)) = three"
    by (simp add: register_nv_def nobody_def)
  with r show ?thesis by (simp add: registered3_def)
qed

section \<open>A cluster with two keygroups\<close>

definition create :: "string \<Rightarrow> bool \<Rightarrow> world \<Rightarrow> world" where
  "create kg mut w = snd (HandleCreateKeygroup (front (rnode AB) ''A'') ''u'' \<lparr>Name = kg, Mutable = mut, Expiry = 0\<rparr> w)"

definition enter :: "string \<Rightarrow> string \<Rightarrow> world \<Rightarrow> world" where
  "enter m kg w = snd (st_CreateKeygroup (rstore m) kg (snd (ns_JoinNodeIntoKeygroup (rnase m) kg m 0 w)))"

abbreviation all_roles :: "Role list" where
  "all_roles \<equiv> [ReadKeygroup, WriteKeygroup, ConfigureReplica, ConfigureTrigger, ConfigureKeygroups]"

definition created :: "string \<Rightarrow> bool \<Rightarrow> nview \<Rightarrow> nview" where
  "created kg mut U = grants ''u'' kg (role_methods id all_roles) (create_nv ''A'' kg mut 0 U)"

lemma ok_u [simp]: "ok_name ''u''" "ok_name ''v''"
  by (simp_all add: ok_name_def sep_def)

lemma int64_0 [simp]: "int64 0"
  by (simp add: int64_def)

lemma created_at:
  assumes "at SV U w" "kg \<notin> nv_kgs U" "reg_MatchString kg" "kg \<notin> sv_kgs (SV ''A'')"
  shows "at (SV(''A'' := add_kg kg (SV ''A''))) (created kg mut U) (create kg mut w)"
proof -
  let ?k = "\<lparr>Name = kg, Mutable = mut, Expiry = 0\<rparr> :: Keygroup"
  note tr = ref.HandleCreateKeygroup_c [where S = AB, OF nodes3(1) ok_u(1), of ?k SV U, unfolded rnode_simps(5)]
  from run_at [OF tr assms(1)] assms(2-4)
  show ?thesis unfolding create_def created_def front_eq Let_def by simp
qed

lemma found_at:
  assumes "at SV U w" "m \<in> set rhosts" "reg_MatchString kg"
  shows "at (SV(m := add_kg kg (SV m))) U (snd (st_CreateKeygroup (rstore m) kg w))"
proof -
  have "at (SV(m := SV m)) U w" using assms(1) by simp
  from run_at [OF store_spec.create_spec [OF ref.store [where S = AB, OF assms(2)], unfolded ref.sat_store, OF assms(3)] this]
  show ?thesis by auto
qed

lemma enter_at:
  assumes "at SV U w" "m \<in> set rhosts" "kg \<in> nv_kgs U" "reg_MatchString kg" "nv_addr U m \<noteq> None"
  shows "at (SV(m := add_kg kg (SV m))) (join_nv kg m 0 U) (enter m kg w)"
proof -
  have m: "ok_name m" using assms(2) by (rule rnodes_ok)
  from run_at [OF ref.join_c [where S = AB, OF assms(2) valid_ok_name [OF assms(4)] m int64_0] assms(1)] assms(3,5)
  have "at SV (join_nv kg m 0 U) (snd (ns_JoinNodeIntoKeygroup (rnase m) kg m 0 w))" by auto
  from found_at [OF this assms(2,4)] show ?thesis by (simp add: enter_def)
qed

definition town :: world where
  "town = enter ''C'' ''log'' (enter ''B'' ''log'' (create ''log'' False
     (enter ''C'' ''kg'' (enter ''B'' ''kg'' (create ''kg'' True registered3)))))"

definition townS :: sview where
  "townS = none\<lparr>sv_kgs := {''log'', ''kg''}\<rparr>"

definition townU :: nview where
  "townU = join_nv ''log'' ''C'' 0 (join_nv ''log'' ''B'' 0 (created ''log'' False
     (join_nv ''kg'' ''C'' 0 (join_nv ''kg'' ''B'' 0 (created ''kg'' True three)))))"

definition owner :: "string set" where
  "owner = {''Read'', ''Update'', ''Delete'', ''AddReplica'', ''GetReplica'', ''RemoveReplica'',
     ''GetTrigger'', ''AddTrigger'', ''RemoveTrigger'', ''DeleteKeygroup'', ''AddUser'', ''RemoveUser''}"

lemma owner_methods: "set (role_methods id all_roles) = owner"
  by (simp add: role_methods_def permissions_def owner_def)

lemma created_simps [simp]:
  "nv_kgs (created kg mut U) = insert kg (nv_kgs U)"
  "nv_mut (created kg mut U) = (if mut then insert kg (nv_mut U) else nv_mut U - {kg})"
  "nv_mem (created kg mut U) = (nv_mem U)(kg := {''A''})" "nv_addr (created kg mut U) = nv_addr U"
  "nv_exp (created kg mut U) = (nv_exp U)(kg := (nv_exp U kg)(''A'' := 0))"
  "nv_fail (created kg mut U) = nv_fail U"
  "nv_perm (created kg mut U) u k = nv_perm U u k \<union>
     (if u = ''u'' \<and> k = kg then owner else {})"
  by (simp_all add: created_def grants_other grants_perm create_nv_def owner_methods)

lemma join_simps [simp]:
  "nv_kgs (join_nv kg m x U) = nv_kgs U" "nv_mut (join_nv kg m x U) = nv_mut U"
  "nv_mem (join_nv kg m x U) = (nv_mem U)(kg := insert m (nv_mem U kg))"
  "nv_addr (join_nv kg m x U) = nv_addr U" "nv_perm (join_nv kg m x U) = nv_perm U"
  "nv_fail (join_nv kg m x U) = nv_fail U"
  "nv_exp (join_nv kg m x U) = (nv_exp U)(kg := (nv_exp U kg)(m := x))"
  by (simp_all add: join_nv_def)

lemma valid_names [simp]: "reg_MatchString ''kg''" "reg_MatchString ''log''" "reg_MatchString ''a''"
  by code_simp+

lemma nobody_simps [simp]:
  "nv_kgs nobody = {}" "nv_mut nobody = {}" "nv_exp nobody = (\<lambda>_ _. 0)" "nv_mem nobody = (\<lambda>_. {})"
  "nv_perm nobody = (\<lambda>_ _. {})" "nv_fail nobody = (\<lambda>_. {})" "sv_kgs none = {}" "sv_items none = (\<lambda>_ _. None)"
  "sv_trigs none = (\<lambda>_ _. None)"
  by (simp_all add: nobody_def none_def)

lemma town_at: "at ((\<lambda>_. none)(''A'' := townS, ''B'' := townS, ''C'' := townS)) townU town"
proof -
  have "at ((\<lambda>_. none)(''A'' := townS, ''B'' := townS, ''C'' := townS)) townU town"
    using enter_at [OF enter_at [OF created_at [OF enter_at [OF enter_at [OF created_at [OF registered3_at,
        of "''kg''" True], of "''B''" "''kg''"], of "''C''" "''kg''"], of "''log''" False],
        of "''B''" "''log''"], of "''C''" "''log''"]
    by (simp add: town_def townU_def townS_def add_kg_def)
  then show ?thesis .
qed

section \<open>Reading and writing\<close>

lemma town_views:
  "rinv town" "rnv town = townU" "rsv ''A'' town = townS" "rsv ''B'' town = townS" "rsv ''C'' town = townS"
  using town_at by (auto simp: sat_def fun_eq_iff)

lemma townU_simps [simp]:
  "nv_kgs townU = {''log'', ''kg''}" "nv_mut townU = {''kg''}" "nv_fail townU = (\<lambda>_. {})"
  "nv_mem townU = (\<lambda>_. {})(''kg'' := {''C'', ''B'', ''A''}, ''log'' := {''C'', ''B'', ''A''})"
  "nv_addr townU = [''A'' \<mapsto> ''A'', ''B'' \<mapsto> ''B'', ''C'' \<mapsto> ''C'']" "nv_exp townU kg m = 0"
  "nv_perm townU u k = (if u = ''u'' \<and> (k = ''kg'' \<or> k = ''log'') then owner else {})"
  by (auto simp: townU_def)

lemma townS_simps [simp]: "sv_kgs townS = {''log'', ''kg''}" "sv_items townS kg i = None" "sv_trigs townS kg = Map.empty"
  by (simp_all add: townS_def)

lemma town_placed [simp]: "placed (set rhosts) (\<lambda>m. m) townU kg" "registered (set rhosts) (\<lambda>m. m) townU"
  by (auto simp: placed_def registered_def rhosts_def split: if_splits)

lemmas refc = ref.cluster_axioms [where S = AB]

lemma rup_AB [simp]: "rup AB ''A''" "rup AB ''B''" "\<not> rup AB ''C''"
  by (simp_all add: rup_def rhosts_def)

lemma unit_run:
  fixes m :: "(world, unit) op"
  assumes "triple P m Q E" "P w" "\<And>e w. \<not> E e w"
  shows "m w = (Ok (), snd (m w))"
  using run_at [OF assms] by (cases "m w") auto

abbreviation it1 :: Item where
  "it1 \<equiv> \<lparr>iKeygroup = ''kg'', iID = ''a'', iVal = ''1''\<rparr>"

definition town1 :: world where
  "town1 = snd (HandleUpdate (front (rnode AB) ''A'') ''u'' it1 town)"

lemma it1_ok:
  "ok_name (iKeygroup it1)" "ok_name (iID it1)" "reg_MatchString (iKeygroup it1)" "reg_MatchString (iID it1)"
  "placed (set rhosts) (\<lambda>m. m) (rnv town) (iKeygroup it1)" "registered (set rhosts) (\<lambda>m. m) (rnv town)"
  by (simp_all add: town_views)

lemma town_members:
  "(\<forall>m \<in> nv_mem townU ''kg'' - {''A''}. P m) \<longleftrightarrow> P ''B'' \<and> P ''C''"
  by auto

lemma must_run:
  fixes m :: "(world, unit) op"
  assumes "triple (at (\<lambda>k. rsv k w) (rnv w)) m Q E" "rinv w" "\<And>e w. \<not> E e w"
  shows "m w = (Ok (), snd (m w))"
  by (rule unit_run [OF assms(1) cview_start [of rinv, OF assms(2)] assms(3)])

lemma town_update: "HandleUpdate (front (rnode AB) ''A'') ''u'' it1 town = (Ok (), town1)"
  unfolding town1_def front_eq Let_def
  by (rule must_run [OF ref.HandleUpdate_c [where S = AB]])
     (auto simp: owner_def town_views)

theorem update_replicated_witness:
  "HandleUpdate (front (rnode AB) ''A'') ''u'' it1 town = (Ok (), town1) \<and>
   sv_items (rsv ''A'' town1) ''kg'' ''a'' = Some ''1'' \<and> sv_items (rsv ''B'' town1) ''kg'' ''a'' = Some ''1'' \<and>
   (sv_items (rsv ''C'' town1) ''kg'' ''a'' = Some ''1'' \<or> (''kg'', ''a'') \<in> nv_fail (rnv town1) ''C'')"
proof -
  note T = update_replicated [OF refc nodes3(1) town_views(1) ok_u(1) it1_ok(1,2,5) town_update,
      unfolded Item.simps town_views town_members]
  have "rsv ''A'' town1 = upd_item ''kg'' ''a'' ''1'' townS" using T by blast
  moreover have "rsv ''B'' town1 = upd_item ''kg'' ''a'' ''1'' townS" using T by simp
  moreover have "rsv ''C'' town1 = upd_item ''kg'' ''a'' ''1'' townS \<or> (''kg'', ''a'') \<in> nv_fail (rnv town1) ''C''"
    using T by blast
  ultimately show ?thesis using town_update by (auto simp: upd_item_fields)
qed

theorem update_refused_witness:
  "\<exists>e w'. HandleUpdate (front (rnode AB) ''A'') ''v'' it1 town = (Err e, w') \<and> is_wrapped e \<and>
     rsv ''A'' w' = townS \<and> rnv w' = townU"
  using update_refused [OF refc nodes3(1) town_views(1) ok_u(2), of it1] by (auto simp: town_views)

theorem read_after_update_witness:
  "\<exists>w''. HandleRead (front (rnode AB) ''B'') ''u'' \<lparr>iKeygroup = ''kg'', iID = ''a'', iVal = []\<rparr> town1 = (Ok it1, w'')"
  using read_after_update [OF refc nodes3(1) town_views(1) _ _ _ ok_u(1) ok_u(1) _ _ _ _ town_update,
      of "''B''" "[]"]
  by (simp add: town_views owner_def)

lemma town1_views:
  "rinv town1" "rsv ''A'' town1 = upd_item ''kg'' ''a'' ''1'' townS" "rsv ''B'' town1 = upd_item ''kg'' ''a'' ''1'' townS"
  "\<exists>F. rnv town1 = townU\<lparr>nv_fail := F\<rparr>"
  using update_effect [OF refc nodes3(1) town_views(1) ok_u(1) it1_ok(1,2,5) town_update,
      unfolded Item.simps town_views town_members]
  by (simp_all add: town_views) blast

lemma town1_nase [simp]:
  "nv_kgs (rnv town1) = nv_kgs townU" "nv_mut (rnv town1) = nv_mut townU" "nv_perm (rnv town1) = nv_perm townU"
  "nv_mem (rnv town1) = nv_mem townU" "nv_addr (rnv town1) = nv_addr townU" "nv_exp (rnv town1) = nv_exp townU"
  using town1_views(4) by auto

lemma town1_placed [simp]: "placed (set rhosts) (\<lambda>m. m) (rnv town1) kg" "registered (set rhosts) (\<lambda>m. m) (rnv town1)"
  by (auto simp: placed_def registered_def rhosts_def split: if_splits)

lemma town1_ok: "placed (set rhosts) (\<lambda>m. m) (rnv town1) (iKeygroup it1)"
  by simp

definition town2 :: world where
  "town2 = snd (HandleDelete (front (rnode AB) ''A'') ''u'' it1 town1)"

lemma town_delete: "HandleDelete (front (rnode AB) ''A'') ''u'' it1 town1 = (Ok (), town2)"
  unfolding town2_def front_eq Let_def
  by (rule must_run [OF ref.HandleDelete_c [where S = AB]])
     (auto simp: owner_def town1_views(1-3) upd_item_fields)

theorem delete_replicated_witness:
  "HandleDelete (front (rnode AB) ''A'') ''u'' it1 town1 = (Ok (), town2) \<and>
   sv_items (rsv ''A'' town2) ''kg'' ''a'' = None \<and>
   (sv_items (rsv ''B'' town2) ''kg'' ''a'' = None \<or> (''kg'', ''a'') \<in> nv_fail (rnv town2) ''B'')"
proof -
  note T = delete_replicated [OF refc nodes3(1) town1_views(1) ok_u(1) it1_ok(1,2) town1_ok town_delete,
      unfolded Item.simps town1_views(2,3) town1_nase town_members]
  then have "rsv ''A'' town2 = del_item ''kg'' ''a'' (upd_item ''kg'' ''a'' ''1'' townS)"
    "rsv ''B'' town2 = del_item ''kg'' ''a'' (upd_item ''kg'' ''a'' ''1'' townS) \<or> (''kg'', ''a'') \<in> nv_fail (rnv town2) ''B''"
    by blast+
  then show ?thesis using town_delete by (auto simp: del_item_fields)
qed

end
