(* ===== verification/Nase_Witnesses.thy ===== *)
theory Nase_Witnesses
  imports Nase_Properties Cluster_Witnesses
begin

text \<open>The properties of the naming service in the executable cluster.\<close>

abbreviation etcdA :: "world EtcdNase" where
  "etcdA \<equiv> ref_nase w_kv set_kv ''A''"

lemma etcdA_backend: "etcd_backend etcdA (\<lambda>_. True) (\<lambda>w. map_of (w_kv w)) True"
  by (rule ref_backend) (simp_all add: set_kv_def ok_name_def sep_def)

lemma town_etcd:
  "nase_inv (\<lambda>_. True) (\<lambda>w. map_of (w_kv w)) town" "nase_of (\<lambda>w. map_of (w_kv w)) town = townU"
  using town_views(1,2) by (simp_all add: nase_inv_def nase_of_def rinv_def rnv_def)

theorem provider_biggest_expiry_witness:
  "\<exists>node addr w'. GetNodeWithBiggerExpiry etcdA ''kg'' town = (Ok (node, addr), w') \<and>
     node \<in> {''B'', ''C''} \<and> addr = node"
  using provider_biggest_expiry [OF etcdA_backend town_etcd(1), of "''kg''"]
  by (auto simp: town_etcd ref_nase_def MaxInt32_def split: if_splits)

text \<open>
  The attacker \<open>x\<close> may add users to the keygroup \<open>mine\<close>. They grant a role on it to a user whose name
  is chosen such that \<open>x\<close> may read \<open>secret\<close> afterwards.
\<close>

definition heist :: world where
  "heist = boot\<lparr>w_kv := [(''user|x|kg|mine|method|AddUser'', ''ok'')]\<rparr>"

abbreviation mine :: Keygroup where
  "mine \<equiv> \<lparr>Name = ''mine'', Mutable = True, Expiry = 0\<rparr>"

lemma heist_run:
  "fst (HandleAddUser (front (rnode AB) ''A'') ''x'' ''x|kg|secret|method|Read'' mine ReadKeygroup heist) = Ok ()"
  "fst (isAllowed (e_a (front (rnode AB) ''A'')) ''x'' ''Read'' ''secret'' heist) = Ok False"
  by code_simp+

theorem add_user_escalates_witness:
  "fst (isAllowed (e_a (front (rnode AB) ''A'')) ''x'' ''Read'' ''secret'' heist) = Ok False \<and>
   (\<exists>w' w''. HandleAddUser (front (rnode AB) ''A'') ''x'' ''x|kg|secret|method|Read'' mine ReadKeygroup heist = (Ok (), w') \<and>
      isAllowed (e_a (front (rnode AB) ''A'')) ''x'' ''Read'' ''secret'' w' = (Ok True, w''))"
proof -
  have h: "e_a (front (rnode AB) ''A'') = \<lparr>a_n = etcdnase_NameService etcdA, a_range = id\<rparr>"
    by (simp add: front_eq Let_def rnase_def)
  obtain w' where run: "HandleAddUser (front (rnode AB) ''A'') ''x'' (''x'' @ ''|kg|'' @ ''secret'' @ ''|method|'' @ ''Read'')
      mine ReadKeygroup heist = (Ok (), w')"
    using heist_run(1) by (metis append.simps prod.collapse)
  have "\<exists>w''. isAllowed (e_a (front (rnode AB) ''A'')) ''x'' ''Read'' ''secret'' w' = (Ok True, w'')"
    by (rule add_user_escalates [OF etcdA_backend TrueI h _ _ _ _ run])
       (simp_all add: ok_name_def sep_def permissions_def)
  with run heist_run(2) show ?thesis by auto
qed

end
