(* ===== verification/Cluster_Machine.thy ===== *)
theory Cluster_Machine
  imports Replica_Properties
begin

text \<open>
  The cluster as a state machine: in each step a node that has registered serves a request of a
  client, any of the seventeen of exthandler.go, or a node starts. The names in requests do not contain
  the separator of the keys (\<open>named\<close>); with it, users can break what is shown here. Peers and trigger
  nodes may fail, stores and naming service do not. \<open>may_change\<close> says what a request can do to the
  naming service, errors and partial failures included; from it follow the invariant of all reachable
  worlds, which requests crash a node, and that permissions only come from creating a keygroup or from
  a user who may add users.
\<close>

section \<open>Requests\<close>

datatype request =
    CreateKeygroup Keygroup | DeleteKeygroup Keygroup
  | ReadItem Item | ScanItems Item "64 word" | UpdateItem Item | AppendItem Item | DeleteItem Item
  | AddReplica Keygroup Node | RemoveReplica Keygroup Node
  | GetKeygroupReplica Keygroup | GetReplica Node | GetAllReplica
  | AddTrigger Keygroup Trigger | GetTriggers Keygroup | RemoveTrigger Keygroup Trigger
  | AddUser string Keygroup Role | RemoveUser string Keygroup Role

abbreviation forget :: "('w, 'a) op \<Rightarrow> ('w, unit) op" where
  "forget m \<equiv> andthen m (\<lambda>_. ret ())"

fun handle :: "'w exthandler \<Rightarrow> string \<Rightarrow> request \<Rightarrow> ('w, unit) op" where
  "handle h u (CreateKeygroup k) = HandleCreateKeygroup h u k"
| "handle h u (DeleteKeygroup k) = HandleDeleteKeygroup h u k"
| "handle h u (ReadItem it) = forget (HandleRead h u it)"
| "handle h u (ScanItems it n) = forget (HandleScan h u it n)"
| "handle h u (UpdateItem it) = HandleUpdate h u it"
| "handle h u (AppendItem it) = forget (HandleAppend h u it)"
| "handle h u (DeleteItem it) = HandleDelete h u it"
| "handle h u (AddReplica k n) = HandleAddReplica h u k n"
| "handle h u (RemoveReplica k n) = HandleRemoveReplica h u k n"
| "handle h u (GetKeygroupReplica k) = forget (HandleGetKeygroupReplica h u k)"
| "handle h u (GetReplica n) = forget (HandleGetReplica h u n)"
| "handle h u GetAllReplica = forget (HandleGetAllReplica h u)"
| "handle h u (AddTrigger k t) = HandleAddTrigger h u k t"
| "handle h u (GetTriggers k) = forget (HandleGetKeygroupTriggers h u k)"
| "handle h u (RemoveTrigger k t) = HandleRemoveTrigger h u k t"
| "handle h u (AddUser u' k r) = HandleAddUser h u u' k r"
| "handle h u (RemoveUser u' k r) = HandleRemoveUser h u u' k r"

text \<open>Names without the separator, and expiries that fit into an int.\<close>

fun named :: "request \<Rightarrow> bool" where
  "named (CreateKeygroup k) \<longleftrightarrow> ok_name (Name k) \<and> int64 (Expiry k)"
| "named (DeleteKeygroup k) \<longleftrightarrow> ok_name (Name k)"
| "named (ReadItem it) \<longleftrightarrow> ok_name (iKeygroup it)"
| "named (ScanItems it n) \<longleftrightarrow> ok_name (iKeygroup it)"
| "named (UpdateItem it) \<longleftrightarrow> ok_name (iKeygroup it) \<and> ok_name (iID it)"
| "named (AppendItem it) \<longleftrightarrow> ok_name (iKeygroup it)"
| "named (DeleteItem it) \<longleftrightarrow> ok_name (iKeygroup it) \<and> ok_name (iID it)"
| "named (AddReplica k n) \<longleftrightarrow> ok_name (Name k) \<and> ok_name (nID n) \<and> int64 (Expiry k)"
| "named (RemoveReplica k n) \<longleftrightarrow> ok_name (Name k) \<and> ok_name (nID n)"
| "named (GetKeygroupReplica k) \<longleftrightarrow> ok_name (Name k)"
| "named (GetReplica n) \<longleftrightarrow> ok_name (nID n)"
| "named GetAllReplica \<longleftrightarrow> True"
| "named (AddTrigger k t) \<longleftrightarrow> ok_name (Name k)"
| "named (GetTriggers k) \<longleftrightarrow> ok_name (Name k)"
| "named (RemoveTrigger k t) \<longleftrightarrow> ok_name (Name k)"
| "named (AddUser u k r) \<longleftrightarrow> ok_name u \<and> ok_name (Name k)"
| "named (RemoveUser u k r) \<longleftrightarrow> ok_name u \<and> ok_name (Name k)"

text \<open>
  The request that crashes a node: \<^verbatim>\<open>getReplica\<close> asserts the type of a nil error when the naming service
  does not know the keygroup. The user needs the permission, which outlives the keygroup.
\<close>

definition crashes :: "nview \<Rightarrow> string \<Rightarrow> request \<Rightarrow> bool" where
  "crashes U u r \<longleftrightarrow> (\<exists>k. r = GetKeygroupReplica k \<and> ''GetReplica'' \<in> nv_perm U u (Name k) \<and> Name k \<notin> nv_kgs U)"

text \<open>Only the missed updates of \<open>kg\<close> were added to.\<close>

definition fails_only :: "string \<Rightarrow> nview \<Rightarrow> nview \<Rightarrow> bool" where
  "fails_only kg U U' \<longleftrightarrow> (\<exists>F. U' = U\<lparr>nv_fail := F\<rparr> \<and> (\<forall>m. F m \<subseteq> nv_fail U m \<union> {kg} \<times> UNIV))"

fun may_change :: "NodeID set \<Rightarrow> NodeID \<Rightarrow> string \<Rightarrow> request \<Rightarrow> nview \<Rightarrow> nview \<Rightarrow> bool" where
  "may_change ns a u (CreateKeygroup k) U U' \<longleftrightarrow> U' = U \<or> Name k \<notin> nv_kgs U \<and>
     (let U1 = create_nv a (Name k) (Mutable k) (Expiry k) U in U' = U1 \<or> (\<exists>ms. U' = grants u (Name k) ms U1))"
| "may_change ns a u (DeleteKeygroup k) U U' \<longleftrightarrow> U' = U \<or>
     ''DeleteKeygroup'' \<in> nv_perm U u (Name k) \<and> U' = delete_nv (Name k) U"
| "may_change ns a u (UpdateItem it) U U' \<longleftrightarrow> U' = U \<or>
     ''Update'' \<in> nv_perm U u (iKeygroup it) \<and> fails_only (iKeygroup it) U U'"
| "may_change ns a u (AppendItem it) U U' \<longleftrightarrow> U' = U \<or>
     ''Update'' \<in> nv_perm U u (iKeygroup it) \<and> fails_only (iKeygroup it) U U'"
| "may_change ns a u (DeleteItem it) U U' \<longleftrightarrow> U' = U \<or>
     ''Delete'' \<in> nv_perm U u (iKeygroup it) \<and> fails_only (iKeygroup it) U U'"
| "may_change ns a u (AddReplica k n) U U' \<longleftrightarrow> U' = U \<or>
     ''AddReplica'' \<in> nv_perm U u (Name k) \<and> nID n \<in> ns \<and> nv_addr U (nID n) \<noteq> None \<and>
     fails_only (Name k) (join_nv (Name k) (nID n) (Expiry k) U) U'"
| "may_change ns a u (RemoveReplica k n) U U' \<longleftrightarrow> U' = U \<or>
     ''RemoveReplica'' \<in> nv_perm U u (Name k) \<and> nv_mem U (Name k) - {nID n} \<noteq> {} \<and>
     U' = exit_nv (Name k) (nID n) U"
| "may_change ns a u (AddUser u' k r) U U' \<longleftrightarrow> U' = U \<or>
     ''AddUser'' \<in> nv_perm U u (Name k) \<and> (\<exists>ms. set ms = set (permissions r) \<and> U' = grants u' (Name k) ms U)"
| "may_change ns a u (RemoveUser u' k r) U U' \<longleftrightarrow> U' = U \<or>
     ''RemoveUser'' \<in> nv_perm U u (Name k) \<and> (\<exists>ms. U' = revokes u' (Name k) ms U)"
| "may_change ns a u _ U U' \<longleftrightarrow> U' = U"

lemma fails_only_refl: "fails_only kg U U"
  by (auto simp: fails_only_def intro!: exI [of _ "nv_fail U"])

lemma relayed_fails: "relayed eff reach (kg, i) M SV U SV' U' \<Longrightarrow> fails_only kg U U'"
  unfolding relayed_def fails_only_def by fastforce

lemma missed_fails: "F \<subseteq> nv_fail U m \<union> {kg} \<times> UNIV \<Longrightarrow> fails_only kg U (U\<lparr>nv_fail := (nv_fail U)(m := F)\<rparr>)"
  by (auto simp: fails_only_def intro!: exI [of _ "(nv_fail U)(m := F)"] split: if_splits)

lemma filled_fails: "filled kg sure its V0 F0 V F \<Longrightarrow> F \<subseteq> F0 \<union> {kg} \<times> UNIV"
  by (auto simp: filled_def)

section \<open>What a request can do\<close>

context cluster
begin

lemma HandleTriggers_c:
  assumes "a \<in> nodes" "ok_name user" "ok_name (Name k)"
  shows "triple (cat SV U) (HandleAddTrigger (ext a) user k t)
      (\<lambda>_ w. \<exists>SV'. cat SV' U w) (\<lambda>e w. is_wrapped e \<and> cat SV U w)"
    and "triple (cat SV U) (HandleRemoveTrigger (ext a) user k t)
      (\<lambda>_ w. \<exists>SV'. cat SV' U w) (\<lambda>e w. is_wrapped e \<and> cat SV U w)"
    and "triple (cat SV U) (HandleGetKeygroupTriggers (ext a) user k)
      (\<lambda>_ w. cat SV U w) (\<lambda>e w. is_wrapped e \<and> cat SV U w)"
  unfolding HandleAddTrigger_def HandleRemoveTrigger_def HandleGetKeygroupTriggers_def
    addTrigger_def removeTrigger_def getTrigger_def exthandler.simps triggerService.simps
  subgoal
    by (rule authorised_c [OF assms], rule triple_or_error [OF addTrig_c [OF assms(1)]]) (auto simp: wp_simps)
  subgoal
    by (rule authorised_c [OF assms], rule triple_or_error [OF delTrig_c [OF assms(1)]]) (auto simp: wp_simps)
  subgoal
    by (rule authorised_c [OF assms], rule triple_conseq [OF getTrig_c [OF assms(1)]]) auto
  done

text \<open>Asking about nodes and members.\<close>

lemma replica_loop_c:
  assumes "a \<in> nodes" "\<forall>i \<in> fst ` set ids. ok_name i"
  shows "triple (cat SV U) (replica_loop (repl a) ids ns xs) (\<lambda>_ w. cat SV U w) (\<lambda>e w. is_wrapped e \<and> cat SV U w)"
  using assms(2)
proof (induction ids arbitrary: ns xs)
  case (Cons p ids)
  obtain i x where p: "p = (i, x)" by force
  with Cons.prems have i: "ok_name i" "\<forall>i \<in> fst ` set ids. ok_name i" by auto
  show ?case
    unfolding p replica_loop.simps replicationService.simps
    by (rule triple_seq [OF address_c [OF assms(1) i(1)]]) (auto intro: wp_call [OF Cons.IH [OF i(2)]])
qed (simp add: triple_def wp_ret)

lemma HandleNodes_c:
  assumes "a \<in> nodes"
  shows "ok_name (nID n) \<Longrightarrow> triple (cat SV U) (HandleGetReplica (ext a) user n)
      (\<lambda>r w. cat SV U w \<and> nv_addr U (nID n) = Some (nHost r)) (\<lambda>e w. is_wrapped e \<and> cat SV U w)"
    and "triple (cat SV U) (HandleGetAllReplica (ext a) user)
      (\<lambda>ns w. cat SV U w \<and> set ns = {\<lparr>nID = node, nHost = host\<rparr> | node host. nv_ext U node = Some host})
      (\<lambda>_ _. False)"
  unfolding HandleGetReplica_def HandleGetAllReplica_def getNode_def getNodesExternalAdress_def
    exthandler.simps replicationService.simps
  by (rule triple_seq [OF address_c [OF assms]], auto simp: wp_ret)
     (rule triple_conseq [OF external_c [OF assms]], auto)

lemma HandleGetKeygroupReplica_c:
  assumes a: "a \<in> nodes" and names: "ok_name user" "ok_name (Name k)"
    and ok: "''GetReplica'' \<in> nv_perm U user (Name k) \<Longrightarrow> Name k \<in> nv_kgs U"
  shows "triple (cat SV U) (HandleGetKeygroupReplica (ext a) user k)
    (\<lambda>_ w. cat SV U w) (\<lambda>e w. is_wrapped e \<and> cat SV U w)"
proof -
  have loop: "wp (andthen (replica_loop (repl a) (fst r) [] []) (\<lambda>res. case snd r of None \<Rightarrow> ret res | Some e \<Rightarrow> fail e))
      (\<lambda>_ w. cat SV U w) (\<lambda>e w. is_wrapped e \<and> cat SV U w) w"
    if "cat SV U w" "\<forall>i \<in> fst ` set (fst r). ok_name i" "snd r = None" for w r
    unfolding wp_andthen that(3)
    by (rule wp_call [OF replica_loop_c [OF a that(2)] that(1)]) (auto simp: wp_ret)
  have get: "triple (cat SV U) (getReplica (repl a) k) (\<lambda>_ w. cat SV U w) (\<lambda>e w. is_wrapped e \<and> cat SV U w)"
    if "Name k \<in> nv_kgs U"
    unfolding getReplica_def replicationService.simps
    by (rule triple_attempt [OF kgExists_c [OF a names(2)]])
       (use that loop in \<open>auto simp: wp_andthen case_prod_unfold split: option.splits
          intro!: wp_call [OF members_c [OF a names(2)]]\<close>)
  show ?thesis
    unfolding HandleGetKeygroupReplica_def exthandler.simps
    by (rule authorised_c [OF a names]) (use get ok in auto)
qed

lemma crash_c:
  assumes a: "a \<in> nodes" and names: "ok_name u" "named r" and r: "crashes U u r" and w: "cat SV U w"
    and run: "handle (ext a) u r w = (res, w')"
  shows "res = Panic \<and> cat SV U w'"
proof -
  from r obtain k where k: "r = GetKeygroupReplica k" "''GetReplica'' \<in> nv_perm U u (Name k)" "Name k \<notin> nv_kgs U"
    by (auto simp: crashes_def)
  have n: "ok_name (Name k)" using names(2) k(1) by simp
  obtain b w1 where 1: "isAllowed (auth a) u ''GetReplica'' (Name k) w = (b, w1)" by force
  note p = triple_run [OF isAllowed_c [OF a names(1) n] w 1]
  have b: "b = Ok True \<and> cat SV U w1" using p k(2) by (cases b) auto
  obtain e w2 where 2: "ns_ExistsKeygroup (c_NaSe (node a)) (Name k) w1 = (e, w2)" by force
  note q = triple_run [OF kgExists_c [OF a n] conjunct2 [OF b] 2]
  have e: "e = Ok False \<and> cat SV U w2" using q k(3) by (cases e) auto
  have "getReplica (repl a) k w1 = (Panic, w2)" using 2 e by (simp add: getReplica_def attempt_def panic_run)
  then have "HandleGetKeygroupReplica (ext a) u k w = (Panic, w2)"
    using 1 b by (simp add: HandleGetKeygroupReplica_def authorised_def attempt_def)
  with run e show ?thesis by (simp add: k(1))
qed

abbreviation does :: "NodeID \<Rightarrow> string \<Rightarrow> request \<Rightarrow> nview \<Rightarrow> 'w \<Rightarrow> bool" where
  "does a u r U w \<equiv> inv w \<and> may_change nodes a u r U (nv w)"

lemma cat_view: "cat SV U w \<Longrightarrow> inv w \<and> nv w = U"
  by (auto simp: sat_def)

lemma does_nothing: "cat SV U w \<Longrightarrow> does a u r U w"
  by (cases r) (auto simp: sat_def)

lemma forget_c:
  assumes "triple P m (\<lambda>_. R) (\<lambda>_. R)"
  shows "triple P (forget m) (\<lambda>_. R) (\<lambda>_. R)"
  by (rule triple_seq [OF assms]) (auto simp: wp_ret)

lemma spread_does:
  "relayed eff reach (kg, i) M SV U SV' U' \<Longrightarrow> cat SV'' U' w \<Longrightarrow> inv w \<and> fails_only kg U (nv w)"
  using relayed_fails cat_view by metis

lemma handle_items_c:
  assumes a: "a \<in> nodes" and u: "ok_name u" and pl: "\<And>kg. placed nodes host U kg"
  shows "ok_name (iKeygroup it) \<Longrightarrow> ok_name (iID it) \<Longrightarrow> triple (cat SV U) (HandleUpdate (ext a) u it)
      (\<lambda>_. does a u (UpdateItem it) U) (\<lambda>_. does a u (UpdateItem it) U)"
    and "ok_name (iKeygroup it) \<Longrightarrow> ok_name (iID it) \<Longrightarrow> triple (cat SV U) (HandleDelete (ext a) u it)
      (\<lambda>_. does a u (DeleteItem it) U) (\<lambda>_. does a u (DeleteItem it) U)"
    and "ok_name (iKeygroup it) \<Longrightarrow> triple (cat SV U) (HandleAppend (ext a) u it)
      (\<lambda>_. does a u (AppendItem it) U) (\<lambda>_. does a u (AppendItem it) U)"
  subgoal
    by (rule triple_conseq [OF HandleUpdate_c [OF a u _ _ pl]]; (elim conjE exE disjE)?)
       (assumption | erule does_nothing | (drule (1) spread_does, simp; fail))+
  subgoal
    by (rule triple_conseq [OF HandleDelete_c [OF a u _ _ pl]]; (elim conjE exE disjE)?)
       (assumption | erule does_nothing | (drule (1) spread_does, simp; fail) |
        (drule cat_view, simp add: fails_only_refl))+
  subgoal
    by (rule triple_conseq [OF HandleAppend_c [OF a u _ pl]]; (elim conjE exE disjE)?)
       (assumption | erule does_nothing | (drule (1) spread_does, simp; fail) |
        (drule cat_view, simp add: fails_only_refl))+
  done

lemma handle_keygroups_c:
  assumes a: "a \<in> nodes" and hs: hs and u: "ok_name u" and k: "ok_name (Name k)"
    and reg: "registered nodes host U" and pl: "\<And>kg. placed nodes host U kg"
  shows "int64 (Expiry k) \<Longrightarrow> triple (cat SV U) (HandleCreateKeygroup (ext a) u k)
      (\<lambda>_. does a u (CreateKeygroup k) U) (\<lambda>_. does a u (CreateKeygroup k) U)"
    and "triple (cat SV U) (HandleDeleteKeygroup (ext a) u k)
      (\<lambda>_. does a u (DeleteKeygroup k) U) (\<lambda>_. does a u (DeleteKeygroup k) U)"
    and "ok_name (nID n) \<Longrightarrow> triple (cat SV U) (HandleRemoveReplica (ext a) u k n)
      (\<lambda>_. does a u (RemoveReplica k n) U) (\<lambda>_. does a u (RemoveReplica k n) U)"
  subgoal
    by (rule triple_conseq [OF HandleCreateKeygroup_c [OF a u k]]; (elim conjE exE disjE)?)
       (assumption | (drule cat_view, simp add: Let_def; blast))+
  subgoal
    by (rule triple_conseq [OF HandleDeleteKeygroup_c [OF a hs u k pl]]; (elim conjE exE disjE)?)
       (assumption | (drule cat_view, simp; fail))+
  subgoal
    by (rule triple_conseq [OF HandleRemoveReplica_c [OF a hs u k _ pl]]; (elim conjE exE disjE)?)
       (assumption | (drule cat_view, simp; fail))+
  done

lemma handle_users_c:
  assumes a: "a \<in> nodes" and u: "ok_name u" "ok_name u'" and k: "ok_name (Name k)"
  shows "triple (cat SV U) (HandleAddUser (ext a) u u' k r)
      (\<lambda>_. does a u (AddUser u' k r) U) (\<lambda>_. does a u (AddUser u' k r) U)"
    and "triple (cat SV U) (HandleRemoveUser (ext a) u u' k r)
      (\<lambda>_. does a u (RemoveUser u' k r) U) (\<lambda>_. does a u (RemoveUser u' k r) U)"
proof -
  have ms: "set (role_methods (c_range (node a)) [r]) = set (permissions r)"
    using set_role_methods [OF range [OF a], of "[r]"] by simp
  show "triple (cat SV U) (HandleAddUser (ext a) u u' k r)
      (\<lambda>_. does a u (AddUser u' k r) U) (\<lambda>_. does a u (AddUser u' k r) U)"
    by (rule triple_conseq [OF HandleAddUser_c [OF a u k]]; (elim conjE)?)
       (assumption | (drule cat_view, use ms in \<open>simp; blast\<close>))+
  show "triple (cat SV U) (HandleRemoveUser (ext a) u u' k r)
      (\<lambda>_. does a u (RemoveUser u' k r) U) (\<lambda>_. does a u (RemoveUser u' k r) U)"
    by (rule triple_conseq [OF HandleRemoveUser_c [OF a u k]]; (elim conjE)?)
       (assumption | (drule cat_view, simp; blast))+
qed

lemma handle_AddReplica_c:
  assumes a: "a \<in> nodes" and u: "ok_name u" and k: "ok_name (Name k)" "ok_name (nID n)" "int64 (Expiry k)"
    and reg: "registered nodes host U" and pl: "\<And>kg. placed nodes host U kg"
    and items: "\<forall>b \<in> nodes. \<forall>j. sv_items (SV b) (Name k) j \<noteq> None \<longrightarrow> reg_MatchString j"
  shows "triple (cat SV U) (HandleAddReplica (ext a) u k n)
      (\<lambda>_. does a u (AddReplica k n) U) (\<lambda>_. does a u (AddReplica k n) U)"
proof -
  let ?U1 = "join_nv (Name k) (nID n) (Expiry k) U"
  have joined: "does a u (AddReplica k n) U w"
    if "''AddReplica'' \<in> nv_perm U u (Name k)" "nID n \<in> nodes" "nv_addr U (nID n) \<noteq> None"
      "cat SV' U' w" "fails_only (Name k) ?U1 U'" for SV' U' w
    using that cat_view [OF that(4)] by simp
  have fail: "nv_fail ?U1 = nv_fail U" by (simp add: join_nv_def)
  show ?thesis
    by (rule triple_conseq [OF HandleAddReplica_c [OF a u k reg pl, of SV, OF items]]; (elim conjE exE disjE)?)
       (assumption | erule does_nothing | (erule (3) joined, rule fails_only_refl) |
        (erule (3) joined, rule missed_fails, unfold fail, erule filled_fails))+
qed

lemma handle_c:
  assumes a: "a \<in> nodes" and hs: hs and u: "ok_name u" and r: "named r" and safe: "\<not> crashes U u r"
    and reg: "registered nodes host U" and pl: "\<And>kg. placed nodes host U kg"
    and items: "\<And>b kg j. b \<in> nodes \<Longrightarrow> sv_items (SV b) kg j \<noteq> None \<Longrightarrow> reg_MatchString j"
  shows "triple (cat SV U) (handle (ext a) u r) (\<lambda>_. does a u r U) (\<lambda>_. does a u r U)"
proof (cases r)
  case (ReadItem it)
  with r show ?thesis
    by (auto intro!: forget_c triple_conseq [OF HandleRead_c [OF a u]] dest: cat_view)
next
  case (ScanItems it n)
  with r show ?thesis
    by (auto intro!: forget_c triple_conseq [OF HandleScan_c [OF a u]] dest: cat_view)
next
  case (AppendItem it)
  with r show ?thesis using forget_c [OF handle_items_c(3) [OF a u pl]] by simp
next
  case (GetKeygroupReplica k)
  with safe have "''GetReplica'' \<in> nv_perm U u (Name k) \<Longrightarrow> Name k \<in> nv_kgs U" by (auto simp: crashes_def)
  with GetKeygroupReplica r show ?thesis
    by (auto intro!: forget_c triple_conseq [OF HandleGetKeygroupReplica_c [OF a u]] dest: cat_view)
next
  case (GetReplica n)
  with r show ?thesis
    by (auto intro!: forget_c triple_conseq [OF HandleNodes_c(1) [OF a]] dest: cat_view)
next
  case GetAllReplica
  then show ?thesis
    by (auto intro!: forget_c triple_conseq [OF HandleNodes_c(2) [OF a]] dest: cat_view)
next
  case (AddTrigger k t)
  with r show ?thesis
    by (auto intro!: triple_conseq [OF HandleTriggers_c(1) [OF a u]] dest: cat_view)
next
  case (RemoveTrigger k t)
  with r show ?thesis
    by (auto intro!: triple_conseq [OF HandleTriggers_c(2) [OF a u]] dest: cat_view)
next
  case (GetTriggers k)
  with r show ?thesis
    by (auto intro!: forget_c triple_conseq [OF HandleTriggers_c(3) [OF a u]] dest: cat_view)
next
  case (AddReplica k n)
  have "\<forall>b \<in> nodes. \<forall>j. sv_items (SV b) (Name k) j \<noteq> None \<longrightarrow> reg_MatchString j" using items by blast
  from handle_AddReplica_c [OF a u _ _ _ reg pl this] r show ?thesis by (simp add: AddReplica)
qed (use r a u hs reg pl in \<open>simp_all only: handle.simps named.simps handle_items_c handle_keygroups_c handle_users_c simp_thms\<close>)

end

section \<open>The invariant\<close>

text \<open>
  Every address is the one of a node, every member of a keygroup has registered, a known keygroup
  and a keygroup with permissions have a member, and missed updates belong to keygroups with a
  proper name.
\<close>

definition nase_wf :: "NodeID set \<Rightarrow> (NodeID \<Rightarrow> string) \<Rightarrow> nview \<Rightarrow> bool" where
  "nase_wf nodes host U \<longleftrightarrow> registered nodes host U \<and> (\<forall>kg. placed nodes host U kg) \<and>
     (\<forall>kg \<in> nv_kgs U. nv_mem U kg \<noteq> {}) \<and> (\<forall>u kg. nv_perm U u kg \<noteq> {} \<longrightarrow> nv_mem U kg \<noteq> {}) \<and>
     (\<forall>m. \<forall>(kg, i) \<in> nv_fail U m. ok_name kg)"

lemma revokes_other:
  "nv_kgs (revokes u kg ms U) = nv_kgs U" "nv_mem (revokes u kg ms U) = nv_mem U"
  "nv_addr (revokes u kg ms U) = nv_addr U" "nv_fail (revokes u kg ms U) = nv_fail U"
  by (induction ms arbitrary: U) (auto simp: revokes_def revoke_nv_def)

lemma nase_wfI:
  assumes "\<And>m h. nv_addr U m = Some h \<Longrightarrow> m \<in> nodes \<and> h = host m"
    and "\<And>kg m. m \<in> nv_mem U kg \<Longrightarrow> m \<in> nodes \<and> nv_addr U m = Some (host m)"
    and "\<And>kg. kg \<in> nv_kgs U \<Longrightarrow> \<exists>m. m \<in> nv_mem U kg"
    and "\<And>u kg mt. mt \<in> nv_perm U u kg \<Longrightarrow> \<exists>m. m \<in> nv_mem U kg"
    and "\<And>m kg i. (kg, i) \<in> nv_fail U m \<Longrightarrow> ok_name kg"
  shows "nase_wf nodes host U"
  using assms unfolding nase_wf_def registered_def placed_def by blast

lemma nase_wfD:
  assumes "nase_wf nodes host U"
  shows "nv_addr U m = Some h \<Longrightarrow> m \<in> nodes \<and> h = host m"
    and "m \<in> nv_mem U kg \<Longrightarrow> m \<in> nodes \<and> nv_addr U m = Some (host m)"
    and "kg \<in> nv_kgs U \<Longrightarrow> \<exists>m. m \<in> nv_mem U kg"
    and "mt \<in> nv_perm U u kg \<Longrightarrow> \<exists>m. m \<in> nv_mem U kg"
    and "(kg, i) \<in> nv_fail U m \<Longrightarrow> ok_name kg"
  using assms unfolding nase_wf_def registered_def placed_def by blast+

lemma nase_wf_fields:
  assumes "nase_wf nodes host U" "nv_addr U' = nv_addr U" "nv_mem U' = nv_mem U" "nv_kgs U' \<subseteq> nv_kgs U"
    and "\<And>u kg mt. mt \<in> nv_perm U' u kg \<Longrightarrow> \<exists>m. m \<in> nv_mem U kg"
    and "\<And>m kg i. (kg, i) \<in> nv_fail U' m \<Longrightarrow> ok_name kg"
  shows "nase_wf nodes host U'"
  by (rule nase_wfI; (simp only: assms(2,3))?)
     (use assms(4-6) nase_wfD [OF assms(1)] in blast)+

lemma nase_wf_fails: "nase_wf nodes host U \<Longrightarrow> ok_name kg \<Longrightarrow> fails_only kg U U' \<Longrightarrow> nase_wf nodes host U'"
  unfolding fails_only_def
proof (elim exE conjE)
  fix F
  assume U: "nase_wf nodes host U" "ok_name kg" "U' = U\<lparr>nv_fail := F\<rparr>" "\<forall>m. F m \<subseteq> nv_fail U m \<union> {kg} \<times> UNIV"
  show "nase_wf nodes host U'"
  proof (rule nase_wf_fields [OF U(1)])
    show "mt \<in> nv_perm U' u kg \<Longrightarrow> \<exists>m. m \<in> nv_mem U kg" for u kg mt
      using nase_wfD(4) [OF U(1)] by (simp add: U(3))
    show "(kg', i) \<in> nv_fail U' m \<Longrightarrow> ok_name kg'" for m kg' i
      using U(2,4) nase_wfD(5) [OF U(1)] by (fastforce simp: U(3))
  qed (simp_all add: U(3))
qed

lemma nase_wf_create:
  assumes "nase_wf nodes host U" "a \<in> nodes" "nv_addr U a = Some (host a)"
  shows "nase_wf nodes host (grants u kg ms (create_nv a kg mut x U))"
  using assms(2,3)
  by (intro nase_wfI) (auto dest: nase_wfD [OF assms(1)] simp: create_nv_def grants_other grants_perm split: if_splits)

lemma nase_wf_join:
  assumes "nase_wf nodes host U" "m \<in> nodes" "nv_addr U m \<noteq> None"
  shows "nase_wf nodes host (join_nv kg m x U)"
  using assms(2,3)
  by (intro nase_wfI) (auto dest: nase_wfD [OF assms(1)] simp: join_nv_def split: if_splits)

lemma nase_wf_exit:
  assumes "nase_wf nodes host U" "nv_mem U kg - {m} \<noteq> {}"
  shows "nase_wf nodes host (exit_nv kg m U)"
  using assms(2)
  by (intro nase_wfI) (auto dest: nase_wfD [OF assms(1)] simp: exit_nv_def split: if_splits)

lemma nase_wf_start:
  assumes "nase_wf nodes host U" "a \<in> nodes" "host a \<noteq> []"
  shows "nase_wf nodes host (collect_nv a (register_nv a (host a) x U))"
  using assms(2,3)
  by (intro nase_wfI) (auto dest: nase_wfD [OF assms(1)] simp: collect_nv_def register_nv_def split: if_splits)

lemma nase_wf_users:
  assumes "nase_wf nodes host U"
  shows "mt \<in> nv_perm U u kg \<Longrightarrow> nase_wf nodes host (grants u' kg ms U)"
    and "nase_wf nodes host (revokes u' kg ms U)"
    and "nase_wf nodes host (delete_nv kg U)"
  by (rule nase_wf_fields [OF assms];
      auto dest: nase_wfD(4,5) [OF assms] simp: grants_other grants_perm revokes_other revokes_perm delete_nv_def
        split: if_splits)+

lemma may_change_wf:
  assumes "may_change nodes a u r U U'" "nase_wf nodes host U" "named r" "a \<in> nodes" "nv_addr U a = Some (host a)"
  shows "nase_wf nodes host U'"
proof (cases r)
  case (CreateKeygroup k)
  note new = nase_wf_create [OF assms(2,4,5)]
  have "nase_wf nodes host (create_nv a kg mut x U)" for kg mut x using new [of _ _ "[]"] by (simp add: grants_def)
  with CreateKeygroup assms(1,2) new show ?thesis by (auto simp: Let_def)
next
  case (DeleteKeygroup k)
  with assms show ?thesis by (auto intro: nase_wf_users)
next
  case (AddReplica k n)
  then have "U' = U \<or> nID n \<in> nodes \<and> nv_addr U (nID n) \<noteq> None \<and>
    fails_only (Name k) (join_nv (Name k) (nID n) (Expiry k) U) U'" "ok_name (Name k)" using assms by auto
  then show ?thesis using nase_wf_fails [OF nase_wf_join [OF assms(2)]] assms(2) by blast
next
  case (RemoveReplica k n)
  with assms show ?thesis by (auto intro: nase_wf_exit)
next
  case (AddUser u' k ro)
  with assms show ?thesis by (auto intro: nase_wf_users)
next
  case (RemoveUser u' k ro)
  with assms show ?thesis by (auto intro: nase_wf_users)
qed (use assms in \<open>auto intro: nase_wf_fails\<close>)

text \<open>A new permission: the user created the keygroup, or was added to it by someone who may.\<close>

lemma fails_only_perm: "fails_only kg U U' \<Longrightarrow> nv_perm U' = nv_perm U"
  by (auto simp: fails_only_def)

lemma nv_perm_simps:
  "nv_perm (create_nv a kg mut x U) = nv_perm U" "nv_perm (delete_nv kg U) = nv_perm U"
  "nv_perm (join_nv kg m x U) = nv_perm U" "nv_perm (exit_nv kg m U) = nv_perm U"
  by (simp_all add: create_nv_def delete_nv_def join_nv_def exit_nv_def)

lemma may_change_perm:
  assumes "may_change nodes a u r U U'" "mt \<in> nv_perm U' u' kg" "mt \<notin> nv_perm U u' kg"
  shows "(\<exists>k. r = CreateKeygroup k \<and> Name k = kg \<and> u' = u \<and> kg \<notin> nv_kgs U) \<or>
    (\<exists>k ro. r = AddUser u' k ro \<and> Name k = kg \<and> mt \<in> set (permissions ro) \<and> ''AddUser'' \<in> nv_perm U u kg)"
proof (cases r)
  case (CreateKeygroup k)
  with assms show ?thesis by (auto simp: Let_def grants_perm nv_perm_simps split: if_splits)
next
  case (AddUser u1 k ro)
  then obtain ms where ms: "''AddUser'' \<in> nv_perm U u (Name k)" "set ms = set (permissions ro)"
    "U' = grants u1 (Name k) ms U" using assms by auto
  then have "u' = u1 \<and> kg = Name k \<and> mt \<in> set (permissions ro)"
    using assms(2,3) unfolding ms(3) grants_perm ms(2) by (metis UnE)
  with AddUser ms(1) show ?thesis by blast
next
  case (RemoveUser u1 k ro)
  then obtain ms where "U' = revokes u1 (Name k) ms U" using assms by auto
  with assms(2,3) show ?thesis by (metis DiffD1 revokes_perm)
qed (use assms in \<open>auto dest!: fails_only_perm simp: nv_perm_simps\<close>)

section \<open>Reachable worlds\<close>

inductive step ::
  "NodeID set \<Rightarrow> (NodeID \<Rightarrow> 'w Config) \<Rightarrow> (NodeID \<Rightarrow> string) \<Rightarrow> ('w \<Rightarrow> nview) \<Rightarrow> 'w \<Rightarrow> 'w \<Rightarrow> bool"
  for nodes node host nv where
  request: "a \<in> nodes \<Longrightarrow> nv_addr (nv w) a = Some (host a) \<Longrightarrow> ok_name u \<Longrightarrow> named r \<Longrightarrow>
    handle (front node a) u r w = (res, w') \<Longrightarrow> step nodes node host nv w w'"
| start: "a \<in> nodes \<Longrightarrow> New (node a) w = (res, w') \<Longrightarrow> step nodes node host nv w w'"

inductive reachable ::
  "NodeID set \<Rightarrow> (NodeID \<Rightarrow> 'w Config) \<Rightarrow> (NodeID \<Rightarrow> string) \<Rightarrow> ('w \<Rightarrow> nview) \<Rightarrow> 'w \<Rightarrow> 'w \<Rightarrow> bool"
  for nodes node host nv w0 where
  here: "reachable nodes node host nv w0 w0"
| next_world: "reachable nodes node host nv w0 w \<Longrightarrow> step nodes node host nv w w' \<Longrightarrow> reachable nodes node host nv w0 w'"

text \<open>The address under which a node registers.\<close>

definition peer_address :: "'w Config \<Rightarrow> string" where
  "peer_address c = (if c_PeeringHostProxy c \<noteq> [] \<and> c_PeeringHost c \<noteq> c_PeeringHostProxy c
     then c_PeeringHostProxy c else c_PeeringHost c)"

lemma request_effect:
  assumes C: "cluster nodes node pc host hostof peer up I sv nv True"
    and w: "I w" "nase_wf nodes host (nv w)" and a: "a \<in> nodes" "ok_name u" "named r"
    and run: "handle (front node a) u r w = (res, w')"
  shows "res = Panic \<longleftrightarrow> crashes (nv w) u r" "I w'" "may_change nodes a u r (nv w) (nv w')"
proof -
  have wf: "registered nodes host (nv w)" "\<And>kg. placed nodes host (nv w) kg" using w(2) by (simp_all add: nase_wf_def)
  have items: "reg_MatchString j" if "b \<in> nodes" "sv_items (sv b w) kg j \<noteq> None" for b kg j
    by (rule cluster.item_named [OF C that(1) w(1) that(2)])
  have "(res = Panic \<longleftrightarrow> crashes (nv w) u r) \<and> I w' \<and> may_change nodes a u r (nv w) (nv w')"
  proof (cases "crashes (nv w) u r")
    case True
    with cluster.crash_c [OF C a True cview_start [of I, OF w(1)] run [unfolded front_eq Let_def]] show ?thesis
      by (auto simp: crashes_def sat_cview)
  next
    case False
    have tr: "triple (sat I (cview sv nv) (\<lambda>k. sv k w, nv w)) (handle (front node a) u r)
        (\<lambda>_ w'. I w' \<and> may_change nodes a u r (nv w) (nv w')) (\<lambda>_ w'. I w' \<and> may_change nodes a u r (nv w) (nv w'))"
      unfolding front_eq Let_def
      by (rule cluster.handle_c [OF C a(1) TrueI a(2,3) False wf]) (rule items)
    note post = triple_run [OF tr cview_start [of I, OF w(1)] run]
    then show ?thesis using False by (cases res) simp_all
  qed
  then show "res = Panic \<longleftrightarrow> crashes (nv w) u r" "I w'" "may_change nodes a u r (nv w) (nv w')" by auto
qed

lemma start_effect:
  assumes C: "cluster nodes node pc host hostof peer up I sv nv True"
    and w: "I w" "nase_wf nodes host (nv w)" and a: "a \<in> nodes" "host a \<noteq> []" "peer_address (node a) = host a"
    and run: "New (node a) w = (res, w')"
  shows "I w'" "nv w' = collect_nv a (register_nv a (host a) (external_address (node a)) (nv w))"
proof -
  have wf: "registered nodes host (nv w)" using w(2) by (simp add: nase_wf_def)
  have missed: "ok_name kg" if "(kg, i) \<in> nv_fail (nv w) a" for kg i using nase_wfD(5) [OF w(2) that] .
  have tr: "triple (sat I (cview sv nv) (\<lambda>k. sv k w, nv w)) (New (node a))
      (\<lambda>f w1. f = services (node a) \<and> (\<exists>V. sat I (cview sv nv)
        ((\<lambda>k. sv k w)(a := V), collect_nv a (register_nv a (host a) (external_address (node a)) (nv w))) w1 \<and>
        recovered nodes host up a (\<lambda>k. sv k w) (collect_nv a (register_nv a (host a) (external_address (node a)) (nv w))) (nv_fail (nv w) a) V))
      (\<lambda>_ _. False)"
    by (rule cluster.New_c [OF C a(1) TrueI wf a(2) _ a(3) [unfolded peer_address_def]]) (rule missed)
  note post = triple_run [OF tr cview_start [of I, OF w(1)] run]
  obtain f where "res = Ok f" using post(1,3) by (cases res) auto
  from post(2) [OF this] show "I w'" "nv w' = collect_nv a (register_nv a (host a) (external_address (node a)) (nv w))"
    by (auto simp: sat_cview)
qed

lemma reachable_wf:
  assumes C: "cluster nodes node pc host hostof peer up I sv nv True"
    and addr: "\<forall>a \<in> nodes. host a \<noteq> [] \<and> peer_address (node a) = host a"
    and w0: "I w0" "nase_wf nodes host (nv w0)"
    and r: "reachable nodes node host nv w0 w"
  shows "I w \<and> nase_wf nodes host (nv w)"
  using r
proof induction
  case here
  with w0 show ?case by simp
next
  case (next_world w w')
  from next_world(2) show ?case
  proof (cases rule: step.cases)
    case (request a u r res)
    with request_effect [OF C _ _ request(1,3,4,5)] next_world.IH may_change_wf show ?thesis by blast
  next
    case (start a res)
    with addr have a: "host a \<noteq> []" "peer_address (node a) = host a" by auto
    from start_effect [OF C _ _ start(1) a start(2)] next_world.IH nase_wf_start [where host = host, OF _ start(1) a(1)]
    show ?thesis by simp
  qed
qed

text \<open>C25: in every world that requests with proper names and starting nodes can bring about, while stores
  and naming service work, whatever peers and trigger nodes do and whatever is refused or stops half-way
  because of them: the stores and the naming service are well-formed, every registered address belongs
  to its node, every member of a keygroup is a registered node, every known keygroup and every keygroup
  on which somebody has a permission has at least one member, and missed updates can be collected.\<close>

theorem reachable_invariant:
  assumes "cluster nodes node pc host hostof peer up I sv nv True"
    and "\<forall>a \<in> nodes. host a \<noteq> [] \<and> peer_address (node a) = host a"
    and "I w0" "nase_wf nodes host (nv w0)" "reachable nodes node host nv w0 w"
  shows "I w \<and> registered nodes host (nv w) \<and> (\<forall>kg. placed nodes host (nv w) kg) \<and>
    (\<forall>kg \<in> nv_kgs (nv w). nv_mem (nv w) kg \<noteq> {}) \<and>
    (\<forall>u kg. nv_perm (nv w) u kg \<noteq> {} \<longrightarrow> nv_mem (nv w) kg \<noteq> {}) \<and>
    (\<forall>m. \<forall>(kg, i) \<in> nv_fail (nv w) m. ok_name kg)"
  using reachable_wf [OF assms] by (simp add: nase_wf_def)

text \<open>C26: which requests crash a node. In every world that is reachable while stores and naming service
  work, whatever peers and trigger nodes do, a request with proper names is answered with a result or
  an error, except in exactly one case: a request for the replicas of a keygroup that the naming service
  does not know, by a user who has the permission on that name (left over from a deleted keygroup),
  panics.\<close>

theorem request_panics_iff:
  assumes C: "cluster nodes node pc host hostof peer up I sv nv True"
    and addr: "\<forall>a \<in> nodes. host a \<noteq> [] \<and> peer_address (node a) = host a"
    and w0: "I w0" "nase_wf nodes host (nv w0)" and w: "reachable nodes node host nv w0 w"
    and a: "a \<in> nodes" "ok_name u" "named r"
  shows "fst (handle (front node a) u r w) = Panic \<longleftrightarrow>
    (\<exists>k. r = GetKeygroupReplica k \<and> ''GetReplica'' \<in> nv_perm (nv w) u (Name k) \<and> Name k \<notin> nv_kgs (nv w))"
proof -
  have "I w" "nase_wf nodes host (nv w)" using reachable_wf [OF C addr w0 w] by auto
  from request_effect(1) [OF C this a surjective_pairing] show ?thesis unfolding crashes_def .
qed

text \<open>C27: where permissions come from, as long as no name contains the separator of the keys (neither
  the verified user nor the names in the request). If a request in a reachable world gives some user a
  permission on some keygroup, then it created that keygroup, unknown until then, for that user, or it
  was a request to add that user with a role that contains the method, by someone with the permission
  to add users to that keygroup.\<close>

theorem permission_origin:
  assumes C: "cluster nodes node pc host hostof peer up I sv nv True"
    and addr: "\<forall>a \<in> nodes. host a \<noteq> [] \<and> peer_address (node a) = host a"
    and w0: "I w0" "nase_wf nodes host (nv w0)" and w: "reachable nodes node host nv w0 w"
    and a: "a \<in> nodes" "ok_name u" "named r" and run: "handle (front node a) u r w = (res, w')"
    and new: "mt \<in> nv_perm (nv w') v kg" "mt \<notin> nv_perm (nv w) v kg"
  shows "(\<exists>k. r = CreateKeygroup k \<and> Name k = kg \<and> v = u \<and> kg \<notin> nv_kgs (nv w)) \<or>
    (\<exists>k ro. r = AddUser v k ro \<and> Name k = kg \<and> mt \<in> set (permissions ro) \<and> ''AddUser'' \<in> nv_perm (nv w) u kg)"
proof -
  have "I w" "nase_wf nodes host (nv w)" using reachable_wf [OF C addr w0 w] by auto
  from may_change_perm [OF request_effect(3) [OF C this a run] new] show ?thesis .
qed

end
