(* ===== verification/Proxy.thy ===== *)
theory Proxy
  imports Api_Server Peering
begin

text \<open>
  pkg/proxy: a proxy in front of several machines that act as one FReD node. Requests about a
  keygroup always go to the machine that the hash of its name selects (proxy.go), over connections
  that are dialled once and kept. The client side (api.go) checks the certificate of the client and
  passes its name on as the \<^verbatim>\<open>user\<close> header; the peering side (peering.go) forwards the messages
  of other nodes.

  The hash, the random numbers and the gRPC stubs are parameters. A call on a connection is
  \<open>a_invoke\<close> with the message of the method.
\<close>

section \<open>Choosing a machine (proxy.go)\<close>

record Proxy =
  p_hosts :: "string list"

definition NewProxy :: "string list \<Rightarrow> Proxy" where
  "NewProxy hosts = \<lparr>p_hosts = hosts\<rparr>"

text \<open>The remainder modulo the number of hosts; with no hosts that is a division by zero.\<close>

definition getHost :: "(string \<Rightarrow> 64 word) \<Rightarrow> Proxy \<Rightarrow> string \<Rightarrow> string result" where
  "getHost hash p keygroup =
     (if p_hosts p = [] then Panic
      else Ok (p_hosts p ! unat (hash keygroup mod of_nat (length (p_hosts p)))))"

definition getAny :: "(nat \<Rightarrow> ('w, nat) op) \<Rightarrow> Proxy \<Rightarrow> ('w, string) op" where
  "getAny intn p = andthen (intn (length (p_hosts p)))
     (\<lambda>i. if i < length (p_hosts p) then ret (p_hosts p ! i) else panic)"

text \<open>The map of connections, in the world, and the connection to a host, dialled when it is missing.\<close>

record 'w conn_cache =
  cc_conn :: "'w \<Rightarrow> (string \<times> nat) list"
  cc_set_conn :: "(string \<times> nat) list \<Rightarrow> 'w \<Rightarrow> 'w"
  cc_Dial :: "string \<Rightarrow> ('w, nat) op"

definition conn_to :: "'w conn_cache \<Rightarrow> int \<Rightarrow> string \<Rightarrow> ('w, nat) op" where
  "conn_to cc port host =
     andthen (gets (cc_conn cc)) (\<lambda>conns.
       case map_of conns host of
         Some c \<Rightarrow> ret c
       | None \<Rightarrow>
           andthen (cc_Dial cc (host @ CHR '':'' # Itoa port)) (\<lambda>c.
           andthen (modify (\<lambda>w. cc_set_conn cc (map_put host c (cc_conn cc w)) w)) (\<lambda>_.
           ret c)))"

section \<open>Requests of clients (api.go)\<close>

record ('w, 'c, 'md) APIProxy =
  a_p :: Proxy
  a_port :: int
  a_conn :: "'w conn_cache"
  a_roots :: pool
  a_hash :: "string \<Rightarrow> 64 word"
  a_intn :: "nat \<Rightarrow> ('w, nat) op"
  a_grpc :: "('c, 'md) grpc_ctx"
  a_invoke :: "nat \<Rightarrow> 'c \<Rightarrow> client_request \<Rightarrow> ('w, client_response) op"

definition ap_getConn :: "('w, 'c, 'md) APIProxy \<Rightarrow> string \<Rightarrow> ('w, nat) op" where
  "ap_getConn a keygroup =
     andthen (of_result (getHost (a_hash a) (a_p a) keygroup)) (conn_to (a_conn a) (a_port a))"

definition ap_getAny :: "('w, 'c, 'md) APIProxy \<Rightarrow> ('w, nat) op" where
  "ap_getAny a = andthen (getAny (a_intn a) (a_p a)) (conn_to (a_conn a) (a_port a))"

definition addUserHeader :: "('w, 'c, 'md) APIProxy \<Rightarrow> 'c \<Rightarrow> 'c result" where
  "addUserHeader a ctx =
     (case peer_cert Raw (a_grpc a) ctx of Err e \<Rightarrow> Err e | Panic \<Rightarrow> Panic | Ok (p, crt) \<Rightarrow>
       (case SplitHostPort (p_Addr p) of Err e \<Rightarrow> Err e | Panic \<Rightarrow> Panic | Ok (host, _) \<Rightarrow>
         (case a_roots a crt host of
            Some e \<Rightarrow> Err e
          | None \<Rightarrow>
              if CommonName crt = [] then Err (Raw ''invalid subject common name'')
              else
                (case FromIncomingContext (a_grpc a) ctx of
                   None \<Rightarrow> Err (Raw ''no metadata could be found for proxied request'')
                 | Some md \<Rightarrow>
                     Ok (NewOutgoingContext (a_grpc a) ctx
                       (md_Set (a_grpc a) (md_Copy (a_grpc a) md) ''user'' (CommonName crt)))))))"

text \<open>Every method: the connection, then the user header, then the same method on the machine.\<close>

definition forward ::
  "('w, 'c, 'md) APIProxy \<Rightarrow> ('w, nat) op \<Rightarrow> 'c \<Rightarrow> client_request \<Rightarrow> ('w, client_response) op" where
  "forward a conn ctx req =
     andthen conn (\<lambda>c. andthen (of_result (addUserHeader a ctx)) (\<lambda>ctx'. a_invoke a c ctx' req))"

definition ap_CreateKeygroup ::
  "('w, 'c, 'md) APIProxy \<Rightarrow> 'c \<Rightarrow> string \<Rightarrow> bool \<Rightarrow> int \<Rightarrow> ('w, client_response) op" where
  "ap_CreateKeygroup a ctx kg mut x = forward a (ap_getConn a kg) ctx (CreateKeygroupRequest kg mut x)"

definition ap_DeleteKeygroup :: "('w, 'c, 'md) APIProxy \<Rightarrow> 'c \<Rightarrow> string \<Rightarrow> ('w, client_response) op" where
  "ap_DeleteKeygroup a ctx kg = forward a (ap_getConn a kg) ctx (DeleteKeygroupRequest kg)"

definition ap_Read :: "('w, 'c, 'md) APIProxy \<Rightarrow> 'c \<Rightarrow> string \<Rightarrow> string \<Rightarrow> ('w, client_response) op" where
  "ap_Read a ctx kg i = forward a (ap_getConn a kg) ctx (ReadRequest kg i)"

definition ap_Scan ::
  "('w, 'c, 'md) APIProxy \<Rightarrow> 'c \<Rightarrow> string \<Rightarrow> string \<Rightarrow> 64 word \<Rightarrow> ('w, client_response) op" where
  "ap_Scan a ctx kg i n = forward a (ap_getConn a kg) ctx (ScanRequest kg i n)"

definition ap_Append :: "('w, 'c, 'md) APIProxy \<Rightarrow> 'c \<Rightarrow> string \<Rightarrow> string \<Rightarrow> ('w, client_response) op" where
  "ap_Append a ctx kg d = forward a (ap_getConn a kg) ctx (AppendRequest kg d)"

definition ap_Update ::
  "('w, 'c, 'md) APIProxy \<Rightarrow> 'c \<Rightarrow> string \<Rightarrow> string \<Rightarrow> string \<Rightarrow> ('w, client_response) op" where
  "ap_Update a ctx kg i d = forward a (ap_getConn a kg) ctx (UpdateRequest kg i d)"

definition ap_Delete :: "('w, 'c, 'md) APIProxy \<Rightarrow> 'c \<Rightarrow> string \<Rightarrow> string \<Rightarrow> ('w, client_response) op" where
  "ap_Delete a ctx kg i = forward a (ap_getConn a kg) ctx (DeleteRequest kg i)"

definition ap_AddReplica ::
  "('w, 'c, 'md) APIProxy \<Rightarrow> 'c \<Rightarrow> string \<Rightarrow> string \<Rightarrow> int \<Rightarrow> ('w, client_response) op" where
  "ap_AddReplica a ctx kg n x = forward a (ap_getConn a kg) ctx (AddReplicaRequest kg n x)"

definition ap_GetKeygroupReplica :: "('w, 'c, 'md) APIProxy \<Rightarrow> 'c \<Rightarrow> string \<Rightarrow> ('w, client_response) op" where
  "ap_GetKeygroupReplica a ctx kg = forward a (ap_getConn a kg) ctx (GetKeygroupReplicaRequest kg)"

definition ap_RemoveReplica ::
  "('w, 'c, 'md) APIProxy \<Rightarrow> 'c \<Rightarrow> string \<Rightarrow> string \<Rightarrow> ('w, client_response) op" where
  "ap_RemoveReplica a ctx kg n = forward a (ap_getConn a kg) ctx (RemoveReplicaRequest kg n)"

definition ap_GetReplica :: "('w, 'c, 'md) APIProxy \<Rightarrow> 'c \<Rightarrow> string \<Rightarrow> ('w, client_response) op" where
  "ap_GetReplica a ctx n = forward a (ap_getAny a) ctx (GetReplicaRequest n)"

definition ap_GetAllReplica :: "('w, 'c, 'md) APIProxy \<Rightarrow> 'c \<Rightarrow> ('w, client_response) op" where
  "ap_GetAllReplica a ctx = forward a (ap_getAny a) ctx GetAllReplicaRequest"

definition ap_GetKeygroupTriggers :: "('w, 'c, 'md) APIProxy \<Rightarrow> 'c \<Rightarrow> string \<Rightarrow> ('w, client_response) op" where
  "ap_GetKeygroupTriggers a ctx kg = forward a (ap_getConn a kg) ctx (GetKeygroupTriggerRequest kg)"

definition ap_AddTrigger ::
  "('w, 'c, 'md) APIProxy \<Rightarrow> 'c \<Rightarrow> string \<Rightarrow> string \<Rightarrow> string \<Rightarrow> ('w, client_response) op" where
  "ap_AddTrigger a ctx kg t h = forward a (ap_getConn a kg) ctx (AddTriggerRequest kg t h)"

definition ap_RemoveTrigger ::
  "('w, 'c, 'md) APIProxy \<Rightarrow> 'c \<Rightarrow> string \<Rightarrow> string \<Rightarrow> ('w, client_response) op" where
  "ap_RemoveTrigger a ctx kg t = forward a (ap_getConn a kg) ctx (RemoveTriggerRequest kg t)"

definition ap_AddUser ::
  "('w, 'c, 'md) APIProxy \<Rightarrow> 'c \<Rightarrow> string \<Rightarrow> string \<Rightarrow> int \<Rightarrow> ('w, client_response) op" where
  "ap_AddUser a ctx u kg r = forward a (ap_getConn a kg) ctx (AddUserRequest u kg r)"

definition ap_RemoveUser ::
  "('w, 'c, 'md) APIProxy \<Rightarrow> 'c \<Rightarrow> string \<Rightarrow> string \<Rightarrow> int \<Rightarrow> ('w, client_response) op" where
  "ap_RemoveUser a ctx u kg r = forward a (ap_getConn a kg) ctx (RemoveUserRequest u kg r)"

text \<open>The dispatch of a received message, as at the server.\<close>

fun proxy_serve :: "('w, 'c, 'md) APIProxy \<Rightarrow> 'c \<Rightarrow> client_request \<Rightarrow> ('w, client_response) op" where
  "proxy_serve a ctx (CreateKeygroupRequest kg mut x) = ap_CreateKeygroup a ctx kg mut x"
| "proxy_serve a ctx (DeleteKeygroupRequest kg) = ap_DeleteKeygroup a ctx kg"
| "proxy_serve a ctx (ReadRequest kg i) = ap_Read a ctx kg i"
| "proxy_serve a ctx (ScanRequest kg i n) = ap_Scan a ctx kg i n"
| "proxy_serve a ctx (AppendRequest kg d) = ap_Append a ctx kg d"
| "proxy_serve a ctx (UpdateRequest kg i d) = ap_Update a ctx kg i d"
| "proxy_serve a ctx (DeleteRequest kg i) = ap_Delete a ctx kg i"
| "proxy_serve a ctx (AddReplicaRequest kg n x) = ap_AddReplica a ctx kg n x"
| "proxy_serve a ctx (GetKeygroupReplicaRequest kg) = ap_GetKeygroupReplica a ctx kg"
| "proxy_serve a ctx (RemoveReplicaRequest kg n) = ap_RemoveReplica a ctx kg n"
| "proxy_serve a ctx (GetReplicaRequest n) = ap_GetReplica a ctx n"
| "proxy_serve a ctx GetAllReplicaRequest = ap_GetAllReplica a ctx"
| "proxy_serve a ctx (GetKeygroupTriggerRequest kg) = ap_GetKeygroupTriggers a ctx kg"
| "proxy_serve a ctx (AddTriggerRequest kg t h) = ap_AddTrigger a ctx kg t h"
| "proxy_serve a ctx (RemoveTriggerRequest kg t) = ap_RemoveTrigger a ctx kg t"
| "proxy_serve a ctx (AddUserRequest u kg r) = ap_AddUser a ctx u kg r"
| "proxy_serve a ctx (RemoveUserRequest u kg r) = ap_RemoveUser a ctx u kg r"

section \<open>Messages of nodes (peering.go)\<close>

record 'w PeeringProxy =
  pp_p :: Proxy
  pp_port :: int
  pp_conn :: "'w conn_cache"
  pp_hash :: "string \<Rightarrow> 64 word"
  pp_grpc :: "'w grpc_node"

definition pp_getConn :: "'w PeeringProxy \<Rightarrow> string \<Rightarrow> ('w, nat) op" where
  "pp_getConn p keygroup =
     andthen (of_result (getHost (pp_hash p) (pp_p p) keygroup)) (conn_to (pp_conn p) (pp_port p))"

definition pp_CreateKeygroup :: "'w PeeringProxy \<Rightarrow> string \<Rightarrow> int \<Rightarrow> ('w, unit) op" where
  "pp_CreateKeygroup p kg x = andthen (pp_getConn p kg) (\<lambda>c. g_CreateKeygroup (pp_grpc p) c kg x)"

definition pp_DeleteKeygroup :: "'w PeeringProxy \<Rightarrow> string \<Rightarrow> ('w, unit) op" where
  "pp_DeleteKeygroup p kg = andthen (pp_getConn p kg) (\<lambda>c. g_DeleteKeygroup (pp_grpc p) c kg)"

definition pp_PutItem :: "'w PeeringProxy \<Rightarrow> string \<Rightarrow> string \<Rightarrow> string \<Rightarrow> ('w, unit) op" where
  "pp_PutItem p kg i v = andthen (pp_getConn p kg) (\<lambda>c. g_PutItem (pp_grpc p) c kg i v)"

definition pp_AppendItem :: "'w PeeringProxy \<Rightarrow> string \<Rightarrow> string \<Rightarrow> string \<Rightarrow> ('w, unit) op" where
  "pp_AppendItem p kg i v = andthen (pp_getConn p kg) (\<lambda>c. g_AppendItem (pp_grpc p) c kg i v)"

definition pp_GetItem :: "'w PeeringProxy \<Rightarrow> string \<Rightarrow> string \<Rightarrow> ('w, string) op" where
  "pp_GetItem p kg i = andthen (pp_getConn p kg) (\<lambda>c. g_GetItem (pp_grpc p) c kg i)"

definition pp_DeleteItem :: "'w PeeringProxy \<Rightarrow> string \<Rightarrow> string \<Rightarrow> ('w, unit) op" where
  "pp_DeleteItem p kg i = andthen (pp_getConn p kg) (\<lambda>c. g_DeleteItem (pp_grpc p) c kg i)"

definition pp_GetAllItems :: "'w PeeringProxy \<Rightarrow> string \<Rightarrow> ('w, (string \<times> string) list) op" where
  "pp_GetAllItems p kg = andthen (pp_getConn p kg) (\<lambda>c. g_GetAllItems (pp_grpc p) c kg)"

definition pp_AddReplica :: "'w PeeringProxy \<Rightarrow> string \<Rightarrow> string \<Rightarrow> int \<Rightarrow> ('w, unit) op" where
  "pp_AddReplica p n kg x = andthen (pp_getConn p kg) (\<lambda>c. g_AddReplica (pp_grpc p) c n kg x)"

definition pp_RemoveReplica :: "'w PeeringProxy \<Rightarrow> string \<Rightarrow> string \<Rightarrow> ('w, unit) op" where
  "pp_RemoveReplica p n kg = andthen (pp_getConn p kg) (\<lambda>c. g_RemoveReplica (pp_grpc p) c n kg)"

end
