(* ===== verification/Proxy_Correct.thy ===== *)
theory Proxy_Correct
  imports Proxy
begin

text \<open>
  What the proxy does to a request, over the promises of its parts: the connection cache leads to
  the host it is asked for (\<open>proxy_conns\<close>), the machines answer what they are sent
  (\<open>api_proxy\<close>, \<open>peering_proxy\<close>). The host of a keygroup is one of the machines and always the same;
  a client's request is served there for the user its certificate names; a node's message is
  served there.
\<close>

section \<open>The machine of a keygroup\<close>

lemma getHost_nth:
  assumes "p_hosts p \<noteq> []" "length (p_hosts p) < 2 ^ 64"
  shows "getHost hash p kg = Ok (p_hosts p ! (unat (hash kg) mod length (p_hosts p)))"
  using assms by (simp add: getHost_def unat_mod unat_of_nat)

lemma getHost_in:
  assumes "p_hosts p \<noteq> []" "length (p_hosts p) < 2 ^ 64"
  shows "\<exists>host \<in> set (p_hosts p). getHost hash p kg = Ok host"
  using assms by (simp add: getHost_nth)

section \<open>Connections\<close>

locale proxy_conns =
  fixes cc :: "'w conn_cache"
    and port :: int
    and hostof :: "nat \<Rightarrow> string"
    and up :: "string \<Rightarrow> bool"
    and inv :: "'w \<Rightarrow> bool"
    and view :: "'w \<Rightarrow> 'v"
  assumes conn_ok: "inv w \<Longrightarrow> map_of (cc_conn cc w) host = Some h \<Longrightarrow> hostof h = host"
    and conn_put: "inv w \<Longrightarrow> hostof h = host \<Longrightarrow>
      inv (cc_set_conn cc (map_put host h (cc_conn cc w)) w) \<and>
      view (cc_set_conn cc (map_put host h (cc_conn cc w)) w) = view w"
    and dial: "triple (sat inv view V) (cc_Dial cc (host @ CHR '':'' # Itoa port))
      (\<lambda>h w. sat inv view V w \<and> hostof h = host) (\<lambda>e w. sat inv view V w \<and> \<not> up host)"
begin

lemma conn_to_at:
  "triple (sat inv view V) (conn_to cc port host)
    (\<lambda>h w. sat inv view V w \<and> hostof h = host) (\<lambda>e w. sat inv view V w \<and> \<not> up host)"
  unfolding conn_to_def
  by (rule tripleI, unfold wp_andthen wp_gets)
     (auto simp: wp_simps sat_def split: option.split dest: conn_ok conn_put
           intro!: wp_call [OF dial [unfolded sat_def, of _ host]])

text \<open>The connection for a keygroup, and a message on it.\<close>

lemma routed_at:
  assumes "getHost hash p kg = Ok host"
    and "\<And>h. hostof h = host \<Longrightarrow> triple (sat inv view V) (rpc h) Q E"
    and "\<And>e w. sat inv view V w \<Longrightarrow> \<not> up host \<Longrightarrow> E e w"
  shows "triple (sat inv view V)
    (andthen (andthen (of_result (getHost hash p kg)) (conn_to cc port)) rpc) Q E"
proof (rule tripleI, unfold wp_andthen assms(1) wp_of_result)
  fix w assume w: "sat inv view V w"
  show "wp (conn_to cc port host) (\<lambda>x. wp (rpc x) Q E) E w"
    by (rule wp_call [OF conn_to_at w]) (use assms(2,3) in \<open>auto simp: triple_def\<close>)
qed

end

section \<open>Messages of nodes\<close>

locale peering_proxy = proxy_conns "pp_conn p" "pp_port p" hostof up inv view
  for p :: "'w PeeringProxy" and hostof :: "nat \<Rightarrow> string" and up :: "string \<Rightarrow> bool"
    and inv :: "'w \<Rightarrow> bool" and view :: "'w \<Rightarrow> 'v" +
  fixes peer :: "string \<Rightarrow> 'w inthandler"
  assumes pp_create: "transport (srv_CreateKeygroup (peer (hostof h)) kg x)
      (g_CreateKeygroup (pp_grpc p) h kg x) (up (hostof h))"
    and pp_deleteKg: "transport (srv_DeleteKeygroup (peer (hostof h)) kg)
      (g_DeleteKeygroup (pp_grpc p) h kg) (up (hostof h))"
    and pp_put: "transport (srv_PutItem (peer (hostof h)) kg i v)
      (g_PutItem (pp_grpc p) h kg i v) (up (hostof h))"
    and pp_append: "transport (srv_AppendItem (peer (hostof h)) kg i v)
      (g_AppendItem (pp_grpc p) h kg i v) (up (hostof h))"
    and pp_delete: "transport (srv_DeleteItem (peer (hostof h)) kg i)
      (g_DeleteItem (pp_grpc p) h kg i) (up (hostof h))"
    and pp_add: "transport (srv_AddReplica (peer (hostof h)) n kg x)
      (g_AddReplica (pp_grpc p) h n kg x) (up (hostof h))"
    and pp_remove: "transport (srv_RemoveReplica (peer (hostof h)) n kg)
      (g_RemoveReplica (pp_grpc p) h n kg) (up (hostof h))"
    and pp_get: "transport (srv_GetItem (peer (hostof h)) kg i)
      (g_GetItem (pp_grpc p) h kg i) (up (hostof h))"
    and pp_getAll: "transport (srv_GetAllItems (peer (hostof h)) kg)
      (g_GetAllItems (pp_grpc p) h kg) (up (hostof h))"
begin

text \<open>What the server of the machine guarantees, or the machine could not be reached.\<close>

abbreviation or_down :: "string \<Rightarrow> 'v \<Rightarrow> ('b \<Rightarrow> 'w \<Rightarrow> bool) \<Rightarrow> (error \<Rightarrow> 'w \<Rightarrow> bool) \<Rightarrow> error \<Rightarrow> 'w \<Rightarrow> bool" where
  "or_down host V Q E \<equiv> \<lambda>e w. (\<exists>e'. E e' w) \<or> \<not> up host \<and> (sat inv view V w \<or> (\<exists>x. Q x w))"

lemma pp_routed:
  assumes "getHost (pp_hash p) (pp_p p) kg = Ok host"
    and "\<And>h. transport (run (hostof h)) (rpc h) (up (hostof h))"
    and "triple (sat inv view V) (run host) Q E"
  shows "triple (sat inv view V) (andthen (pp_getConn p kg) rpc) Q (or_down host V Q E)"
  unfolding pp_getConn_def
proof (rule routed_at [OF assms(1)])
  fix h assume "hostof h = host"
  with assms(2) [of h] have "transport (run host) (rpc h) (up host)" by simp
  from transport_triple [OF this assms(3)]
  show "triple (sat inv view V) (rpc h) Q (or_down host V Q E)" .
qed auto

lemma pp_routes:
  assumes "getHost (pp_hash p) (pp_p p) kg = Ok host"
  shows "triple (sat inv view V) (srv_CreateKeygroup (peer host) kg x) Q E \<Longrightarrow>
      triple (sat inv view V) (pp_CreateKeygroup p kg x) Q (or_down host V Q E)"
    and "triple (sat inv view V) (srv_DeleteKeygroup (peer host) kg) Q E \<Longrightarrow>
      triple (sat inv view V) (pp_DeleteKeygroup p kg) Q (or_down host V Q E)"
    and "triple (sat inv view V) (srv_PutItem (peer host) kg i v) Q E \<Longrightarrow>
      triple (sat inv view V) (pp_PutItem p kg i v) Q (or_down host V Q E)"
    and "triple (sat inv view V) (srv_AppendItem (peer host) kg i v) Q E \<Longrightarrow>
      triple (sat inv view V) (pp_AppendItem p kg i v) Q (or_down host V Q E)"
    and "triple (sat inv view V) (srv_DeleteItem (peer host) kg i) Q E \<Longrightarrow>
      triple (sat inv view V) (pp_DeleteItem p kg i) Q (or_down host V Q E)"
    and "triple (sat inv view V) (srv_AddReplica (peer host) n kg x) Q E \<Longrightarrow>
      triple (sat inv view V) (pp_AddReplica p n kg x) Q (or_down host V Q E)"
    and "triple (sat inv view V) (srv_RemoveReplica (peer host) n kg) Q E \<Longrightarrow>
      triple (sat inv view V) (pp_RemoveReplica p n kg) Q (or_down host V Q E)"
    and "triple (sat inv view V) (srv_GetItem (peer host) kg i) R E \<Longrightarrow>
      triple (sat inv view V) (pp_GetItem p kg i) R (or_down host V R E)"
    and "triple (sat inv view V) (srv_GetAllItems (peer host) kg) T E \<Longrightarrow>
      triple (sat inv view V) (pp_GetAllItems p kg) T (or_down host V T E)"
  unfolding pp_CreateKeygroup_def pp_DeleteKeygroup_def pp_PutItem_def pp_AppendItem_def pp_DeleteItem_def
    pp_AddReplica_def pp_RemoveReplica_def pp_GetItem_def pp_GetAllItems_def
  by (rule pp_routed [OF assms], rule pp_create pp_deleteKg pp_put pp_append pp_delete pp_add pp_remove
      pp_get pp_getAll, assumption)+

end

section \<open>Requests of clients\<close>

text \<open>The keygroup a request is about; the two questions about nodes have none.\<close>

fun keygroup_of :: "client_request \<Rightarrow> string option" where
  "keygroup_of (CreateKeygroupRequest kg _ _) = Some kg"
| "keygroup_of (DeleteKeygroupRequest kg) = Some kg"
| "keygroup_of (ReadRequest kg _) = Some kg"
| "keygroup_of (ScanRequest kg _ _) = Some kg"
| "keygroup_of (AppendRequest kg _) = Some kg"
| "keygroup_of (UpdateRequest kg _ _) = Some kg"
| "keygroup_of (DeleteRequest kg _) = Some kg"
| "keygroup_of (AddReplicaRequest kg _ _) = Some kg"
| "keygroup_of (GetKeygroupReplicaRequest kg) = Some kg"
| "keygroup_of (RemoveReplicaRequest kg _) = Some kg"
| "keygroup_of (GetReplicaRequest _) = None"
| "keygroup_of GetAllReplicaRequest = None"
| "keygroup_of (GetKeygroupTriggerRequest kg) = Some kg"
| "keygroup_of (AddTriggerRequest kg _ _) = Some kg"
| "keygroup_of (RemoveTriggerRequest kg _) = Some kg"
| "keygroup_of (AddUserRequest _ kg _) = Some kg"
| "keygroup_of (RemoveUserRequest _ kg _) = Some kg"

lemmas ap_defs = ap_CreateKeygroup_def ap_DeleteKeygroup_def ap_Read_def ap_Scan_def ap_Append_def
  ap_Update_def ap_Delete_def ap_AddReplica_def ap_GetKeygroupReplica_def ap_RemoveReplica_def
  ap_GetReplica_def ap_GetAllReplica_def ap_GetKeygroupTriggers_def ap_AddTrigger_def
  ap_RemoveTrigger_def ap_AddUser_def ap_RemoveUser_def

lemma proxy_serve_eq:
  "proxy_serve a ctx q = forward a
     (case keygroup_of q of Some kg \<Rightarrow> ap_getConn a kg | None \<Rightarrow> ap_getAny a) ctx q"
  by (cases q) (simp_all add: ap_defs)

text \<open>The machines that may get a request.\<close>

definition targets :: "('w, 'c, 'md) APIProxy \<Rightarrow> client_request \<Rightarrow> string \<Rightarrow> bool" where
  "targets a q host \<longleftrightarrow> (case keygroup_of q of
     Some kg \<Rightarrow> getHost (a_hash a) (a_p a) kg = Ok host
   | None \<Rightarrow> host \<in> set (p_hosts (a_p a)))"

text \<open>
  The client is known by its certificate: the leaf of the first verified chain of the connection, which
  is valid for the address the connection comes from.
\<close>

definition client_named :: "pool \<Rightarrow> ('c, 'md) grpc_ctx \<Rightarrow> 'c \<Rightarrow> string \<Rightarrow> bool" where
  "client_named roots g ctx u \<longleftrightarrow>
     (\<exists>p crt issuers chains host prt. peer_FromContext g ctx = Some p \<and>
        p_AuthInfo p = TLSInfo ((crt # issuers) # chains) \<and> SplitHostPort (p_Addr p) = Ok (host, prt) \<and>
        roots crt host = None \<and> CommonName crt = u \<and> u \<noteq> [])"

lemma peer_cert_Ok:
  "peer_cert mk g ctx = Ok (p, crt) \<longleftrightarrow>
     (\<exists>issuers chains. peer_FromContext g ctx = Some p \<and> p_AuthInfo p = TLSInfo ((crt # issuers) # chains))"
  by (auto simp: peer_cert_def neq_Nil_conv split: option.split authInfo.split)

lemma client_named_cert:
  "client_named roots g ctx u \<longleftrightarrow>
     (\<exists>p crt host prt. peer_cert Wrapped g ctx = Ok (p, crt) \<and> SplitHostPort (p_Addr p) = Ok (host, prt) \<and>
        roots crt host = None \<and> CommonName crt = u \<and> u \<noteq> [])"
  unfolding client_named_def peer_cert_Ok by blast

lemma peer_cert_mk: "peer_cert mk g ctx = Ok x \<longleftrightarrow> peer_cert mk' g ctx = Ok x"
  by (simp add: peer_cert_def split: option.split authInfo.split)

lemma addUserHeader_no_Panic: "addUserHeader a ctx \<noteq> Panic"
  using SplitHostPort_no_Panic peer_cert_no_Panic [of Raw "a_grpc a" ctx]
  by (simp add: addUserHeader_def split: option.split result.split prod.split)

lemma addUserHeader_Ok:
  "addUserHeader a ctx = Ok ctx' \<longleftrightarrow>
     (\<exists>u md. client_named (a_roots a) (a_grpc a) ctx u \<and> FromIncomingContext (a_grpc a) ctx = Some md \<and>
        ctx' = NewOutgoingContext (a_grpc a) ctx
          (md_Set (a_grpc a) (md_Copy (a_grpc a) md) ''user'' u))"
  unfolding client_named_cert peer_cert_mk [of Wrapped _ _ _ Raw]
  by (auto simp: addUserHeader_def split: option.splits result.splits prod.splits)

lemma client_named_unique:
  "client_named roots g ctx u \<Longrightarrow> client_named roots g ctx v \<Longrightarrow> u = v"
  by (auto simp: client_named_def)

text \<open>
  The parts of the proxy. A machine sees a call of the proxy (\<open>arrive\<close>) as coming from the proxy, with
  a verified chain that begins with the proxy's certificate, and with metadata in which the user header
  is as the proxy set it; gRPC may add other headers.
\<close>

locale api_proxy = proxy_conns "a_conn a" "a_port a" hostof up inv view
  for a :: "('w, 'c, 'md) APIProxy" and hostof :: "nat \<Rightarrow> string" and up :: "string \<Rightarrow> bool"
    and inv :: "'w \<Rightarrow> bool" and view :: "'w \<Rightarrow> 'v" +
  fixes srv :: "string \<Rightarrow> ('w, 'c, 'md) ApiServer"
    and arrive :: "nat \<Rightarrow> 'c \<Rightarrow> 'c"
    and ppeer :: "string \<Rightarrow> peer"
    and pcert :: cert
  assumes hosts: "p_hosts (a_p a) \<noteq> []" "length (p_hosts (a_p a)) < 2 ^ 64"
    and intn: "0 < n \<Longrightarrow> triple (sat inv view V) (a_intn a n) (\<lambda>i w. sat inv view V w \<and> i < n) (\<lambda>_ _. False)"
    and md_set: "md_Get (a_grpc a) (md_Set (a_grpc a) md k v) k = [v]"
    and arrives: "\<exists>md'. FromIncomingContext (a_grpc a) (arrive h (NewOutgoingContext (a_grpc a) ctx md)) = Some md' \<and>
      md_Get (a_grpc a) md' ''user'' = md_Get (a_grpc a) md ''user''"
    and from_proxy: "peer_FromContext (a_grpc a) (arrive h ctx) = Some (ppeer (hostof h))"
      "\<exists>issuers chains. p_AuthInfo (ppeer host) = TLSInfo ((pcert # issuers) # chains)"
    and invoke: "hostof h \<in> set (p_hosts (a_p a)) \<Longrightarrow>
      transport (serve (srv (hostof h)) (arrive h ctx) q) (a_invoke a h ctx q) (up (hostof h))"
    and machine: "host \<in> set (p_hosts (a_p a)) \<Longrightarrow> s_isProxied (srv host) \<and> s_grpc (srv host) = a_grpc a \<and>
      s_roots (srv host) pcert [] = None \<and> (\<exists>prt. SplitHostPort (p_Addr (ppeer host)) = Ok (s_proxyHost (srv host), prt))"
begin

text \<open>A machine takes the user from the header the proxy has set, whatever the client sent.\<close>

lemma CheckCert_behind:
  assumes "addUserHeader a ctx = Ok ctx'" "client_named (a_roots a) (a_grpc a) ctx u"
    and "hostof h \<in> set (p_hosts (a_p a))"
  shows "CheckCert (srv (hostof h)) (arrive h ctx') = Ok u"
proof -
  let ?g = "a_grpc a"
  from assms(1,2) obtain md where ctx': "ctx' = NewOutgoingContext ?g ctx (md_Set ?g (md_Copy ?g md) ''user'' u)"
    unfolding addUserHeader_Ok by (blast dest: client_named_unique)
  have "peer_cert Wrapped ?g (arrive h ctx') = Ok (ppeer (hostof h), pcert)"
    using from_proxy(2) [of "hostof h"] by (auto simp: peer_cert_def from_proxy(1))
  moreover obtain md' where "FromIncomingContext ?g (arrive h ctx') = Some md'" "md_Get ?g md' ''user'' = [u]"
    using arrives [of h ctx "md_Set ?g (md_Copy ?g md) ''user'' u"] md_set unfolding ctx' by metis
  ultimately show ?thesis using machine [OF assms(3)] by (auto simp: CheckCert_def)
qed

lemma target_in: "targets a q host \<Longrightarrow> host \<in> set (p_hosts (a_p a))"
  using getHost_in [OF hosts] by (auto simp: targets_def split: option.splits) (metis result.inject(1))

lemma getAny_at:
  "triple (sat inv view V) (getAny (a_intn a) (a_p a))
     (\<lambda>host w. sat inv view V w \<and> host \<in> set (p_hosts (a_p a))) (\<lambda>_ _. False)"
  unfolding getAny_def by (rule triple_seq [OF intn]) (use hosts in \<open>auto simp: wp_if wp_ret wp_panic\<close>)

lemma conn_at:
  "triple (sat inv view V) (case keygroup_of q of Some kg \<Rightarrow> ap_getConn a kg | None \<Rightarrow> ap_getAny a)
     (\<lambda>h w. sat inv view V w \<and> targets a q (hostof h))
     (\<lambda>e w. sat inv view V w \<and> (\<exists>host. targets a q host \<and> \<not> up host))"
proof (cases "keygroup_of q")
  case None
  have "triple (sat inv view V) (ap_getAny a) (\<lambda>h w. sat inv view V w \<and> targets a q (hostof h))
     (\<lambda>e w. sat inv view V w \<and> (\<exists>host. targets a q host \<and> \<not> up host))"
    unfolding ap_getAny_def
    by (rule triple_seq [OF getAny_at]) (auto simp: targets_def None intro: wp_call [OF conn_to_at])
  with None show ?thesis by simp
next
  case (Some kg)
  obtain host where host: "getHost (a_hash a) (a_p a) kg = Ok host" using getHost_in [OF hosts] by blast
  have "triple (sat inv view V) (ap_getConn a kg) (\<lambda>h w. sat inv view V w \<and> targets a q (hostof h))
     (\<lambda>e w. sat inv view V w \<and> (\<exists>host. targets a q host \<and> \<not> up host))"
    unfolding ap_getConn_def
    by (rule tripleI, unfold wp_andthen host wp_of_result)
       (auto simp: targets_def Some host intro: wp_call [OF conn_to_at])
  with Some show ?thesis by simp
qed

text \<open>A client without a valid certificate gets an error and no machine is asked.\<close>

lemma proxy_refuses:
  assumes "addUserHeader a ctx = Err err"
  shows "triple (sat inv view V) (proxy_serve a ctx q) (\<lambda>_ _. False) (\<lambda>e w. sat inv view V w)"
  unfolding proxy_serve_eq forward_def assms
  by (rule triple_seq [OF conn_at]) (auto simp: wp_andthen wp_of_result)

text \<open>Any other request is served for the client's name.\<close>

lemma proxy_serves:
  assumes "addUserHeader a ctx = Ok ctx'" "client_named (a_roots a) (a_grpc a) ctx u"
    and "\<And>host. targets a q host \<Longrightarrow> triple (sat inv view V) (answer (s_e (srv host)) u q) Q E"
  shows "triple (sat inv view V) (proxy_serve a ctx q) Q
    (\<lambda>e w. (\<exists>e'. E e' w) \<or> (\<exists>host. targets a q host \<and> \<not> up host) \<and> (sat inv view V w \<or> (\<exists>x. Q x w)))"
    (is "triple _ _ _ ?E")
  unfolding proxy_serve_eq forward_def assms(1)
proof (rule triple_seq [OF conn_at])
  fix h w assume w: "sat inv view V w \<and> targets a q (hostof h)"
  then have h: "hostof h \<in> set (p_hosts (a_p a))" by (blast intro: target_in)
  have "triple (sat inv view V) (serve (srv (hostof h)) (arrive h ctx') q) Q E"
    using assms(3) w by (simp add: serve_verified [OF CheckCert_behind [OF assms(1,2) h]])
  from transport_triple [OF invoke [OF h] this]
  show "wp (andthen (of_result (Ok ctx')) (\<lambda>ctx'. a_invoke a h ctx' q)) Q ?E w"
    unfolding wp_andthen wp_of_result by (rule wp_call) (use w in auto)
qed auto

end

end
