(* ===== verification/Api_Properties.thy ===== *)
theory Api_Properties
  imports Cluster_Machine Proxy_Correct
begin

text \<open>
  The properties of the client interface: who a request is served for, that in a cluster it is the
  verified user whose permissions count, and what the proxy keeps of all that.
\<close>

section \<open>The requests of the state machine\<close>

text \<open>The request of the state machine that a message of a client is.\<close>

fun request_of :: "client_request \<Rightarrow> request" where
  "request_of (CreateKeygroupRequest kg mut x) = CreateKeygroup \<lparr>Name = kg, Mutable = mut, Expiry = x\<rparr>"
| "request_of (DeleteKeygroupRequest kg) = DeleteKeygroup (on_kg kg 0)"
| "request_of (ReadRequest kg i) = ReadItem \<lparr>iKeygroup = kg, iID = i, iVal = []\<rparr>"
| "request_of (ScanRequest kg i n) = ScanItems \<lparr>iKeygroup = kg, iID = i, iVal = []\<rparr> n"
| "request_of (AppendRequest kg d) = AppendItem \<lparr>iKeygroup = kg, iID = [], iVal = d\<rparr>"
| "request_of (UpdateRequest kg i d) = UpdateItem \<lparr>iKeygroup = kg, iID = i, iVal = d\<rparr>"
| "request_of (DeleteRequest kg i) = DeleteItem \<lparr>iKeygroup = kg, iID = i, iVal = []\<rparr>"
| "request_of (AddReplicaRequest kg n x) = AddReplica (on_kg kg x) \<lparr>nID = n, nHost = []\<rparr>"
| "request_of (RemoveReplicaRequest kg n) = RemoveReplica (on_kg kg 0) \<lparr>nID = n, nHost = []\<rparr>"
| "request_of (GetKeygroupTriggerRequest kg) = GetTriggers (on_kg kg 0)"
| "request_of (AddTriggerRequest kg t h) = AddTrigger (on_kg kg 0) \<lparr>tID = t, tHost = h\<rparr>"
| "request_of (RemoveTriggerRequest kg t) = RemoveTrigger (on_kg kg 0) \<lparr>tID = t, tHost = []\<rparr>"
| "request_of (AddUserRequest u kg r) = AddUser u (on_kg kg 0) (Roles r)"
| "request_of (RemoveUserRequest u kg r) = RemoveUser u (on_kg kg 0) (Roles r)"
| "request_of (GetKeygroupReplicaRequest kg) = GetKeygroupReplica (on_kg kg 0)"
| "request_of (GetReplicaRequest n) = GetReplica \<lparr>nID = n, nHost = []\<rparr>"
| "request_of GetAllReplicaRequest = GetAllReplica"

lemma forget_reply: "forget (reply f m) = forget m"
  by (rule ext) (simp add: reply_def op_defs split: prod.split result.split)

lemma forget_status: "forget (status n) = n"
  by (rule ext) (simp add: status_def statusResponseFromError_def op_defs split: prod.split result.split)

lemma answer_handle: "forget (answer e u q) = handle e u (request_of q)"
  by (cases q) (auto simp: forget_reply forget_status)

lemma forget_result:
  "m w = (r, w') \<Longrightarrow> \<exists>r'. forget m w = (r', w') \<and> (r' = Panic \<longleftrightarrow> r = Panic)"
  by (cases r) (auto simp: op_defs)

section \<open>Properties\<close>

text \<open>C34: who a request is served for. A node that clients reach directly takes the common name, not
  empty, of the leaf certificate of the first verified chain of the connection, if that certificate is
  valid for the address the client connects from; nothing the client sends can change it. A node behind
  a proxy takes the one user header of a request that comes from the proxy's address on a connection
  whose leaf certificate is valid. In all other cases the answer is an error with a stack trace, never a
  crash.\<close>

theorem CheckCert_user:
  "(CheckCert s ctx = Ok u \<longleftrightarrow>
     (\<exists>p crt issuers chains host prt. peer_FromContext (s_grpc s) ctx = Some p \<and>
        p_AuthInfo p = TLSInfo ((crt # issuers) # chains) \<and> SplitHostPort (p_Addr p) = Ok (host, prt) \<and>
        (if s_isProxied s
         then host = s_proxyHost s \<and> s_roots s crt [] = None \<and>
           (\<exists>md. FromIncomingContext (s_grpc s) ctx = Some md \<and> md_Get (s_grpc s) md ''user'' = [u])
         else s_roots s crt host = None \<and> CommonName crt = u \<and> u \<noteq> []))) \<and>
   (\<not> s_isProxied s \<and> peer_FromContext (s_grpc s) ctx' = peer_FromContext (s_grpc s) ctx \<longrightarrow>
      CheckCert s ctx' = CheckCert s ctx) \<and>
   ((\<exists>u. CheckCert s ctx = Ok u) \<or> (\<exists>msg. CheckCert s ctx = Err (Wrapped msg)))"
  (is "?iff \<and> ?same \<and> ?total")
proof (intro conjI)
  have "CheckCert s ctx = Ok u \<longleftrightarrow>
     (\<exists>p crt host prt. peer_cert Wrapped (s_grpc s) ctx = Ok (p, crt) \<and> SplitHostPort (p_Addr p) = Ok (host, prt) \<and>
        (if s_isProxied s
         then host = s_proxyHost s \<and> s_roots s crt [] = None \<and>
           (\<exists>md. FromIncomingContext (s_grpc s) ctx = Some md \<and> md_Get (s_grpc s) md ''user'' = [u])
         else s_roots s crt host = None \<and> CommonName crt = u \<and> u \<noteq> []))"
    by (auto simp: CheckCert_def errorf_def split: option.splits result.splits prod.splits list.splits if_splits)
  then show ?iff unfolding peer_cert_Ok by blast
  show ?same
  proof (intro impI, elim conjE)
    assume np: "\<not> s_isProxied s" and "peer_FromContext (s_grpc s) ctx' = peer_FromContext (s_grpc s) ctx"
    then have "peer_cert Wrapped (s_grpc s) ctx' = peer_cert Wrapped (s_grpc s) ctx" by (simp only: peer_cert_def)
    with np show "CheckCert s ctx' = CheckCert s ctx" by (simp only: CheckCert_def not_False_eq_True if_True)
  qed
  have "is_wrapped e" if "CheckCert s ctx = Err e" for e
    using that by (auto simp: CheckCert_def errorf_def peer_cert_def
        split: option.splits result.splits prod.splits list.splits if_splits authInfo.splits)
  then show ?total using CheckCert_no_Panic [of s ctx] by (cases "CheckCert s ctx") (metis is_wrapped.elims(2))+
qed

text \<open>C35: requests of clients in a cluster whose stores and naming service work, with names that do not
  contain the separator of the keys. In every reachable world a request to a registered node is answered
  with a result or an error, except that a request for the replicas of a keygroup the naming service does
  not know crashes the node if the verified user has the permission on that name; without a verified user
  a request has no effect at all; with one it is a step of the cluster for that user, and a permission
  that it brings about is one on a keygroup it has just created for that user, or one that that user may
  hand out.\<close>

theorem api_request_safe:
  assumes C: "cluster nodes node pc host hostof peer up I sv nv True"
    and addr: "\<forall>a \<in> nodes. host a \<noteq> [] \<and> peer_address (node a) = host a"
    and w0: "I w0" "nase_wf nodes host (nv w0)" and w: "reachable nodes node host nv w0 w"
    and a: "a \<in> nodes" "nv_addr (nv w) a = Some (host a)" "s_e s = front node a"
    and users: "\<forall>u. CheckCert s ctx = Ok u \<longrightarrow> ok_name u"
    and q: "named (request_of q)"
    and run: "serve s ctx q w = (res, w')"
  shows "(res = Panic \<longleftrightarrow> (\<exists>u kg. CheckCert s ctx = Ok u \<and> q = GetKeygroupReplicaRequest kg \<and>
       ''GetReplica'' \<in> nv_perm (nv w) u kg \<and> kg \<notin> nv_kgs (nv w))) \<and>
    reachable nodes node host nv w0 w' \<and>
    (w' = w \<or> (\<exists>u. CheckCert s ctx = Ok u)) \<and>
    (\<forall>mt v kg. mt \<in> nv_perm (nv w') v kg \<and> mt \<notin> nv_perm (nv w) v kg \<longrightarrow>
       (\<exists>u. CheckCert s ctx = Ok u \<and>
          ((\<exists>k. request_of q = CreateKeygroup k \<and> Name k = kg \<and> v = u \<and> kg \<notin> nv_kgs (nv w)) \<or>
           (\<exists>k ro. request_of q = AddUser v k ro \<and> Name k = kg \<and> mt \<in> set (permissions ro) \<and>
              ''AddUser'' \<in> nv_perm (nv w) u kg))))"
proof (cases "CheckCert s ctx")
  case (Ok u)
  have ok: "ok_name u" using users Ok by blast
  have "answer (front node a) u q w = (res, w')" using run serve_verified [OF Ok] a(3) by simp
  from forget_result [of "answer (front node a) u q", OF this] obtain res' where
    run': "handle (front node a) u (request_of q) w = (res', w')" and p: "res' = Panic \<longleftrightarrow> res = Panic"
    unfolding answer_handle by blast
  have wf: "I w" "nase_wf nodes host (nv w)" using reachable_wf [OF C addr w0 w] by auto
  note eff = request_effect [OF C wf a(1) ok q run']
  have "reachable nodes node host nv w0 w'"
    using w by (rule reachable.next_world) (rule step.request, rule a(1), rule a(2), rule ok, rule q, rule run')
  moreover have "crashes (nv w) u (request_of q) \<longleftrightarrow>
      (\<exists>kg. q = GetKeygroupReplicaRequest kg \<and> ''GetReplica'' \<in> nv_perm (nv w) u kg \<and> kg \<notin> nv_kgs (nv w))"
    by (cases q) (auto simp: crashes_def)
  ultimately show ?thesis using eff(1) p Ok may_change_perm [OF eff(3)] by auto
next
  case (Err e)
  from serve_refused [OF this, of q w] run w Err show ?thesis by auto
qed (simp add: CheckCert_no_Panic)

text \<open>C36: routing. fredproxy makes its proxy from a comma-separated list of machines. Every keygroup has
  one machine, always the same: the one of the list whose position is the hash of the name modulo the
  number of machines. Splitting never gives an empty list, so there is no division by zero; the empty
  text stands for one machine with an empty name.\<close>

theorem proxy_routing:
  assumes "length machines < 2 ^ 63"
  defines "hosts \<equiv> split_on (CHR '','') machines"
  shows "getHost hash (NewProxy hosts) kg = Ok (hosts ! (unat (hash kg) mod length hosts)) \<and>
    hosts ! (unat (hash kg) mod length hosts) \<in> set hosts \<and>
    getHost hash (NewProxy (split_on (CHR '','') [])) kg = Ok []"
proof -
  have "length (split_on (CHR '','') s) \<le> Suc (length s)" for s
    by (induction s) (auto split: list.splits)
  with assms(1) have "length hosts < 2 ^ 64"
    using le_less_trans [of "length hosts" "Suc (length machines)" "2 ^ 64"] by (simp add: hosts_def)
  then show ?thesis using getHost_nth [of "NewProxy hosts" hash kg] by (simp add: NewProxy_def hosts_def getHost_def)
qed

theorem proxy_routing_witness:
  "getHost (\<lambda>kg. of_nat (length kg)) (NewProxy (split_on (CHR '','') ''m1,m2,m3'')) ''kgroup4'' = Ok ''m2''"
proof -
  have "split_on (CHR '','') ''m1,m2,m3'' = [''m1'', ''m2'', ''m3'']" by code_simp
  then show ?thesis using proxy_routing [of "''m1,m2,m3''" "\<lambda>kg. of_nat (length kg)" "''kgroup4''"] by simp
qed

text \<open>C37: the proxy is transparent. A request through the proxy is served by the machine of its keygroup,
  and there for the user whose certificate the proxy has verified, whatever user header the client
  sent itself: what the handler of that machine guarantees for this user, the proxy's answer has;
  only when that machine cannot be reached the answer can be an error with the request not served or
  served once. A client that cannot be verified gets an error and no machine is asked.\<close>

theorem proxy_transparent:
  assumes "api_proxy a hostof up I view srv arrive ppeer pcert"
  shows "(\<forall>u md. client_named (a_roots a) (a_grpc a) ctx u \<and> FromIncomingContext (a_grpc a) ctx = Some md \<and>
      (\<forall>host. targets a q host \<longrightarrow> triple (sat I view V) (answer (s_e (srv host)) u q) Q E) \<longrightarrow>
      triple (sat I view V) (proxy_serve a ctx q) Q
        (\<lambda>e w. (\<exists>e'. E e' w) \<or>
           (\<exists>host. targets a q host \<and> \<not> up host) \<and> (sat I view V w \<or> (\<exists>x. Q x w)))) \<and>
    ((\<nexists>u. client_named (a_roots a) (a_grpc a) ctx u) \<longrightarrow>
      triple (sat I view V) (proxy_serve a ctx q) (\<lambda>_ _. False) (\<lambda>_ w. sat I view V w))"
proof (intro conjI allI impI)
  fix u md
  assume *: "client_named (a_roots a) (a_grpc a) ctx u \<and> FromIncomingContext (a_grpc a) ctx = Some md \<and>
      (\<forall>host. targets a q host \<longrightarrow> triple (sat I view V) (answer (s_e (srv host)) u q) Q E)"
  then obtain ctx' where "addUserHeader a ctx = Ok ctx'" using addUserHeader_Ok [of a ctx] by blast
  from api_proxy.proxy_serves [OF assms this] *
  show "triple (sat I view V) (proxy_serve a ctx q) Q
      (\<lambda>e w. (\<exists>e'. E e' w) \<or> (\<exists>host. targets a q host \<and> \<not> up host) \<and> (sat I view V w \<or> (\<exists>x. Q x w)))"
    by blast
next
  assume "\<nexists>u. client_named (a_roots a) (a_grpc a) ctx u"
  then obtain err where "addUserHeader a ctx = Err err"
    using addUserHeader_Ok [of a ctx] addUserHeader_no_Panic [of a ctx]
    by (cases "addUserHeader a ctx") blast+
  from api_proxy.proxy_refuses [OF assms this]
  show "triple (sat I view V) (proxy_serve a ctx q) (\<lambda>_ _. False) (\<lambda>_ w. sat I view V w)" .
qed

end
