(* ===== verification/Proxy_Reference.thy ===== *)
theory Proxy_Reference
  imports Proxy_Correct Cluster_Reference
begin

text \<open>
  An executable proxy in front of the three machines of the reference cluster, and contexts of
  calls: a peer, incoming and outgoing metadata. The proxy connects from 10.0.0.9; clients connect
  from 10.0.0.1, for which their certificates are valid.
\<close>

type_synonym metadata = "(string \<times> string list) list"

record rcontext =
  x_peer :: "peer option"
  x_in :: "metadata option"
  x_out :: "metadata option"

definition rctx :: "(rcontext, metadata) grpc_ctx" where
  "rctx = \<lparr>peer_FromContext = x_peer, FromIncomingContext = x_in,
     NewOutgoingContext = (\<lambda>c md. c\<lparr>x_out := Some md\<rparr>),
     md_Get = (\<lambda>md k. case map_of md k of Some vs \<Rightarrow> vs | None \<Rightarrow> []),
     md_Copy = (\<lambda>md. md), md_Set = (\<lambda>md k v. map_put k [v] md)\<rparr>"

definition rpool :: pool where
  "rpool crt dns = (if serial crt = 1 \<and> dns = [] \<or> serial crt = 2 \<and> dns = ''10.0.0.1'' then None
     else Some (Raw ''x509: certificate is not valid''))"

definition proxy_cert :: cert where
  "proxy_cert = \<lparr>CommonName = ''proxy'', serial = 1\<rparr>"

definition ca_cert :: cert where
  "ca_cert = \<lparr>CommonName = ''ca'', serial = 0\<rparr>"

definition proxy_peer :: "string \<Rightarrow> peer" where
  "proxy_peer host = \<lparr>p_Addr = ''10.0.0.9:4711'', p_AuthInfo = TLSInfo [[proxy_cert, ca_cert]]\<rparr>"

text \<open>The context of a client \<open>u\<close> that sends the metadata \<open>md\<close>.\<close>

definition client_ctx :: "string \<Rightarrow> metadata \<Rightarrow> rcontext" where
  "client_ctx u md = \<lparr>x_peer = Some \<lparr>p_Addr = ''10.0.0.1:5000'',
     p_AuthInfo = TLSInfo [[\<lparr>CommonName = u, serial = 2\<rparr>, ca_cert]]\<rparr>, x_in = Some md, x_out = None\<rparr>"

definition rarrive :: "nat \<Rightarrow> rcontext \<Rightarrow> rcontext" where
  "rarrive h c = \<lparr>x_peer = Some (proxy_peer (rhostof h)),
     x_in = map_option (\<lambda>md. (''content-type'', [''application/grpc'']) # md) (x_out c), x_out = None\<rparr>"

definition rsrv :: "string list \<Rightarrow> bool \<Rightarrow> string \<Rightarrow> (world, rcontext, metadata) ApiServer" where
  "rsrv S proxied m = \<lparr>s_e = F_E (services (rnode S m)), s_roots = rpool, s_isProxied = proxied,
     s_proxyHost = ''10.0.0.9'', s_proxyPort = ''9'', s_grpc = rctx\<rparr>"

definition rcache :: "string \<Rightarrow> world conn_cache" where
  "rcache me = \<lparr>cc_conn = (\<lambda>w. w_conn w me), cc_set_conn = (\<lambda>cs w. w\<lparr>w_conn := (w_conn w)(me := cs)\<rparr>),
     cc_Dial = (\<lambda>addr. if addr = ''A:9'' then ret 0 else if addr = ''B:9'' then ret 1
       else if addr = ''C:9'' then ret 2 else fail (Raw ''no such host''))\<rparr>"

definition rhash :: "string \<Rightarrow> 64 word" where
  "rhash s = of_nat (sum_list (map of_char s))"

definition rproxy :: "string list \<Rightarrow> (world, rcontext, metadata) APIProxy" where
  "rproxy S = \<lparr>a_p = NewProxy rhosts, a_port = 9, a_conn = rcache ''api'', a_roots = rpool, a_hash = rhash,
     a_intn = (\<lambda>n. ret 0), a_grpc = rctx,
     a_invoke = (\<lambda>h ctx q. ask S h (serve (rsrv S True (rhostof h)) (rarrive h ctx) q))\<rparr>"

definition rpeering :: "string list \<Rightarrow> world PeeringProxy" where
  "rpeering S = \<lparr>pp_p = NewProxy rhosts, pp_port = 9, pp_conn = rcache ''peering'', pp_hash = rhash,
     pp_grpc = rgrpc S\<rparr>"

lemma Itoa_9: "Itoa 9 = ''9''"
  by code_simp

lemma rcache_conns: "proxy_conns (rcache me) 9 rhostof (rup S) rinv (\<lambda>w. (\<lambda>k. rsv k w, rnv w))"
proof unfold_locales
  fix w host h
  assume "rinv w" "map_of (cc_conn (rcache me) w) host = Some h"
  then show "rhostof h = host" by (simp add: rinv_def conns_ok_def rcache_def)
next
  fix w h host
  assume "rinv w" "rhostof h = host"
  then show "rinv (cc_set_conn (rcache me) (map_put host h (cc_conn (rcache me) w)) w) \<and>
      (\<lambda>k. rsv k (cc_set_conn (rcache me) (map_put host h (cc_conn (rcache me) w)) w),
       rnv (cc_set_conn (rcache me) (map_put host h (cc_conn (rcache me) w)) w)) = (\<lambda>k. rsv k w, rnv w)"
    by (simp add: rinv_def rcache_def conns_put rsv_def rnv_def)
next
  fix V host
  have addr: "host @ CHR '':'' # Itoa 9 = m @ CHR '':'' # ''9'' \<longleftrightarrow> host = m" for m
    by (simp add: Itoa_9)
  show "triple (sat rinv (\<lambda>w. (\<lambda>k. rsv k w, rnv w)) V) (cc_Dial (rcache me) (host @ CHR '':'' # Itoa 9))
      (\<lambda>h w. sat rinv (\<lambda>w. (\<lambda>k. rsv k w, rnv w)) V w \<and> rhostof h = host)
      (\<lambda>e w. sat rinv (\<lambda>w. (\<lambda>k. rsv k w, rnv w)) V w \<and> \<not> rup S host)"
    using addr [of "''A''"] addr [of "''B''"] addr [of "''C''"]
    by (simp add: rcache_def triple_def wp_simps rup_def rhosts_def)
qed

interpretation rconns: proxy_conns "rcache me" 9 rhostof "rup S" rinv "\<lambda>w. (\<lambda>k. rsv k w, rnv w)" for me S
  by (rule rcache_conns)

interpretation rapi: api_proxy "rproxy S" rhostof "rup S" rinv "\<lambda>w. (\<lambda>k. rsv k w, rnv w)"
  "rsrv S True" rarrive proxy_peer proxy_cert for S
proof (rule api_proxy.intro)
  show "proxy_conns (a_conn (rproxy S)) (a_port (rproxy S)) rhostof (rup S) rinv (\<lambda>w. (\<lambda>k. rsv k w, rnv w))"
    by (simp add: rproxy_def rcache_conns)
  have split: "SplitHostPort ''10.0.0.9:4711'' = Ok (''10.0.0.9'', ''4711'')" by code_simp
  show "api_proxy_axioms (rproxy S) rhostof (rup S) rinv (\<lambda>w. (\<lambda>k. rsv k w, rnv w)) (rsrv S True) rarrive
      proxy_peer proxy_cert"
    by unfold_locales
       (simp_all add: rproxy_def NewProxy_def rhosts_def triple_def wp_ret rctx_def map_of_map_put
         rarrive_def proxy_peer_def rsrv_def split rpool_def proxy_cert_def ask_transport)
qed

interpretation rpeer_proxy: peering_proxy "rpeering S" rhostof "rup S" rinv "\<lambda>w. (\<lambda>k. rsv k w, rnv w)" rpeer
  for S
proof (rule peering_proxy.intro)
  show "proxy_conns (pp_conn (rpeering S)) (pp_port (rpeering S)) rhostof (rup S) rinv (\<lambda>w. (\<lambda>k. rsv k w, rnv w))"
    by (simp add: rpeering_def rcache_conns)
  show "peering_proxy_axioms (rpeering S) rhostof (rup S) rpeer"
    by unfold_locales (simp_all add: rpeering_def rgrpc_def ask_transport)
qed

end
