(* ===== verification/Replica_Witnesses.thy ===== *)
theory Replica_Witnesses
  imports Cluster_Witnesses
begin

text \<open>
  Runs in the executable cluster for the properties on keygroups, users, members and a node that
  starts again.
\<close>

section \<open>One and two members\<close>

definition single :: world where
  "single = create ''kg'' True registered3"

definition pair :: world where
  "pair = enter ''B'' ''kg'' single"

abbreviation kgS :: sview where
  "kgS \<equiv> add_kg ''kg'' none"

lemma single_at: "at ((\<lambda>_. none)(''A'' := kgS)) (created ''kg'' True three) single"
  using created_at [OF registered3_at, of "''kg''" True] by (simp add: single_def)

lemma pair_at: "at ((\<lambda>_. none)(''A'' := kgS, ''B'' := kgS)) (join_nv ''kg'' ''B'' 0 (created ''kg'' True three)) pair"
  using enter_at [OF single_at, of "''B''" "''kg''"] by (simp add: pair_def)

lemma single_views:
  "rinv single" "rnv single = created ''kg'' True three" "rsv ''A'' single = kgS" "rsv ''B'' single = none"
  "m \<noteq> ''A'' \<Longrightarrow> rsv m single = none"
  using single_at by (auto simp: sat_def fun_eq_iff)

lemma pair_views:
  "rinv pair" "rnv pair = join_nv ''kg'' ''B'' 0 (created ''kg'' True three)" "rsv ''A'' pair = kgS" "rsv ''B'' pair = kgS"
  using pair_at by (auto simp: sat_def fun_eq_iff)

lemma pair_placed: "placed (set rhosts) (\<lambda>m. m) (rnv single) ''kg''" "placed (set rhosts) (\<lambda>m. m) (rnv pair) ''kg''"
  "registered (set rhosts) (\<lambda>m. m) (rnv single)"
  by (auto simp: pair_views single_views placed_def registered_def rhosts_def split: if_splits)

theorem update_converges_witness:
  "\<exists>w'. HandleUpdate (front (rnode AB) ''A'') ''u'' it1 pair = (Ok (), w') \<and> rinv w' \<and>
     (\<forall>m \<in> {''A'', ''B''}. sv_items (rsv m w') ''kg'' ''a'' = Some ''1'')"
  using update_converges [OF refc nodes3(1) pair_views(1) ok_u(1), of it1] pair_placed(2)
  by (auto simp: pair_views add_kg_fields owner_def)

section \<open>Keygroups\<close>

abbreviation k1 :: Keygroup where
  "k1 \<equiv> \<lparr>Name = ''kg'', Mutable = True, Expiry = 0\<rparr>"

lemma registered3_views: "rinv registered3" "rnv registered3 = three" "rsv m registered3 = none"
  using registered3_at by (auto simp: sat_def fun_eq_iff)

lemma k1_ok: "ok_name (Name k1)" "int64 (Expiry k1)"
  by simp_all

lemma single_run: "HandleCreateKeygroup (front (rnode AB) ''A'') ''u'' k1 registered3 = (Ok (), single)"
  unfolding single_def create_def front_eq Let_def
  by (rule must_run [OF ref.HandleCreateKeygroup_c [where S = AB]]) (simp_all add: registered3_views)

theorem create_keygroup_witness:
  "HandleCreateKeygroup (front (rnode AB) ''A'') ''u'' k1 registered3 = (Ok (), single) \<and>
   nv_mem (rnv single) ''kg'' = {''A''} \<and> ''Update'' \<in> nv_perm (rnv single) ''u'' ''kg'' \<and>
   nv_perm (rnv single) ''v'' ''kg'' = {}"
  using create_keygroup [OF refc nodes3(1) registered3_views(1) ok_u(1) k1_ok single_run] single_run
  by (simp add: registered3_views permissions_def)

abbreviation k2 :: Keygroup where
  "k2 \<equiv> \<lparr>Name = ''k g'', Mutable = True, Expiry = 0\<rparr>"

lemma k2_ok: "ok_name (Name k2)" "int64 (Expiry k2)"
  by (simp_all add: ok_name_def sep_def)

lemma k2_bad: "\<not> reg_MatchString (Name k2)"
  by code_simp

theorem create_invalid_name_registered_witness:
  "\<exists>e w'. HandleCreateKeygroup (front (rnode AB) ''A'') ''u'' k2 registered3 = (Err e, w') \<and>
     nv_kgs (rnv w') = {''k g''} \<and> nv_perm (rnv w') ''u'' ''k g'' = {}"
  using create_invalid_name_registered [OF refc nodes3(1) registered3_views(1) ok_u(1) k2_ok k2_bad]
  by (auto simp: registered3_views)

definition pair_deleted :: world where
  "pair_deleted = snd (HandleDeleteKeygroup (front (rnode AB) ''A'') ''u'' k1 pair)"

lemma pair_delete: "HandleDeleteKeygroup (front (rnode AB) ''A'') ''u'' k1 pair = (Ok (), pair_deleted)"
  unfolding pair_deleted_def front_eq Let_def
  by (rule must_run [OF ref.HandleDeleteKeygroup_c [where S = AB]])
     (use pair_placed in \<open>auto simp: pair_views add_kg_fields owner_def\<close>)

lemma pair_deleted_nv: "rnv pair_deleted = delete_nv ''kg'' (rnv pair)"
proof -
  have pl: "placed (set rhosts) (\<lambda>m. m) (rnv pair) (Name k1)" using pair_placed by simp
  from triple_run(2) [OF ref.HandleDeleteKeygroup_c [where S = AB, OF nodes3(1) TrueI ok_u(1) k1_ok(1) pl]
      cview_start [where sv = rsv and nv = rnv, of rinv, OF pair_views(1)] pair_delete [unfolded front_eq Let_def] refl]
  show ?thesis by (auto simp: sat_def)
qed

theorem delete_keygroup_witness:
  "HandleDeleteKeygroup (front (rnode AB) ''A'') ''u'' k1 pair = (Ok (), pair_deleted) \<and>
   nv_kgs (rnv pair_deleted) = {} \<and> sv_kgs (rsv ''A'' pair_deleted) = {} \<and> sv_kgs (rsv ''B'' pair_deleted) = {} \<and>
   ''Update'' \<in> nv_perm (rnv pair_deleted) ''u'' ''kg''"
  using delete_keygroup [OF refc nodes3(1) pair_views(1) ok_u(1) k1_ok(1) _ pair_delete] pair_placed pair_delete
  by (auto simp: pair_views add_kg_fields del_kg_fields owner_def)

section \<open>Users\<close>

theorem add_user_role_witness:
  "\<exists>w'. HandleAddUser (front (rnode AB) ''A'') ''u'' ''v'' k1 ReadKeygroup pair = (Ok (), w') \<and>
     nv_perm (rnv w') ''v'' ''kg'' = {''Read''}"
  using add_user_role [OF refc nodes3(1) pair_views(1) ok_u k1_ok(1) surjective_pairing]
  by (auto simp: pair_views owner_def permissions_def prod_eq_iff)

theorem remove_user_role_witness:
  "\<exists>w'. HandleRemoveUser (front (rnode AB) ''A'') ''u'' ''u'' k1 ReadKeygroup pair = (Ok (), w') \<and>
     nv_perm (rnv w') ''u'' ''kg'' = owner - {''Read''}"
  using remove_user_role [OF refc nodes3(1) pair_views(1) ok_u(1,1) k1_ok(1) surjective_pairing]
  by (auto simp: pair_views owner_def permissions_def prod_eq_iff)

section \<open>Members\<close>

abbreviation nB :: Node where
  "nB \<equiv> \<lparr>nID = ''B'', nHost = []\<rparr>"

lemma nB_ok: "ok_name (nID nB)" "nID nB \<noteq> ''A''"
  by (simp_all add: ok_name_def sep_def)

theorem remove_replica_keeps_member_witness:
  "nv_mem (rnv (snd (HandleRemoveReplica (front (rnode AB) ''A'') ''u'' k1 nB pair))) ''kg'' \<noteq> {} \<and>
   sv_kgs (rsv ''A'' (snd (HandleRemoveReplica (front (rnode AB) ''A'') ''u'' k1 nB pair))) = {''kg''}"
  using remove_replica_keeps_member [OF refc nodes3(1) pair_views(1) ok_u(1) k1_ok(1) nB_ok(1) _ _ surjective_pairing]
    pair_placed(2)
  by (simp add: pair_views add_kg_fields)

lemma single_named:
  "\<forall>b \<in> set rhosts. \<forall>j. sv_items (rsv b single) (Name k1) j \<noteq> None \<longrightarrow> reg_MatchString j"
proof -
  have "sv_items (rsv b single) kg j = None" for b kg j
    by (cases "b = ''A''") (simp_all add: single_views add_kg_fields)
  then show ?thesis by simp
qed

definition single_added :: world where
  "single_added = snd (HandleAddReplica (front (rnode AB) ''A'') ''u'' k1 nB single)"

lemma single_add: "HandleAddReplica (front (rnode AB) ''A'') ''u'' k1 nB single = (Ok (), single_added)"
  unfolding single_added_def front_eq Let_def
  by (rule must_run [OF ref.HandleAddReplica_c [where S = AB]])
     (use pair_placed single_named nB_ok in \<open>auto simp: single_views add_kg_fields owner_def\<close>)

theorem add_replica_copies_witness:
  "HandleAddReplica (front (rnode AB) ''A'') ''u'' k1 nB single = (Ok (), single_added) \<and>
   nv_mem (rnv single_added) ''kg'' = {''B'', ''A''} \<and> ''kg'' \<in> sv_kgs (rsv ''B'' single_added)"
  using add_replica_copies [OF refc nodes3(1) single_views(1) ok_u(1) k1_ok(1) nB_ok(1) k1_ok(2) nB_ok(2)
      pair_placed(3) _ single_add] pair_placed(1) single_add
  by (simp add: single_views)

theorem add_replica_succeeds_witness:
  "\<exists>w'. HandleAddReplica (front (rnode AB) ''A'') ''u'' k1 nB single = (Ok (), w') \<and> ''B'' \<in> nv_mem (rnv w') ''kg''"
  using add_replica_succeeds [OF refc nodes3(1) single_views(1) ok_u(1) _ nB_ok(1) k1_ok(2) nB_ok(2)
      _ _ pair_placed(3)] pair_placed(1)
  by (auto simp: single_views add_kg_fields owner_def)

section \<open>A node that was away\<close>

abbreviation ABC :: "string list" where
  "ABC \<equiv> [''A'', ''B'', ''C'']"

lemma rnode_addr:
  "(if c_PeeringHostProxy (rnode S m) \<noteq> [] \<and> c_PeeringHost (rnode S m) \<noteq> c_PeeringHostProxy (rnode S m)
    then c_PeeringHostProxy (rnode S m) else c_PeeringHost (rnode S m)) = m"
  by (simp add: rnode_def)

text \<open>Nodes A and B have stored an item, and A has reported that C missed it.\<close>

definition away :: world where
  "away = snd (ns_ReportFailedNode (rnase ''A'') ''C'' ''kg'' ''a''
     (snd (st_Update (rstore ''B'') ''kg'' ''a'' ''1'' False 0 (snd (st_Update (rstore ''A'') ''kg'' ''a'' ''1'' False 0 town)))))"

lemma put_at:
  assumes "at SV U w" "m \<in> set rhosts" "reg_MatchString kg" "reg_MatchString i"
  shows "at (SV(m := upd_item kg i v (SV m))) U (snd (st_Update (rstore m) kg i v False 0 w))"
proof -
  have "at (SV(m := SV m)) U w" using assms(1) by simp
  from run_at [OF store_spec.update_spec [OF ref.store [where S = AB, OF assms(2)], unfolded ref.sat_store,
      OF assms(3,4) int64_0] this]
  show ?thesis by auto
qed

lemma reported_at:
  assumes "at SV U w" "ok_name m" "ok_name kg" "ok_name i"
  shows "at SV (report_nv m kg i U) (snd (ns_ReportFailedNode (rnase ''A'') m kg i w))"
  using run_at [OF ref.report_c [where S = AB, OF nodes3(1) assms(2-4)] assms(1)] by auto

lemma away_at:
  "at ((\<lambda>_. none)(''A'' := upd_item ''kg'' ''a'' ''1'' townS, ''B'' := upd_item ''kg'' ''a'' ''1'' townS, ''C'' := townS))
     (report_nv ''C'' ''kg'' ''a'' townU) away"
proof -
  have names: "ok_name ''C''" "ok_name ''kg''" "ok_name ''a''" by (simp_all add: ok_name_def sep_def)
  have a: "at ((\<lambda>_. none)(''A'' := upd_item ''kg'' ''a'' ''1'' townS, ''B'' := townS, ''C'' := townS)) townU
      (snd (st_Update (rstore ''A'') ''kg'' ''a'' ''1'' False 0 town))"
    using put_at [OF town_at, of "''A''" "''kg''" "''a''" "''1''"] by (simp add: fun_upd_twist)
  have "at ((\<lambda>_. none)(''A'' := upd_item ''kg'' ''a'' ''1'' townS, ''B'' := upd_item ''kg'' ''a'' ''1'' townS, ''C'' := townS))
    townU (snd (st_Update (rstore ''B'') ''kg'' ''a'' ''1'' False 0 (snd (st_Update (rstore ''A'') ''kg'' ''a'' ''1'' False 0 town))))"
    using put_at [OF a, of "''B''" "''kg''" "''a''" "''1''"] by (simp add: fun_upd_twist)
  from reported_at [OF this names] show ?thesis by (simp only: away_def)
qed

lemma away_views:
  "rinv away" "rnv away = report_nv ''C'' ''kg'' ''a'' townU" "rsv ''A'' away = upd_item ''kg'' ''a'' ''1'' townS"
  "rsv ''B'' away = upd_item ''kg'' ''a'' ''1'' townS" "rsv ''C'' away = townS"
  using away_at by (auto simp: sat_def fun_eq_iff)

lemma town_missed: "\<forall>(kg, i) \<in> nv_fail (rnv town) c. ok_name kg"
  by (simp add: town_views)


section \<open>Appending\<close>

text \<open>A log with one member, on which \<open>u\<close> may append. The run is evaluated.\<close>

definition logbook :: world where
  "logbook = snd (ns_AddUserPermissions (rnase ''A'') ''u'' ''Update'' ''log''
     (snd (st_CreateKeygroup (rstore ''A'') ''log''
       (snd (ns_CreateKeygroup (rnase ''A'') ''log'' False 0
         (snd (ns_RegisterSelf (rnase ''A'') ''A'' ''A'' boot)))))))"

definition entry :: Item where
  "entry = \<lparr>iKeygroup = ''log'', iID = [], iVal = ''x''\<rparr>"

lemma logbook_run:
  "fst (HandleAppend (front (rnode AB) ''A'') ''u'' entry logbook) = Ok (entry\<lparr>iID := ''0''\<rparr>)"
  by code_simp

lemma named_at:
  assumes "at SV U w" "m \<in> set rhosts" "ok_name kg" "kg \<notin> nv_kgs U"
  shows "at SV (create_nv m kg mut 0 U) (snd (ns_CreateKeygroup (rnase m) kg mut 0 w))"
proof -
  from run_at [OF ref.naseCreate_c [where S = AB, OF assms(2,3) int64_0] assms(1)] assms(4) show ?thesis
    by (auto simp: rnode_simps)
qed

lemma granted_at:
  assumes "at SV U w" "m \<in> set rhosts" "ok_name u" "ok_name kg" "ok_name mt"
  shows "at SV (grant_nv u kg mt U) (snd (ns_AddUserPermissions (rnase m) u mt kg w))"
proof -
  from run_at [OF ref.grant_c [where S = AB, OF assms(2-5)] assms(1)] show ?thesis by auto
qed

lemma logbook_at:
  "at ((\<lambda>_. none)(''A'' := add_kg ''log'' none))
     (grant_nv ''u'' ''log'' ''Update'' (create_nv ''A'' ''log'' False 0 (register_nv ''A'' ''A'' ''A'' nobody))) logbook"
proof -
  have names: "ok_name ''log''" "ok_name ''Update''" by (simp_all add: ok_name_def sep_def)
  have new: "''log'' \<notin> nv_kgs (register_nv ''A'' ''A'' ''A'' nobody)" by (simp add: register_nv_def)
  show ?thesis
    using granted_at [OF found_at [OF named_at [OF entered_at [OF nodes3(1) boot_at] nodes3(1) names(1) new, of False]
      nodes3(1) valid_names(2)] nodes3(1) ok_u(1) names]
    by (simp add: logbook_def)
qed

lemma logbook_views:
  "rinv logbook" "nv_mem (rnv logbook) ''log'' = {''A''}" "nv_addr (rnv logbook) = [''A'' \<mapsto> ''A'']"
  using logbook_at by (auto simp: sat_def grant_nv_def create_nv_def register_nv_def nobody_def)

lemma entry_ok: "ok_name (iKeygroup entry)" "placed (set rhosts) (\<lambda>m. m) (rnv logbook) (iKeygroup entry)"
  by (simp_all add: entry_def placed_def logbook_views)

text \<open>Creating the keygroup has opened the sequence of its numbers, and there are no items.\<close>

lemma logbook_log: "log_ok mem_view ''log'' (w_db logbook ''A'')"
proof -
  have seqs: "m_seqs (bdb (w_db logbook ''A'')) = [Some (makeLogConfigKeyName ''log'')]"
    "bseq (w_db logbook ''A'') ''log'' = Some 0" by code_simp+
  have "rsv ''A'' logbook = add_kg ''log'' none" using logbook_at by (auto simp: sat_def dest: fun_cong [where x = "''A''"])
  then have "sv_items (bstore_view mem_view (w_db logbook ''A'')) ''log'' j = None" for j
    by (simp add: rsv_def add_kg_fields none_def)
  moreover have "binv mem_view (w_db logbook ''A'')" using logbook_views(1) by (simp add: rinv_def)
  ultimately show ?thesis
    by (auto simp: log_ok_def seq_at_def seq_single_def mem_view_def seq_of_def seqs split: if_splits)
qed


end
