(* ===== verification/Machine_Witnesses.thy ===== *)
theory Machine_Witnesses
  imports Cluster_Machine Replica_Witnesses
begin

text \<open>Steps of the executable cluster.\<close>

lemma ref_addr: "\<forall>a \<in> set rhosts. a \<noteq> [] \<and> peer_address (rnode AB a) = a"
  by (auto simp: rhosts_def peer_address_def rnode_def)

lemma town_wf: "nase_wf (set rhosts) (\<lambda>m. m) (rnv town)"
  using town_placed by (auto simp: nase_wf_def town_views split: if_splits)

lemma town_reach: "reachable (set rhosts) (rnode AB) (\<lambda>m. m) rnv town town1"
proof (rule reachable.next_world [OF reachable.here], rule step.request [where a = "''A''" and u = "''u''"])
  show "handle (front (rnode AB) ''A'') ''u'' (UpdateItem it1) town = (Ok (), town1)" by (simp add: town_update)
qed (simp_all add: town_views)

theorem reachable_invariant_witness:
  "reachable (set rhosts) (rnode AB) (\<lambda>m. m) rnv town town1 \<and> rinv town1 \<and> nv_mem (rnv town1) ''log'' \<noteq> {}"
  using reachable_invariant [OF refc ref_addr town_views(1) town_wf town_reach] town_reach
  by (auto dest: bspec [where x = "''log''"])

lemma pair_wf: "nase_wf (set rhosts) (\<lambda>m. m) (rnv pair)"
  by (auto simp: nase_wf_def registered_def placed_def pair_views rhosts_def split: if_splits)

lemma pair_reach: "reachable (set rhosts) (rnode AB) (\<lambda>m. m) rnv pair pair_deleted"
proof (rule reachable.next_world [OF reachable.here], rule step.request [where a = "''A''" and u = "''u''"])
  show "handle (front (rnode AB) ''A'') ''u'' (DeleteKeygroup k1) pair = (Ok (), pair_deleted)" by (simp add: pair_delete)
qed (simp_all add: pair_views)

text \<open>The owner of a deleted keygroup asks for its replicas.\<close>

theorem request_panics_iff_witness:
  "fst (handle (front (rnode AB) ''B'') ''v'' (DeleteKeygroup k1) pair_deleted) \<noteq> Panic \<and>
   fst (handle (front (rnode AB) ''A'') ''u'' (GetKeygroupReplica k1) pair_deleted) = Panic"
  using request_panics_iff [OF refc ref_addr pair_views(1) pair_wf pair_reach nodes3(2) ok_u(2), of "DeleteKeygroup k1"]
    request_panics_iff [OF refc ref_addr pair_views(1) pair_wf pair_reach nodes3(1) ok_u(1), of "GetKeygroupReplica k1"]
  by (simp add: pair_deleted_nv delete_nv_def pair_views owner_def)

lemma registered3_wf: "nase_wf (set rhosts) (\<lambda>m. m) (rnv registered3)"
  by (auto simp: nase_wf_def registered3_views registered_def placed_def rhosts_def split: if_splits)

theorem permission_origin_witness:
  "handle (front (rnode AB) ''A'') ''u'' (CreateKeygroup k1) registered3 = (Ok (), single) \<and>
   ''Read'' \<in> nv_perm (rnv single) ''u'' ''kg'' \<and> ''Read'' \<notin> nv_perm (rnv registered3) ''u'' ''kg'' \<and>
   ''kg'' \<notin> nv_kgs (rnv registered3)"
proof -
  have run: "handle (front (rnode AB) ''A'') ''u'' (CreateKeygroup k1) registered3 = (Ok (), single)"
    by (simp add: single_run)
  have new: "''Read'' \<in> nv_perm (rnv single) ''u'' ''kg''" "''Read'' \<notin> nv_perm (rnv registered3) ''u'' ''kg''"
    by (simp_all add: single_views registered3_views owner_def)
  have "named (CreateKeygroup k1)" by simp
  from permission_origin [OF refc ref_addr registered3_views(1) registered3_wf reachable.here nodes3(1) ok_u(1) this run new]
  show ?thesis using run new by simp
qed

end
