(* ===== verification/Api_Witnesses.thy ===== *)
theory Api_Witnesses
  imports Api_Properties Proxy_Reference Machine_Witnesses
begin

text \<open>Requests of the client \<open>u\<close> to node \<open>A\<close> and to the proxy of the executable cluster.\<close>

abbreviation kg_request :: client_request where
  "kg_request \<equiv> CreateKeygroupRequest (Name k1) (Mutable k1) (Expiry k1)"

lemma direct_user: "CheckCert (rsrv AB False ''A'') (client_ctx ''u'' md) = Ok ''u''"
proof -
  have "SplitHostPort ''10.0.0.1:5000'' = Ok (''10.0.0.1'', ''5000'')" by code_simp
  then show ?thesis by (simp add: CheckCert_def rsrv_def peer_cert_def rctx_def client_ctx_def rpool_def)
qed

lemma proxied_client: "client_named rpool rctx (client_ctx ''u'' md) ''u''"
proof -
  have "SplitHostPort ''10.0.0.1:5000'' = Ok (''10.0.0.1'', ''5000'')" by code_simp
  then show ?thesis by (simp add: client_named_def peer_cert_def rctx_def client_ctx_def rpool_def)
qed

text \<open>A direct client is served under the name in its certificate, whatever it says in its metadata.\<close>

theorem CheckCert_user_witness:
  "CheckCert (rsrv AB False ''A'') (client_ctx ''u'' [(''user'', [''somebody''])]) =
     CheckCert (rsrv AB False ''A'') (client_ctx ''u'' []) \<and>
   CheckCert (rsrv AB False ''A'') (client_ctx ''u'' []) = Ok ''u''"
  using CheckCert_user [of "rsrv AB False ''A''" "client_ctx ''u'' []" "''u''" "client_ctx ''u'' [(''user'', [''somebody''])]"]
    direct_user by (simp add: rsrv_def rctx_def client_ctx_def)

theorem api_request_safe_witness:
  "\<exists>resp. serve (rsrv AB False ''A'') (client_ctx ''u'' []) kg_request registered3 = (Ok resp, single) \<and>
     reachable (set rhosts) (rnode AB) (\<lambda>m. m) rnv registered3 single \<and>
     ''Read'' \<in> nv_perm (rnv single) ''u'' ''kg''"
proof -
  let ?s = "rsrv AB False ''A''" and ?c = "client_ctx ''u'' []"
  have run: "serve ?s ?c kg_request registered3 =
      (Ok (StatusMsg \<lparr>Status = EnumStatus_OK, ErrorMessage = []\<rparr>), single)"
    unfolding serve_verified [OF direct_user]
    using single_run by (simp add: rsrv_def reply_def status_def statusResponseFromError_def op_runs)
  have q: "named (request_of kg_request)" by simp
  have s: "s_e ?s = front (rnode AB) ''A''" by (simp add: rsrv_def)
  have addr: "nv_addr (rnv registered3) ''A'' = Some ''A''" by (simp add: registered3_views)
  have users: "\<forall>u. CheckCert ?s ?c = Ok u \<longrightarrow> ok_name u" using direct_user ok_u(1) by simp
  have "reachable (set rhosts) (rnode AB) (\<lambda>m. m) rnv registered3 single"
    using api_request_safe [OF refc ref_addr registered3_views(1) registered3_wf reachable.here nodes3(1)
        addr s users q run] by blast
  with run show ?thesis by (auto simp: single_views owner_def)
qed

text \<open>The client \<open>u\<close> pretends to be somebody else in its metadata; it is served as \<open>u\<close>.\<close>

abbreviation forged :: rcontext where
  "forged \<equiv> client_ctx ''u'' [(''user'', [''somebody''])]"

lemma kg_at_A: "targets (rproxy AB) (ReadRequest ''kg'' ''a'') host \<longleftrightarrow> host = ''A''"
proof -
  have "getHost rhash (NewProxy rhosts) ''kg'' = Ok ''A''" by code_simp
  then show ?thesis by (auto simp: targets_def rproxy_def)
qed

lemma read_at_A:
  "triple (sat rinv (\<lambda>w. (\<lambda>k. rsv k w, rnv w)) (\<lambda>k. rsv k town1, rnv town1))
     (answer (s_e (rsrv AB True ''A'')) ''u'' (ReadRequest ''kg'' ''a''))
     (\<lambda>x w. x = DataMsg ''1'') (\<lambda>_ _. False)"
proof -
  have p: "''Read'' \<in> nv_perm (rnv town1) ''u'' ''kg''" "''kg'' \<in> sv_kgs (rsv ''A'' town1)"
    "sv_items (rsv ''A'' town1) ''kg'' ''a'' = Some ''1''"
    by (simp_all add: town1_views owner_def townS_def sview_simps)
  have v: "reg_MatchString ''kg''" "reg_MatchString ''a''" by code_simp+
  show ?thesis
    unfolding answer.simps reply_def rsrv_def ApiServer.simps front_eq Let_def
    by (rule triple_seq [OF ref.HandleRead_c [where S = AB, OF nodes3(1) ok_u(1)]])
       (use p v in \<open>auto simp: wp_ret\<close>)
qed

theorem proxy_transparent_witness:
  "FromIncomingContext rctx forged = Some [(''user'', [''somebody''])] \<and>
   (\<exists>w'. proxy_serve (rproxy AB) forged (ReadRequest ''kg'' ''a'') town1 = (Ok (DataMsg ''1''), w'))"
proof -
  have md: "FromIncomingContext rctx forged = Some [(''user'', [''somebody''])]"
    by (simp add: rctx_def client_ctx_def)
  have g: "a_roots (rproxy AB) = rpool" "a_grpc (rproxy AB) = rctx" by (simp_all add: rproxy_def)
  have T: "client_named rpool rctx forged ''u'' \<and>
      FromIncomingContext rctx forged = Some [(''user'', [''somebody''])] \<and>
      (\<forall>host. targets (rproxy AB) (ReadRequest ''kg'' ''a'') host \<longrightarrow>
        triple (sat rinv (\<lambda>w. (\<lambda>k. rsv k w, rnv w)) (\<lambda>k. rsv k town1, rnv town1))
          (answer (s_e (rsrv AB True host)) ''u'' (ReadRequest ''kg'' ''a''))
          (\<lambda>x w. x = DataMsg ''1'') (\<lambda>_ _. False))"
    using proxied_client md read_at_A by (simp add: kg_at_A)
  have start: "sat rinv (\<lambda>w. (\<lambda>k. rsv k w, rnv w)) (\<lambda>k. rsv k town1, rnv town1) town1"
    using town1_views(1) by (rule sat_view)
  note P = proxy_transparent [OF rapi.api_proxy_axioms [where S = AB], unfolded g, THEN conjunct1, THEN spec,
      THEN spec, THEN mp, OF T]
  from run_at [OF P start] have "fst (proxy_serve (rproxy AB) forged (ReadRequest ''kg'' ''a'') town1) = Ok (DataMsg ''1'')"
    by (simp add: kg_at_A)
  with md show ?thesis by (metis prod.collapse)
qed

end
