(* ===== verification/Nase_Cache.thy ===== *)
theory Nase_Cache
  imports Etcd_Reference
begin

text \<open>
  The naming service in cached mode. Reads are answered from a local cache, writes drop the
  entries they outdate. Under the documented behaviour of etcd and of the cache (which may lose
  entries at any time) every operation except the list of all nodes and the collection of
  missed updates has the same result and the same effect as without a cache, as long as etcd answers
  and entries that other nodes change have been dropped by the watchers. The comparison is
  a simulation by the uncached service on an ideal etcd.
\<close>

section \<open>Simulation of operations\<close>

definition sim :: "('w \<Rightarrow> 's \<Rightarrow> bool) \<Rightarrow> ('w, 'a) op \<Rightarrow> ('s, 'a) op \<Rightarrow> bool" where
  "sim R m m0 \<longleftrightarrow> (\<forall>w s. R w s \<longrightarrow> fst (m w) = fst (m0 s) \<and> R (snd (m w)) (snd (m0 s)))"

named_theorems sim_intros "compositional rules for sim"

lemma simI:
  assumes "\<And>w s. R w s \<Longrightarrow>
    wp m (\<lambda>x w'. \<exists>s'. m0 s = (Ok x, s') \<and> R w' s') (\<lambda>e w'. \<exists>s'. m0 s = (Err e, s') \<and> R w' s') w"
  shows "sim R m m0"
  unfolding sim_def
proof (intro allI impI)
  fix w s assume "R w s"
  from assms [OF this] show "fst (m w) = fst (m0 s) \<and> R (snd (m w)) (snd (m0 s))"
    by (cases "m w") (auto simp: wp_def split: result.splits)
qed

lemma sim_ret [sim_intros]: "sim R (ret x) (ret x)" by (simp add: sim_def op_runs)
lemma sim_fail [sim_intros]: "sim R (fail e) (fail e)" by (simp add: sim_def op_runs)
lemma sim_panic [sim_intros]: "sim R panic panic" by (simp add: sim_def op_runs)
lemma sim_of_result [sim_intros]: "sim R (of_result r) (of_result r)" by (simp add: sim_def op_runs)

lemma sim_attempt [sim_intros]:
  assumes "sim R m m0" "\<And>e. sim R (h e) (h0 e)" "\<And>x. sim R (f x) (f0 x)"
  shows "sim R (attempt m h f) (attempt m0 h0 f0)"
  unfolding sim_def
proof (intro allI impI)
  fix w s assume "R w s"
  with assms(1) have "fst (m w) = fst (m0 s)" "R (snd (m w)) (snd (m0 s))" by (auto simp: sim_def)
  with assms(2,3) show "fst (attempt m h f w) = fst (attempt m0 h0 f0 s) \<and>
    R (snd (attempt m h f w)) (snd (attempt m0 h0 f0 s))"
    by (auto simp: attempt_def sim_def split: prod.splits result.splits)
qed

lemma sim_andthen [sim_intros]:
  "sim R m m0 \<Longrightarrow> (\<And>x. sim R (f x) (f0 x)) \<Longrightarrow> sim R (andthen m f) (andthen m0 f0)"
  unfolding andthen_def by (intro sim_intros)

lemma sim_wrap_err [sim_intros]: "sim R m m0 \<Longrightarrow> sim R (wrap_err m) (wrap_err m0)"
  unfolding wrap_err_def by (intro sim_intros)

lemma sim_if [sim_intros]:
  "(b \<Longrightarrow> sim R m m0) \<Longrightarrow> (\<not> b \<Longrightarrow> sim R m' m0') \<Longrightarrow> sim R (if b then m else m') (if b then m0 else m0')"
  by simp

lemma sim_case_option [sim_intros]:
  "sim R m m0 \<Longrightarrow> (\<And>x. sim R (f x) (f0 x)) \<Longrightarrow>
   sim R (case y of None \<Rightarrow> m | Some x \<Rightarrow> f x) (case y of None \<Rightarrow> m0 | Some x \<Rightarrow> f0 x)"
  by (cases y) auto

lemma sim_case_prod [sim_intros]:
  "(\<And>x y. sim R (f x y) (f0 x y)) \<Longrightarrow> sim R (case p of (x, y) \<Rightarrow> f x y) (case p of (x, y) \<Rightarrow> f0 x y)"
  by (cases p) auto

lemma sim_andthen_post:
  assumes "sim R m m0" "\<And>w x w'. m w = (Ok x, w') \<Longrightarrow> P x" "\<And>x. P x \<Longrightarrow> sim R (f x) (f0 x)"
  shows "sim R (andthen m f) (andthen m0 f0)"
  unfolding sim_def
proof (intro allI impI)
  fix w s assume "R w s"
  with assms(1) have "fst (m w) = fst (m0 s)" "R (snd (m w)) (snd (m0 s))" by (auto simp: sim_def)
  with assms(2) [of w] assms(3) show "fst (andthen m f w) = fst (andthen m0 f0 s) \<and>
    R (snd (andthen m f w)) (snd (andthen m0 f0 s))"
    by (cases "m w"; cases "m0 s") (auto simp: andthen_def attempt_def sim_def op_runs split: result.splits)
qed

section \<open>Keys in the cache\<close>

text \<open>
  Keys that are read one by one, and prefixes that every write below them drops. The prefixes of
  all nodes and of the missed updates of a node are not among them.
\<close>

inductive exact_key :: "string \<Rightarrow> bool" where
  status: "ok_name kg \<Longrightarrow> exact_key (joinl (p_status kg))"
| mutable: "ok_name kg \<Longrightarrow> exact_key (joinl (p_mutable kg))"
| expiry: "ok_name kg \<Longrightarrow> ok_name m \<Longrightarrow> exact_key (joinl (p_expiry kg m))"
| addr: "ok_name m \<Longrightarrow> exact_key (joinl (p_addr m))"

inductive fresh_prefix :: "string \<Rightarrow> bool" where
  members: "ok_name kg \<Longrightarrow> fresh_prefix (fmtKgNodeStringPrefix kg)"
| permissions: "ok_name u \<Longrightarrow> ok_name kg \<Longrightarrow> fresh_prefix (fmtUserPermissionStringPrefix u kg)"

text \<open>Every fresh prefix of a written key is among the prefixes that the write drops.\<close>

definition covers :: "string \<Rightarrow> string list \<Rightarrow> bool" where
  "covers k ps \<longleftrightarrow> (\<forall>p. fresh_prefix p \<longrightarrow> prefix p k \<longrightarrow> p \<in> set ps)"

lemma fresh_prefix_of:
  assumes "fresh_prefix p" "prefix p (joinl xs)" "list_all ok_name xs" "xs \<noteq> []"
  shows "(\<exists>kg y ys. p = fmtKgNodeStringPrefix kg \<and> xs = ''kg'' # kg # ''node'' # y # ys) \<or>
    (\<exists>u kg y ys. p = fmtUserPermissionStringPrefix u kg \<and> xs = ''user'' # u # ''kg'' # kg # ''method'' # y # ys)"
  using assms(1)
proof cases
  case (members kg)
  then show ?thesis
    using assms(2-4) prefix_joinl [of "[''kg'', kg, ''node'']" xs] by (auto simp: prefix_paths)
next
  case (permissions u kg)
  then show ?thesis
    using assms(2-4) prefix_joinl [of "[''user'', u, ''kg'', kg, ''method'']" xs] by (auto simp: prefix_paths)
qed

lemma exact_not_prefix: "exact_key k \<Longrightarrow> \<not> fresh_prefix k"
  by (auto elim!: exact_key.cases dest!: fresh_prefix_of [OF _ prefix_order.refl])

lemma covers_paths:
  "ok_name kg \<Longrightarrow> covers (joinl (p_status kg)) ps" "ok_name kg \<Longrightarrow> covers (joinl (p_mutable kg)) ps"
  "ok_name kg \<Longrightarrow> ok_name m \<Longrightarrow> covers (joinl (p_expiry kg m)) ps"
  "ok_name m \<Longrightarrow> covers (joinl (p_addr m)) ps" "ok_name m \<Longrightarrow> covers (joinl (p_ext m)) ps"
  "ok_name m \<Longrightarrow> ok_name kg \<Longrightarrow> ok_name i \<Longrightarrow> covers (joinl (p_fail m kg i)) ps"
  "ok_name kg \<Longrightarrow> ok_name m \<Longrightarrow> covers (joinl (p_member kg m)) [fmtKgNodeStringPrefix kg]"
  "ok_name u \<Longrightarrow> ok_name kg \<Longrightarrow> ok_name m \<Longrightarrow> covers (joinl (p_perm u kg m)) [fmtUserPermissionStringPrefix u kg]"
  by (auto simp: covers_def dest!: fresh_prefix_of)

lemma exact_not_below: "exact_key k \<Longrightarrow> fresh_prefix p \<Longrightarrow> \<not> prefix p k"
proof -
  assume "exact_key k" "fresh_prefix p"
  moreover from this have "covers k []" by (auto elim!: exact_key.cases intro: covers_paths)
  ultimately show ?thesis by (auto simp: covers_def)
qed

lemma fresh_prefix_path: "fresh_prefix p \<Longrightarrow> \<exists>xs. p = joinl (xs @ [[]]) \<and> list_all ok_name (xs @ [[]]) \<and>
    (xs \<in> range (\<lambda>kg. [''kg'', kg, ''node'']) \<or> xs \<in> range (\<lambda>(u, kg). [''user'', u, ''kg'', kg, ''method'']))"
  by (elim fresh_prefix.cases) (force simp: prefix_paths joinl.simps ok_name_def sep_def)+

lemma fresh_prefix_prefix: "fresh_prefix p \<Longrightarrow> fresh_prefix q \<Longrightarrow> prefix p q \<Longrightarrow> p = q"
  using fresh_prefix_path [of q] by (auto dest!: fresh_prefix_of [of p] simp: prefix_paths joinl.simps)

lemma fresh_prefixes_apart: "fresh_prefix p \<Longrightarrow> fresh_prefix q \<Longrightarrow> prefix p k \<Longrightarrow> prefix q k \<Longrightarrow> p = q"
  by (metis fresh_prefix_prefix prefix_same_cases)

section \<open>Coherence\<close>

definition entries_of :: "(string \<rightharpoonup> string) \<Rightarrow> string \<Rightarrow> (string \<times> string) list \<Rightarrow> bool" where
  "entries_of K p m \<longleftrightarrow> sorted_wrt (<) (map fst m) \<and> (\<forall>k v. (k, v) \<in> set m \<longleftrightarrow> K k = Some v \<and> prefix p k)"

definition entry_ok :: "(string \<rightharpoonup> string) \<Rightarrow> string \<Rightarrow> cval \<Rightarrow> bool" where
  "entry_ok K k c =
     (case c of
        CStr v \<Rightarrow> exact_key k \<and> v = (case K k of None \<Rightarrow> [] | Some x \<Rightarrow> x)
      | CMap m \<Rightarrow> \<not> exact_key k \<and> (fresh_prefix k \<longrightarrow> entries_of K k m))"

definition coherent :: "(string \<rightharpoonup> cval) \<Rightarrow> (string \<rightharpoonup> string) \<Rightarrow> bool" where
  "coherent C K \<longleftrightarrow> (\<forall>k c. C k = Some c \<longrightarrow> entry_ok K k c)"

lemma coherentD: "coherent C K \<Longrightarrow> C k = Some c \<Longrightarrow> entry_ok K k c"
  by (simp add: coherent_def)

lemma entries_of_unique: "entries_of K p m \<Longrightarrow> entries_of K p m' \<Longrightarrow> m = m'"
proof -
  assume m: "entries_of K p m" and m': "entries_of K p m'"
  then have "set m = set m'" by (auto simp: entries_of_def)
  moreover from this have "map fst m = map fst m'"
    using m m' by (intro sorted_distinct_set_unique) (auto simp: entries_of_def strict_sorted_iff)
  moreover have "inj_on fst (set m \<union> set m')"
    using m m' by (force simp: entries_of_def inj_on_def)
  ultimately show "m = m'" by (metis map_inj_on)
qed

lemma coherent_change:
  assumes "coherent C K" "\<And>k' c. C' k' = Some c \<Longrightarrow> C k' = Some c"
    and "\<And>k' c. C' k' = Some c \<Longrightarrow> exact_key k' \<Longrightarrow> K' k' = K k'"
    and "\<And>p k' c. C' p = Some c \<Longrightarrow> fresh_prefix p \<Longrightarrow> prefix p k' \<Longrightarrow> K' k' = K k'"
  shows "coherent C' K'"
  unfolding coherent_def
proof (intro allI impI)
  fix k c assume c: "C' k = Some c"
  with assms(1,2) have "entry_ok K k c" by (auto simp: coherent_def)
  then show "entry_ok K' k c"
    using assms(3) [OF c] assms(4) [OF c] by (auto simp: entry_ok_def entries_of_def split: cval.splits)
qed

section \<open>Names of members\<close>

lemma split_on_ok: "x \<in> set (split_on sep s) \<Longrightarrow> ok_name x"
  by (induction s arbitrary: x) (auto simp: ok_name_def split: list.splits if_splits)

lemma node_name_ok: "ok_name (getNodeNameFromKgNodeString k)"
  unfolding getNodeNameFromKgNodeString_def by (rule split_on_ok [OF last_in_set [OF split_on_nonempty]])

lemma members_loop_names:
  assumes "members_loop n kg excl kvs ids w = (Ok (ids', err), w')" "\<forall>i \<in> fst ` set ids. ok_name i"
  shows "\<forall>i \<in> fst ` set ids'. ok_name i"
  using assms
proof (induction kvs arbitrary: ids w)
  case (Cons p kvs)
  have put: "\<forall>i \<in> fst ` set (map_put (getNodeNameFromKgNodeString k) x ids). ok_name i" for k x
    using Cons.prems(2) node_name_ok by (auto simp: fst_map_put)
  show ?case
    using Cons.prems put Cons.IH
    by (cases p) (auto simp: Let_def op_runs attempt_def split: if_splits prod.splits result.splits)
qed (simp add: op_runs)

lemma members_names:
  assumes "GetKeygroupMembers n kg excl w = (Ok (ids, err), w')" "perm_order (e_range (cli n))"
  shows "\<forall>i \<in> fst ` set ids. ok_name i"
proof -
  have rng: "fst ` set (range_map (e_range (cli n)) m) = fst ` set m" for m :: "(string \<times> int) list"
    using perm_order_set [OF assms(2)] by (metis image_set range_map_fst)
  consider "ids = []" | m where "\<forall>i \<in> fst ` set m. ok_name i" "ids = range_map (e_range (cli n)) m"
    using assms(1)
    by (force simp: GetKeygroupMembers_def op_runs elim!: attempt_OkE andthen_OkE dest: members_loop_names)
  then show ?thesis
  proof cases
    case 2
    then show ?thesis by (simp only: rng)
  qed simp
qed

section \<open>What etcd and the cache promise\<close>

text \<open>
  \<open>cached_at\<close>: etcd holds \<open>K\<close>, and the cache holds at most \<open>C\<close>. An entry can be gone whenever the
  cache is asked, because it was evicted or a watcher dropped it.
\<close>

definition cached_at ::
  "('w \<Rightarrow> bool) \<Rightarrow> ('w \<Rightarrow> string \<rightharpoonup> string) \<Rightarrow> ('w \<Rightarrow> string \<rightharpoonup> cval) \<Rightarrow> (string \<rightharpoonup> string) \<Rightarrow> (string \<rightharpoonup> cval)
     \<Rightarrow> 'w \<Rightarrow> bool" where
  "cached_at frame kv cache K C w \<longleftrightarrow> frame w \<and> kv w = K \<and> cache w \<subseteq>\<^sub>m C"

text \<open>The uncached service of the same node on an ideal etcd, an association list.\<close>

definition ideal_nase :: "'w EtcdNase \<Rightarrow> kvs EtcdNase" where
  "ideal_nase n = \<lparr>cli = (ref_etcd id (\<lambda>kv _. kv))\<lparr>e_range := e_range (cli n)\<rparr>, cached = False,
     n_NodeID = n_NodeID n\<rparr>"

definition mirrors ::
  "('w \<Rightarrow> bool) \<Rightarrow> ('w \<Rightarrow> string \<rightharpoonup> string) \<Rightarrow> ('w \<Rightarrow> string \<rightharpoonup> cval) \<Rightarrow> 'w \<Rightarrow> kvs \<Rightarrow> bool" where
  "mirrors frame kv cache w s \<longleftrightarrow>
     (\<exists>C. cached_at frame kv cache (map_of s) C w \<and> coherent C (map_of s))"

locale cached_backend =
  fixes n :: "'w EtcdNase"
    and frame :: "'w \<Rightarrow> bool"
    and kv :: "'w \<Rightarrow> string \<rightharpoonup> string"
    and cache :: "'w \<Rightarrow> string \<rightharpoonup> cval"
  assumes is_cached: "cached n"
    and self_ok: "ok_name (n_NodeID n)"
    and range_perm: "perm_order (e_range (cli n))"
    and get_law: "triple (cached_at frame kv cache K C) (e_Get (cli n) k)
      (\<lambda>r w. cached_at frame kv cache K C w \<and> r = (case K k of None \<Rightarrow> [] | Some v \<Rightarrow> [(k, v)])) (\<lambda>_ _. False)"
    and getPrefix_law: "triple (cached_at frame kv cache K C) (e_GetPrefix (cli n) p)
      (\<lambda>r w. cached_at frame kv cache K C w \<and> entries_of K p r) (\<lambda>_ _. False)"
    and put_law: "triple (cached_at frame kv cache K C) (e_Put (cli n) k v)
      (\<lambda>_ w. cached_at frame kv cache (K(k \<mapsto> v)) C w) (\<lambda>_ _. False)"
    and delete_law: "triple (cached_at frame kv cache K C) (e_Delete (cli n) k)
      (\<lambda>_ w. cached_at frame kv cache (K(k := None)) C w) (\<lambda>_ _. False)"
    and deletePrefix_law: "triple (cached_at frame kv cache K C) (e_DeletePrefix (cli n) p)
      (\<lambda>_ w. cached_at frame kv cache (drop_prefix p K) C w) (\<lambda>_ _. False)"
    and cache_get: "triple (cached_at frame kv cache K C) (c_Get (cli n) k)
      (\<lambda>r w. cached_at frame kv cache K C w \<and> (r = None \<or> r = C k)) (\<lambda>_ _. False)"
    and cache_set: "triple (cached_at frame kv cache K C) (c_Set (cli n) k c)
      (\<lambda>_ w. cached_at frame kv cache K (C(k \<mapsto> c)) w) (\<lambda>_ _. False)"
    and cache_del: "triple (cached_at frame kv cache K C) (c_Del (cli n) k)
      (\<lambda>_ w. cached_at frame kv cache K (C(k := None)) w) (\<lambda>_ _. False)"
    and cache_watch: "triple (cached_at frame kv cache K C) (c_Watch (cli n) k b)
      (\<lambda>_ w. cached_at frame kv cache K C w) (\<lambda>_ _. False)"
begin

abbreviation at :: "(string \<rightharpoonup> string) \<Rightarrow> (string \<rightharpoonup> cval) \<Rightarrow> 'w \<Rightarrow> bool" where
  "at \<equiv> cached_at frame kv cache"

abbreviation n0 :: "kvs EtcdNase" where
  "n0 \<equiv> ideal_nase n"

abbreviation R :: "'w \<Rightarrow> kvs \<Rightarrow> bool" where
  "R \<equiv> mirrors frame kv cache"

lemmas R_def = mirrors_def [of frame kv cache]

lemma RI: "at (map_of s) C w \<Longrightarrow> coherent C (map_of s) \<Longrightarrow> R w s"
  by (auto simp: R_def)

subsection \<open>The uncached service on the ideal etcd\<close>

lemma n0_simps [simp]:
  "cached n0 = False" "n_NodeID n0 = n_NodeID n" "e_range (cli n0) = e_range (cli n)"
  "e_Get (cli n0) k s = (Ok (case map_of s k of None \<Rightarrow> [] | Some v \<Rightarrow> [(k, v)]), s)"
  "e_Put (cli n0) k v s = (Ok (), (k, v) # s)"
  "e_Delete (cli n0) k s = (Ok (), kv_del (\<lambda>k'. k' = k) s)"
  "e_DeletePrefix (cli n0) p s = (Ok (), kv_del (prefix p) s)"
  by (simp_all add: ideal_nase_def ref_etcd_def)

lemma n0_entries:
  "\<exists>m. e_GetPrefix (cli n0) p s = (Ok m, s) \<and> entries_of (map_of s) p m"
  by (auto simp: ideal_nase_def ref_etcd_def entries_of_def comp_def sorted_kv_keys kv_scan simp del: set_map)

lemma getExact_n0: "getExact n0 k s = (Ok (case map_of s k of None \<Rightarrow> [] | Some v \<Rightarrow> v), s)"
  by (simp add: getExact_def Let_def andthen_def attempt_def wrap_err_def op_runs split: option.splits)

lemma foldl_entries: "entries_of K p m \<Longrightarrow> foldl (\<lambda>m (k, v). map_put k v m) [] m = m"
  using foldl_map_put [of "[]" m] by (simp add: entries_of_def strict_sorted_iff)

lemma getPrefix_n0:
  assumes m: "entries_of (map_of s) p m"
  shows "getPrefix n0 p s = (Ok m, s)"
proof -
  obtain m' where "e_GetPrefix (cli n0) p s = (Ok m', s)" "entries_of (map_of s) p m'"
    using n0_entries by blast
  moreover from this have "m' = m" using m by (simp add: entries_of_unique)
  ultimately show ?thesis
    using foldl_entries [OF m]
    by (simp add: getPrefix_def Let_def andthen_def attempt_def wrap_err_def op_runs)
qed

lemma nput_n0: "nput n0 k v ps s = (Ok (), (k, v) # s)"
  by (simp add: nput_def invalidate_def wrap_err_def attempt_def op_runs)

lemma ndelete_n0: "ndelete n0 k ps s = (Ok (), kv_del (\<lambda>k'. k' = k) s)"
  by (simp add: ndelete_def invalidate_def wrap_err_def attempt_def op_runs)

subsection \<open>Reads and writes\<close>

lemma coherent_exact: "coherent C K \<Longrightarrow> exact_key k \<Longrightarrow> C k = Some c \<Longrightarrow>
    c = CStr (case K k of None \<Rightarrow> [] | Some x \<Rightarrow> x)"
  by (drule (1) coherentD) (simp add: entry_ok_def split: cval.splits)

lemma coherent_prefix: "coherent C K \<Longrightarrow> fresh_prefix p \<Longrightarrow> C p = Some c \<Longrightarrow> \<exists>m. c = CMap m \<and> entries_of K p m"
  by (drule (1) coherentD) (auto simp: entry_ok_def dest: exact_not_prefix split: cval.splits)

lemma coherent_set: "coherent C K \<Longrightarrow> entry_ok K k c \<Longrightarrow> coherent (C(k \<mapsto> c)) K"
  by (auto simp: coherent_def)

text \<open>A miss: the answer of etcd is stored and watched.\<close>

lemma refill:
  assumes C: "coherent C (map_of s)" and e: "entry_ok (map_of s) k c" and w: "at (map_of s) C w" and "Q x"
  shows "wp (andthen (c_Set (cli n) k c) (\<lambda>_. andthen (c_Watch (cli n) k b) (\<lambda>_. ret x)))
    (\<lambda>x w'. Q x \<and> R w' s) E w"
  unfolding wp_andthen wp_ret
  by (rule wp_call [OF cache_set w], erule wp_call [OF cache_watch])
     (use assms(4) RI [OF _ coherent_set [OF C e]] in auto)

lemma getExact_sim:
  assumes k: "exact_key k"
  shows "sim R (getExact n k) (getExact n0 k)"
proof (rule simI, unfold getExact_n0)
  fix w s assume "R w s"
  then obtain C where w: "at (map_of s) C w" and C: "coherent C (map_of s)" by (auto simp: R_def)
  let ?v = "case map_of s k of None \<Rightarrow> [] | Some x \<Rightarrow> x"
  have e: "entry_ok (map_of s) k (CStr ?v)" using k by (simp add: entry_ok_def)
  have "wp (getExact n k) (\<lambda>x w'. ?v = x \<and> R w' s) (\<lambda>e w'. False) w"
    unfolding getExact_def Let_def eqTrueI [OF is_cached] if_True wp_andthen [of "c_Get _ _"]
  proof (rule wp_call [OF cache_get w], goal_cases)
    case (1 r w1)
    show ?case
    proof (cases r)
      case None
      with 1 show ?thesis
        using refill [OF C e, of _ "\<lambda>x. ?v = x" ?v False]
        by (auto simp: wp_andthen wp_wrap_err intro!: wp_call [OF get_law] split: option.splits)
    next
      case (Some c)
      with 1 have c: "C k = Some c" by auto
      from coherent_exact [OF C k this] have "c = CStr ?v" .
      with Some conjunct1 [OF 1] show ?thesis using RI [OF _ C] by (simp add: wp_ret)
    qed
  qed
  then show "wp (getExact n k) (\<lambda>x w'. \<exists>s'. (Ok ?v, s) = (Ok x, s') \<and> R w' s')
      (\<lambda>e w'. \<exists>s'. (Ok ?v, s) = (Err e, s') \<and> R w' s') w"
    by (rule wp_mono) auto
qed

lemma getPrefix_sim:
  assumes p: "fresh_prefix p"
  shows "sim R (getPrefix n p) (getPrefix n0 p)"
proof (rule simI)
  fix w s assume "R w s"
  then obtain C where w: "at (map_of s) C w" and C: "coherent C (map_of s)" by (auto simp: R_def)
  have e: "entry_ok (map_of s) p (CMap m)" if "entries_of (map_of s) p m" for m
    using exact_not_prefix [of p] p that by (auto simp: entry_ok_def)
  have "wp (getPrefix n p) (\<lambda>x w'. entries_of (map_of s) p x \<and> R w' s) (\<lambda>e w'. False) w"
    unfolding getPrefix_def Let_def eqTrueI [OF is_cached] if_True wp_andthen [of "c_Get _ _"]
  proof (rule wp_call [OF cache_get w], goal_cases)
    case (1 r w1)
    show ?case
    proof (cases r)
      case None
      with 1 show ?thesis
        by (auto simp: wp_andthen [of "wrap_err _"] wp_wrap_err foldl_entries
            intro!: wp_call [OF getPrefix_law] refill [OF C e])
    next
      case (Some c)
      with 1 have c: "C p = Some c" by auto
      from coherent_prefix [OF C p this] obtain m where "c = CMap m" "entries_of (map_of s) p m" by blast
      with Some conjunct1 [OF 1] show ?thesis using RI [OF _ C] by (simp add: wp_ret)
    qed
  qed
  then show "wp (getPrefix n p) (\<lambda>x w'. \<exists>s'. getPrefix n0 p s = (Ok x, s') \<and> R w' s')
      (\<lambda>e w'. \<exists>s'. getPrefix n0 p s = (Err e, s') \<and> R w' s') w"
    by (rule wp_mono) (auto simp: getPrefix_n0)
qed

lemma invalidate_at:
  "triple (at K C) (invalidate n k ps) (\<lambda>_ w. at K (C |` (- insert k (set ps))) w) (\<lambda>_ _. False)"
proof -
  have drop: "triple (at K C) (foreach (c_Del (cli n)) ps) (\<lambda>_ w. at K (C |` (- set ps)) w) (\<lambda>_ _. False)" for C
  proof (induction ps arbitrary: C)
    case Nil
    then show ?case by (auto simp: triple_def wp_ret restrict_map_def)
  next
    case (Cons p ps)
    have "(C(p := None)) |` (- set ps) = C |` (- set (p # ps))" by (auto simp: restrict_map_def fun_eq_iff)
    with Cons.IH [of "C(p := None)"]
    have "triple (at K (C(p := None))) (foreach (c_Del (cli n)) ps) (\<lambda>_ w. at K (C |` (- set (p # ps))) w) (\<lambda>_ _. False)"
      by (simp only:)
    then show ?case
      unfolding foreach.simps by (intro triple_seq [OF cache_del]) (auto simp: triple_def)
  qed
  have "(C |` (- set ps))(k := None) = C |` (- insert k (set ps))" by (auto simp: restrict_map_def fun_eq_iff)
  then have "triple (at K (C |` (- set ps))) (c_Del (cli n) k) (\<lambda>_ w. at K (C |` (- insert k (set ps))) w) (\<lambda>_ _. False)"
    using cache_del [of K "C |` (- set ps)" k] by simp
  then show ?thesis
    unfolding invalidate_def eqTrueI [OF is_cached] if_True
    by (intro triple_seq [OF drop]) (auto simp: triple_def)
qed

lemma coherent_write:
  assumes "coherent C K" "covers k ps" "\<And>k'. k' \<noteq> k \<Longrightarrow> K' k' = K k'"
  shows "coherent (C |` (- insert k (set ps))) K'"
proof (rule coherent_change [OF assms(1)])
  fix p k' c assume "(C |` (- insert k (set ps))) p = Some c" "fresh_prefix p" "prefix p k'"
  then have "k' \<noteq> k" using assms(2) by (auto simp: covers_def restrict_map_def split: if_splits)
  then show "K' k' = K k'" by (rule assms(3))
qed (use assms(3) in \<open>auto simp: restrict_map_def split: if_splits\<close>)

lemma nput_sim:
  assumes "covers k ps"
  shows "sim R (nput n k v ps) (nput n0 k v ps)"
proof (rule simI, unfold nput_n0)
  fix w s assume "R w s"
  then obtain C where w: "at (map_of s) C w" and C: "coherent C (map_of s)" by (auto simp: R_def)
  have "coherent (C |` (- insert k (set ps))) (map_of ((k, v) # s))"
    by (rule coherent_write [OF C assms]) simp
  from RI [OF _ this]
  show "wp (nput n k v ps) (\<lambda>x w'. \<exists>s'. (Ok (), (k, v) # s) = (Ok x, s') \<and> R w' s')
      (\<lambda>e w'. \<exists>s'. (Ok (), (k, v) # s) = (Err e, s') \<and> R w' s') w"
    unfolding nput_def wp_andthen wp_wrap_err
    by (intro wp_call [OF invalidate_at w] wp_call [OF put_law]) auto
qed

lemma ndelete_sim:
  assumes "covers k ps"
  shows "sim R (ndelete n k ps) (ndelete n0 k ps)"
proof (rule simI, unfold ndelete_n0)
  fix w s assume "R w s"
  then obtain C where w: "at (map_of s) C w" and C: "coherent C (map_of s)" by (auto simp: R_def)
  have "coherent (C |` (- insert k (set ps))) (map_of (kv_del (\<lambda>k'. k' = k) s))"
    by (rule coherent_write [OF C assms]) (simp add: map_of_kv_del)
  from RI [OF _ this]
  show "wp (ndelete n k ps) (\<lambda>x w'. \<exists>s'. (Ok (), kv_del (\<lambda>k'. k' = k) s) = (Ok x, s') \<and> R w' s')
      (\<lambda>e w'. \<exists>s'. (Ok (), kv_del (\<lambda>k'. k' = k) s) = (Err e, s') \<and> R w' s') w"
    unfolding ndelete_def wp_andthen wp_wrap_err
    by (intro wp_call [OF invalidate_at w] wp_call [OF delete_law]) (auto simp: map_of_kv_del_key)
qed

text \<open>
  Creation removes all members in etcd and leaves the cached members alone; the entry written next
  drops them.
\<close>

lemma reset_members_sim:
  assumes kg: "ok_name kg"
  shows "sim R
    (andthen (wrap_err (e_DeletePrefix (cli n) (fmtKgNodeStringPrefix kg))) (\<lambda>_. addOwnKgNodeEntry n kg st))
    (andthen (wrap_err (e_DeletePrefix (cli n0) (fmtKgNodeStringPrefix kg))) (\<lambda>_. addOwnKgNodeEntry n0 kg st))"
    (is "sim R ?m ?i")
proof (rule simI)
  fix w s assume "R w s"
  then obtain C where w: "at (map_of s) C w" and C: "coherent C (map_of s)" by (auto simp: R_def)
  let ?p = "fmtKgNodeStringPrefix kg" let ?k = "?p @ n_NodeID n" 
  let ?s = "(?k, st) # kv_del (prefix ?p) s"
  have run: "?i s = (Ok (), ?s)"
    by (simp add: andthen_def wrap_err_def attempt_def op_runs addOwnKgNodeEntry_def fmtKgNode_def nput_n0)
  have "coherent (C |` (- insert ?k (set [?p]))) (map_of ?s)"
  proof (rule coherent_change [OF C])
    fix k' c assume k': "(C |` (- insert ?k (set [?p]))) k' = Some c" "exact_key k'"
    then have "\<not> prefix ?p k'" using exact_not_below [OF k'(2) fresh_prefix.members [OF kg]] by blast
    with k'(1) show "map_of ?s k' = map_of s k'" by (auto simp: map_of_kv_del restrict_map_def split: if_splits)
  next
    fix q k' c assume q: "(C |` (- insert ?k (set [?p]))) q = Some c" "fresh_prefix q" "prefix q k'"
    then have "\<not> prefix ?p k'" 
      using fresh_prefixes_apart [OF q(2) fresh_prefix.members [OF kg] q(3)]
      by (auto simp: restrict_map_def split: if_splits)
    moreover from this have "k' \<noteq> ?k" by auto
    ultimately show "map_of ?s k' = map_of s k'" by (simp add: map_of_kv_del)
  qed (simp add: restrict_map_def split: if_splits)
  from RI [OF _ this]
  show "wp ?m (\<lambda>x w'. \<exists>s'. ?i s = (Ok x, s') \<and> R w' s') (\<lambda>e w'. \<exists>s'. ?i s = (Err e, s') \<and> R w' s') w"
    unfolding run unfolding wp_andthen wp_wrap_err addOwnKgNodeEntry_def fmtKgNode_def prod.case nput_def
    by (intro wp_call [OF deletePrefix_law w] wp_call [OF invalidate_at] wp_call [OF put_law])
       (auto simp: map_of_kv_del_prefix)
qed

subsection \<open>The operations\<close>

lemmas cached_sims = getExact_sim getPrefix_sim nput_sim ndelete_sim reset_members_sim

lemma exists_sim: "ok_name kg \<Longrightarrow> sim R (nExistsKeygroup n kg) (nExistsKeygroup n0 kg)"
  unfolding nExistsKeygroup_def getKeygroupStatus_def key_paths
  by (intro sim_intros cached_sims exact_key.intros)

lemma mutable_sim: "ok_name kg \<Longrightarrow> sim R (IsMutable n kg) (IsMutable n0 kg)"
  unfolding IsMutable_def getKeygroupMutable_def key_paths
  by (intro sim_intros cached_sims exact_key.intros)

lemma expiry_sim: "ok_name kg \<Longrightarrow> ok_name m \<Longrightarrow> sim R (getKeygroupExpiry n kg m) (getKeygroupExpiry n0 kg m)"
  unfolding getKeygroupExpiry_def key_paths
  by (intro sim_intros cached_sims exact_key.intros)

lemma address_sim: "ok_name m \<Longrightarrow> sim R (GetNodeAddress n m) (GetNodeAddress n0 m)"
  unfolding GetNodeAddress_def key_paths by (intro sim_intros cached_sims exact_key.intros)

lemma register_sim: "sim R (RegisterSelf n host ext) (RegisterSelf n0 host ext)"
  unfolding RegisterSelf_def key_paths n0_simps by (intro sim_intros cached_sims covers_paths self_ok)

lemma revoke_sim: "ok_name u \<Longrightarrow> ok_name mt \<Longrightarrow> ok_name kg \<Longrightarrow>
    sim R (RevokeUserPermissions n u mt kg) (RevokeUserPermissions n0 u mt kg)"
  unfolding RevokeUserPermissions_def Let_def key_paths by (intro cached_sims covers_paths)

lemma grant_sim: "ok_name u \<Longrightarrow> ok_name mt \<Longrightarrow> ok_name kg \<Longrightarrow>
    sim R (AddUserPermissions n u mt kg) (AddUserPermissions n0 u mt kg)"
  unfolding AddUserPermissions_def Let_def key_paths by (intro cached_sims covers_paths)

lemma permissions_sim: "ok_name u \<Longrightarrow> ok_name kg \<Longrightarrow> sim R (GetUserPermissions n u kg) (GetUserPermissions n0 u kg)"
  unfolding GetUserPermissions_def n0_simps by (intro sim_intros cached_sims fresh_prefix.intros)

lemma report_sim: "ok_name m \<Longrightarrow> ok_name kg \<Longrightarrow> ok_name i \<Longrightarrow>
    sim R (ReportFailedNode n m kg i) (ReportFailedNode n0 m kg i)"
  unfolding ReportFailedNode_def Let_def key_paths by (intro cached_sims covers_paths)

lemma entry_sims:
  assumes "ok_name kg" "ok_name m"
  shows "sim R (addOtherKgNodeEntry n m kg st) (addOtherKgNodeEntry n0 m kg st)"
    "sim R (addKgStatusEntry n kg st) (addKgStatusEntry n0 kg st)"
    "sim R (addKgMutableEntry n kg b) (addKgMutableEntry n0 kg b)"
    "sim R (addKgExpiryEntry n kg m x) (addKgExpiryEntry n0 kg m x)"
  unfolding addOtherKgNodeEntry_def addKgStatusEntry_def addKgMutableEntry_def addKgExpiryEntry_def Let_def key_paths
  by (intro cached_sims covers_paths assms)+

lemma exit_sim: "ok_name kg \<Longrightarrow> ok_name m \<Longrightarrow>
    sim R (ExitOtherNodeFromKeygroup n kg m) (ExitOtherNodeFromKeygroup n0 kg m)"
  unfolding ExitOtherNodeFromKeygroup_def by (intro sim_intros exists_sim address_sim entry_sims)

lemma join_sim: "ok_name kg \<Longrightarrow> ok_name m \<Longrightarrow>
    sim R (JoinNodeIntoKeygroup n kg m x) (JoinNodeIntoKeygroup n0 kg m x)"
  unfolding JoinNodeIntoKeygroup_def by (intro sim_intros exists_sim address_sim entry_sims)

lemma delete_sim: "ok_name kg \<Longrightarrow> sim R (nDeleteKeygroup n kg) (nDeleteKeygroup n0 kg)"
  unfolding nDeleteKeygroup_def by (rule entry_sims(2) [OF _ self_ok])

lemma create_sim: "ok_name kg \<Longrightarrow> sim R (nCreateKeygroup n kg b x) (nCreateKeygroup n0 kg b x)"
  unfolding nCreateKeygroup_def n0_simps(2)
  by (rule sim_andthen [OF exists_sim], assumption, rule sim_if, rule sim_fail,
      (rule sim_andthen, rule entry_sims [OF _ self_ok], assumption)+, rule reset_members_sim)

lemma members_loop_sim:
  "ok_name kg \<Longrightarrow> sim R (members_loop n kg excl kvs ids) (members_loop n0 kg excl kvs ids)"
proof (induction kvs arbitrary: ids)
  case Nil
  show ?case by (simp add: sim_ret)
next
  case (Cons p kvs)
  then show ?case
    by (cases p) (auto simp: Let_def intro!: sim_intros expiry_sim node_name_ok)
qed

lemma members_sim: "ok_name kg \<Longrightarrow> sim R (GetKeygroupMembers n kg excl) (GetKeygroupMembers n0 kg excl)"
  unfolding GetKeygroupMembers_def n0_simps(2,3)
  by (intro sim_intros cached_sims fresh_prefix.intros members_loop_sim)

lemma bigger_sim: "ok_name kg \<Longrightarrow> sim R (GetNodeWithBiggerExpiry n kg) (GetNodeWithBiggerExpiry n0 kg)"
  unfolding GetNodeWithBiggerExpiry_def GetExpiry_def n0_simps(2)
proof (rule sim_attempt [OF expiry_sim sim_ret])
  assume kg: "ok_name kg"
  show "sim R (andthen (GetKeygroupMembers n kg True) (\<lambda>(nodes, err).
         if err \<noteq> None \<or> nodes = [] then ret ([], [])
         else (let best = snd (bigger_loop nodes 0 []) in
               attempt (GetNodeAddress n best) (\<lambda>_. ret (best, [])) (\<lambda>addr. ret (best, addr)))))
    (andthen (GetKeygroupMembers n0 kg True) (\<lambda>(nodes, err).
         if err \<noteq> None \<or> nodes = [] then ret ([], [])
         else (let best = snd (bigger_loop nodes 0 []) in
               attempt (GetNodeAddress n0 best) (\<lambda>_. ret (best, [])) (\<lambda>addr. ret (best, addr)))))"
  proof (rule sim_andthen_post [OF members_sim [OF kg], where P = "\<lambda>(ids, err). \<forall>i \<in> fst ` set ids. ok_name i"],
      goal_cases)
    case (1 w x w')
    then show ?case using members_names [OF _ range_perm] by (cases x) auto
  next
    case (2 x)
    obtain ids err where x: "x = (ids, err)" by force
    have "ok_name (snd (bigger_loop ids 0 []))"
      using bigger_loop_in [of ids 0 "[]"] 2 by (auto simp: x ok_name_def)
    then show ?case by (auto simp: x Let_def intro!: sim_intros address_sim)
  qed
qed (auto intro: self_ok)

lemma watch_at:
  "triple (at K C) (watch_loop n k rs) (\<lambda>_ w. at K (if \<exists>r \<in> set rs. r \<noteq> 0 then C(k := None) else C) w) (\<lambda>_ _. False)"
proof (induction rs)
  case Nil
  show ?case by (simp add: triple_def wp_ret)
next
  case (Cons r rs)
  then show ?case using cache_del [of K C k] by (cases "r = 0") (auto simp: fun_upd_def)
qed

end

section \<open>Sequences of calls\<close>

text \<open>The calls whose cached answers stay up to date, and their answers.\<close>

datatype nase_call =
    CExists string | CMutable string | CExpiry string | CAddress string | CRegister string string
  | CGrant string Method string | CRevoke string Method string | CPermissions string string
  | CCreate string bool int | CDelete string | CJoin string string int | CExit string string
  | CMembers string bool | CReport string string string | CProvider string

datatype nase_answer =
    ABool bool | AInt int | AStr string | AUnit | AMethods "Method list" | ANode "string \<times> string"
  | AMembers "(string \<times> int) list \<times> error option"

fun nase_do :: "'w NameService \<Rightarrow> nase_call \<Rightarrow> ('w, nase_answer) op" where
  "nase_do N (CExists kg) = andthen (ns_ExistsKeygroup N kg) (\<lambda>x. ret (ABool x))"
| "nase_do N (CMutable kg) = andthen (ns_IsMutable N kg) (\<lambda>x. ret (ABool x))"
| "nase_do N (CExpiry kg) = andthen (ns_GetExpiry N kg) (\<lambda>x. ret (AInt x))"
| "nase_do N (CAddress m) = andthen (ns_GetNodeAddress N m) (\<lambda>x. ret (AStr x))"
| "nase_do N (CRegister host ext) = andthen (ns_RegisterSelf N host ext) (\<lambda>_. ret AUnit)"
| "nase_do N (CGrant u mt kg) = andthen (ns_AddUserPermissions N u mt kg) (\<lambda>_. ret AUnit)"
| "nase_do N (CRevoke u mt kg) = andthen (ns_RevokeUserPermissions N u mt kg) (\<lambda>_. ret AUnit)"
| "nase_do N (CPermissions u kg) = andthen (ns_GetUserPermissions N u kg) (\<lambda>x. ret (AMethods x))"
| "nase_do N (CCreate kg b x) = andthen (ns_CreateKeygroup N kg b x) (\<lambda>_. ret AUnit)"
| "nase_do N (CDelete kg) = andthen (ns_DeleteKeygroup N kg) (\<lambda>_. ret AUnit)"
| "nase_do N (CJoin kg m x) = andthen (ns_JoinNodeIntoKeygroup N kg m x) (\<lambda>_. ret AUnit)"
| "nase_do N (CExit kg m) = andthen (ns_ExitOtherNodeFromKeygroup N kg m) (\<lambda>_. ret AUnit)"
| "nase_do N (CMembers kg b) = andthen (ns_GetKeygroupMembers N kg b) (\<lambda>x. ret (AMembers x))"
| "nase_do N (CReport m kg i) = andthen (ns_ReportFailedNode N m kg i) (\<lambda>_. ret AUnit)"
| "nase_do N (CProvider kg) = andthen (ns_GetNodeWithBiggerExpiry N kg) (\<lambda>x. ret (ANode x))"

fun call_names :: "nase_call \<Rightarrow> string list" where
  "call_names (CExists kg) = [kg]"
| "call_names (CMutable kg) = [kg]"
| "call_names (CExpiry kg) = [kg]"
| "call_names (CAddress m) = [m]"
| "call_names (CRegister host ext) = []"
| "call_names (CGrant u mt kg) = [u, mt, kg]"
| "call_names (CRevoke u mt kg) = [u, mt, kg]"
| "call_names (CPermissions u kg) = [u, kg]"
| "call_names (CCreate kg b x) = [kg]"
| "call_names (CDelete kg) = [kg]"
| "call_names (CJoin kg m x) = [kg, m]"
| "call_names (CExit kg m) = [kg, m]"
| "call_names (CMembers kg b) = [kg]"
| "call_names (CReport m kg i) = [m, kg, i]"
| "call_names (CProvider kg) = [kg]"

text \<open>An entry whose watcher has seen a change of etcd from \<open>K\<close> to \<open>K'\<close>.\<close>

definition changed :: "(string \<rightharpoonup> string) \<Rightarrow> (string \<rightharpoonup> string) \<Rightarrow> string \<Rightarrow> cval \<Rightarrow> bool" where
  "changed K K' k c = (case c of CStr _ \<Rightarrow> K k \<noteq> K' k | CMap _ \<Rightarrow> (\<exists>k'. prefix k k' \<and> K k' \<noteq> K' k'))"

text \<open>
  Runs of the cached service on a world next to runs of the uncached one on the ideal etcd, with
  the answers so far, last first. Between two calls other nodes may change etcd; then the
  watchers drop the entries they saw changing.
\<close>

inductive side_by_side ::
  "'w EtcdNase \<Rightarrow> ('w \<Rightarrow> bool) \<Rightarrow> ('w \<Rightarrow> string \<rightharpoonup> string) \<Rightarrow> ('w \<Rightarrow> string \<rightharpoonup> cval) \<Rightarrow>
   'w \<Rightarrow> kvs \<Rightarrow> nase_answer result list \<Rightarrow> nase_answer result list \<Rightarrow> bool"
  for n frame kv cache where
  start: "frame w \<Longrightarrow> cache w = Map.empty \<Longrightarrow> kv w = map_of s \<Longrightarrow> side_by_side n frame kv cache w s [] []"
| call: "side_by_side n frame kv cache w s as bs \<Longrightarrow> list_all ok_name (call_names c) \<Longrightarrow>
    nase_do (etcdnase_NameService n) c w = (a, w') \<Longrightarrow>
    nase_do (etcdnase_NameService (ideal_nase n)) c s = (b, s') \<Longrightarrow>
    side_by_side n frame kv cache w' s' (a # as) (b # bs)"
| others: "side_by_side n frame kv cache w s as bs \<Longrightarrow> frame w' \<Longrightarrow> kv w' = map_of s' \<Longrightarrow>
    (\<And>k c. cache w' k = Some c \<Longrightarrow> cache w k = Some c \<and> \<not> changed (kv w) (kv w') k c) \<Longrightarrow>
    side_by_side n frame kv cache w' s' as bs"

context cached_backend
begin

lemmas call_sims = exists_sim mutable_sim expiry_sim address_sim register_sim grant_sim revoke_sim
  permissions_sim create_sim delete_sim join_sim exit_sim members_sim report_sim bigger_sim

lemma nase_do_sim:
  assumes "list_all ok_name (call_names c)"
  shows "sim R (nase_do (etcdnase_NameService n) c) (nase_do (etcdnase_NameService n0) c)"
  using assms unfolding etcdnase_NameService_def GetExpiry_def
  by (cases c) (simp_all add: n0_simps(2) sim_andthen sim_ret call_sims self_ok)

lemma coherent_unchanged:
  assumes "coherent C K" "\<And>k c. C' k = Some c \<Longrightarrow> C k = Some c \<and> \<not> changed K K' k c"
  shows "coherent C' K'"
  unfolding coherent_def
proof (intro allI impI)
  fix k c assume "C' k = Some c"
  with assms have "entry_ok K k c" "\<not> changed K K' k c" by (auto simp: coherent_def)
  then show "entry_ok K' k c" by (auto simp: entry_ok_def changed_def entries_of_def split: cval.splits)
qed

lemma side_by_side_mirrors:
  "side_by_side n frame kv cache w s as bs \<Longrightarrow> R w s \<and> as = bs"
proof (induction rule: side_by_side.induct)
  case (start w s)
  then show ?case by (auto simp: R_def cached_at_def coherent_def intro: exI [of _ Map.empty])
next
  case (call w s as bs c a w' b s')
  then show ?case using nase_do_sim [OF call.hyps(2)] by (fastforce simp: sim_def)
next
  case (others w s as bs w' s')
  then obtain C where C: "at (map_of s) C w" "coherent C (map_of s)" by (auto simp: R_def)
  have "coherent (cache w') (map_of s')"
  proof (rule coherent_unchanged [OF C(2)])
    fix k c assume "cache w' k = Some c"
    with others.hyps(4) have "cache w k = Some c \<and> \<not> changed (kv w) (kv w') k c" by blast
    then show "C k = Some c \<and> \<not> changed (map_of s) (map_of s') k c"
      using C(1) others.hyps(3) by (auto simp: cached_at_def map_le_def dom_def)
  qed
  then show ?case using others by (auto simp: cached_at_def intro!: RI [of _ "cache w'"])
qed

end

text \<open>C18: while etcd answers, the naming service in cached mode gives, in every sequence of the fifteen
  calls of \<open>nase_call\<close> with proper names, exactly the answers the uncached service gives on the same
  etcd, the errors of the service included, and makes the same changes. Changes that other nodes make
  in between count once the watchers have dropped the entries of the cache they touch. The calls left
  out are \<open>GetAllNodes\<close>, \<open>GetAllNodesExternal\<close> and \<open>RequestNodeStatus\<close>: they are cached under a prefix that
  the writes of the same process do not drop, so that the claim is false for them until a watcher fires
  (\<open>cached_status_stale\<close>).\<close>

theorem cached_nase_equivalent:
  assumes "cached_backend n frame kv cache" "side_by_side n frame kv cache w s as bs"
  shows "as = bs \<and> kv w = map_of s"
  using cached_backend.side_by_side_mirrors [OF assms] by (auto simp: mirrors_def cached_at_def)

section \<open>An executable cached service\<close>

type_synonym cworld = "kvs \<times> (string \<times> cval) list"

definition cw_etcd :: "cworld etcd" where
  "cw_etcd = (ref_etcd fst (\<lambda>kv (_, c). (kv, c)))\<lparr>
     c_Get := (\<lambda>k w. (Ok (map_of (snd w) k), w)),
     c_Set := (\<lambda>k v (kv, c). (Ok (), (kv, (k, v) # c))),
     c_Del := (\<lambda>k (kv, c). (Ok (), (kv, filter (\<lambda>(k', _). k' \<noteq> k) c))),
     c_Watch := (\<lambda>k b. ret ())\<rparr>"

definition cw_nase :: "string \<Rightarrow> cworld EtcdNase" where
  "cw_nase m = \<lparr>cli = cw_etcd, cached = True, n_NodeID = m\<rparr>"

lemma map_of_filter_key: "map_of (filter (\<lambda>(k', _). k' \<noteq> k) c) = (map_of c)(k := None)"
  by (induction c) auto

lemma cw_backend:
  assumes "ok_name m"
  shows "cached_backend (cw_nase m) (\<lambda>_. True) (\<lambda>w. map_of (fst w)) (\<lambda>w. map_of (snd w))"
proof -
  have le: "C \<subseteq>\<^sub>m C' \<Longrightarrow> C(k := x) \<subseteq>\<^sub>m C'(k := x)" for C C' :: "string \<rightharpoonup> cval" and k x
    by (auto simp: map_le_def dom_def)
  have get: "C k = None \<or> C k = C' k" if "C \<subseteq>\<^sub>m C'" for C C' :: "string \<rightharpoonup> cval" and k
    using that by (auto simp: map_le_def dom_def)
  show ?thesis
    using assms
    by unfold_locales
       (auto simp: cw_nase_def cw_etcd_def ref_etcd_def perm_order_def triple_def wp_def cached_at_def
         entries_of_def kv_scan map_of_kv_del_key map_of_kv_del_prefix comp_def sorted_kv_keys
         map_of_filter_key op_runs le get split: prod.splits simp del: set_map)
qed

interpretation cwA: cached_backend "cw_nase ''A''" "\<lambda>_. True" "\<lambda>w. map_of (fst w)" "\<lambda>w. map_of (snd w)"
  by (rule cw_backend) (simp add: ok_name_def sep_def)

text \<open>The answers to a sequence of calls, last first.\<close>

fun nase_run :: "'w NameService \<Rightarrow> nase_call list \<Rightarrow> nase_answer result list \<Rightarrow> 'w \<Rightarrow> nase_answer result list \<times> 'w" where
  "nase_run N [] as w = (as, w)"
| "nase_run N (c # cs) as w = (case nase_do N c w of (a, w') \<Rightarrow> nase_run N cs (a # as) w')"

lemma side_by_side_run:
  assumes "side_by_side n frame kv cache w s as bs" "list_all (\<lambda>c. list_all ok_name (call_names c)) cs"
    and "nase_run (etcdnase_NameService n) cs as w = (as', w')"
    and "nase_run (etcdnase_NameService (ideal_nase n)) cs bs s = (bs', s')"
  shows "side_by_side n frame kv cache w' s' as' bs'"
  using assms
proof (induction cs arbitrary: w s as bs)
  case (Cons c cs)
  obtain a w1 b s1 where run: "nase_do (etcdnase_NameService n) c w = (a, w1)"
    "nase_do (etcdnase_NameService (ideal_nase n)) c s = (b, s1)" by (metis surj_pair)
  show ?case
    by (rule Cons.IH [OF side_by_side.call [OF Cons.prems(1) _ run]])
       (use Cons.prems(2-4) run in simp_all)
qed simp

definition cw_calls :: "nase_call list" where
  "cw_calls = [CExists ''k'', CRegister ''hA'' ''eA'', CCreate ''k'' True 7, CExists ''k'', CMembers ''k'' False,
     CGrant ''u'' ''Read'' ''k'', CPermissions ''u'' ''k'', CRevoke ''u'' ''Read'' ''k'', CPermissions ''u'' ''k'',
     CJoin ''k'' ''A'' 9, CMembers ''k'' False, CDelete ''k'', CExists ''k'']"

theorem cached_nase_equivalent_witness:
  "\<exists>w s. side_by_side (cw_nase ''A'') (\<lambda>_. True) (\<lambda>w. map_of (fst w)) (\<lambda>w. map_of (snd w)) w s
      (fst (nase_run (etcdnase_NameService (cw_nase ''A'')) cw_calls [] ([], [])))
      (fst (nase_run (etcdnase_NameService (ideal_nase (cw_nase ''A''))) cw_calls [] [])) \<and>
    snd w \<noteq> [] \<and>
    fst (nase_run (etcdnase_NameService (cw_nase ''A'')) cw_calls [] ([], [])) =
      fst (nase_run (etcdnase_NameService (ideal_nase (cw_nase ''A''))) cw_calls [] []) \<and>
    rev (fst (nase_run (etcdnase_NameService (cw_nase ''A'')) cw_calls [] ([], []))) =
      [Ok (ABool False), Ok AUnit, Ok AUnit, Ok (ABool True), Ok (AMembers ([(''A'', 7)], None)), Ok AUnit,
       Ok (AMethods [''Read'']), Ok AUnit, Ok (AMethods []), Ok AUnit, Ok (AMembers ([(''A'', 9)], None)),
       Ok AUnit, Ok (ABool False)]"
proof -
  let ?w = "snd (nase_run (etcdnase_NameService (cw_nase ''A'')) cw_calls [] ([], []))"
  let ?s = "snd (nase_run (etcdnase_NameService (ideal_nase (cw_nase ''A''))) cw_calls [] [])"
  have names: "list_all (\<lambda>c. list_all ok_name (call_names c)) cw_calls" by code_simp
  have "side_by_side (cw_nase ''A'') (\<lambda>_. True) (\<lambda>w. map_of (fst w)) (\<lambda>w. map_of (snd w)) ?w ?s
      (fst (nase_run (etcdnase_NameService (cw_nase ''A'')) cw_calls [] ([], [])))
      (fst (nase_run (etcdnase_NameService (ideal_nase (cw_nase ''A''))) cw_calls [] []))"
    by (rule side_by_side_run [OF side_by_side.start names, where w = "([], [])" and s = "[]"]) simp_all
  moreover from cached_nase_equivalent [OF cwA.cached_backend_axioms this]
  have "fst (nase_run (etcdnase_NameService (cw_nase ''A'')) cw_calls [] ([], [])) =
      fst (nase_run (etcdnase_NameService (ideal_nase (cw_nase ''A''))) cw_calls [] [])" ..
  moreover have "snd ?w \<noteq> []" by code_simp
  moreover have "rev (fst (nase_run (etcdnase_NameService (cw_nase ''A'')) cw_calls [] ([], []))) =
      [Ok (ABool False), Ok AUnit, Ok AUnit, Ok (ABool True), Ok (AMembers ([(''A'', 7)], None)), Ok AUnit,
       Ok (AMethods [''Read'']), Ok AUnit, Ok (AMethods []), Ok AUnit, Ok (AMembers ([(''A'', 9)], None)),
       Ok AUnit, Ok (ABool False)]" by code_simp
  ultimately show ?thesis by blast
qed

text \<open>
  Why the collection of missed updates is excepted: it caches under the prefix of the node, while a
  report drops the prefix of node and keygroup only. Until a watcher fires, a report of the
  same process stays invisible, and an update that was handed out is handed out again.
\<close>

lemma cached_status_stale:
  defines "N \<equiv> etcdnase_NameService (cw_nase ''A'')"
  defines "asked \<equiv> snd (ns_RequestNodeStatus N ''B'' ([], []))"
  defines "reported \<equiv> snd (ns_ReportFailedNode N ''B'' ''k'' ''i'' asked)"
  shows "fst (ns_RequestNodeStatus N ''B'' reported) = Ok []"
    and "fst (ns_RequestNodeStatus N ''B'' (fst reported, [])) = Ok [\<lparr>iKeygroup = ''k'', iID = ''i'', iVal = []\<rparr>]"
    and "fst (ns_RequestNodeStatus N ''B'' (snd (ns_RequestNodeStatus N ''B'' (fst reported, [])))) =
      Ok [\<lparr>iKeygroup = ''k'', iID = ''i'', iVal = []\<rparr>]"
    and "fst (snd (ns_RequestNodeStatus N ''B'' (fst reported, []))) = []"
  unfolding assms by code_simp+

end
