(* ===== verification/Tls_Setup.thy ===== *)
theory Tls_Setup
  imports Proxy Alexandra Remote_Storage Badger_Storage Dynamo_Storage Etcd_Nase World_Parts Trigger_Node
begin

text \<open>
  The constructors of servers and clients: which files they read, how connections are secured, in
  which order things are set up and when the process gives up.

  Outside are the operating system and the libraries: \<open>sys\<close> with the file system, the parsing and
  verification of certificates, listening on an address and the JSON form of a string, and for every
  client the function that dials with given credentials. Where the code ends the process with \<^verbatim>\<open>log.Fatal\<close> the
  operation fails, as the constructors return no errors of their own; the two constructors of
  the proxy return their errors, and their caller ends the process.
\<close>

section \<open>Certificates and TLS\<close>

record certpool =
  cp_system :: bool
  cp_certs :: "cert list"

record 'w sys =
  sys_ReadFile :: "string \<Rightarrow> string result"
  sys_X509KeyPair :: "string \<Rightarrow> string \<Rightarrow> error option"
  sys_CertsFromPEM :: "string \<Rightarrow> cert list"
  sys_SystemCertPool :: "unit result"
  sys_Verify :: "certpool \<Rightarrow> pool"
  sys_Listen :: "string \<Rightarrow> ('w, unit) op"
  sys_QuoteJSON :: "string \<Rightarrow> string"

datatype clientAuth = NoClientCert | RequireAndVerifyClientCert

datatype tlsVersion = VersionUnset | VersionTLS12

text \<open>\<^verbatim>\<open>tls.Config\<close>; a pool that is not set (\<^verbatim>\<open>nil\<close>) stands for the roots of the system.\<close>

record tlsConfig =
  Certificates :: "(string \<times> string) list"
  ClientAuth :: clientAuth
  ClientCAs :: "certpool option"
  RootCAs :: "certpool option"
  MinVersion :: tlsVersion

text \<open>
  What a TLS server does with the certificate of a client, if it sends one, before any
  request is served.
\<close>

definition accepts :: "'w sys \<Rightarrow> tlsConfig \<Rightarrow> cert option \<Rightarrow> bool" where
  "accepts os cfg crt =
     (case ClientAuth cfg of
        NoClientCert \<Rightarrow> True
      | RequireAndVerifyClientCert \<Rightarrow>
          (case crt of
             None \<Rightarrow> False
           | Some c \<Rightarrow>
               sys_Verify os (case ClientCAs cfg of Some p \<Rightarrow> p | None \<Rightarrow> \<lparr>cp_system = True, cp_certs = []\<rparr>) c []
                 = None))"

definition LoadX509KeyPair :: "'w sys \<Rightarrow> string \<Rightarrow> string \<Rightarrow> (string \<times> string) result" where
  "LoadX509KeyPair os certFile keyFile =
     (case sys_ReadFile os certFile of
        Ok c \<Rightarrow>
          (case sys_ReadFile os keyFile of
             Ok k \<Rightarrow> (case sys_X509KeyPair os c k of None \<Rightarrow> Ok (c, k) | Some e \<Rightarrow> Err e)
           | Err e \<Rightarrow> Err e
           | Panic \<Rightarrow> Panic)
      | Err e \<Rightarrow> Err e
      | Panic \<Rightarrow> Panic)"

definition NewCertPool :: certpool where
  "NewCertPool = \<lparr>cp_system = False, cp_certs = []\<rparr>"

text \<open>Whether \<^verbatim>\<open>AppendCertsFromPEM\<close> found certificates is ignored everywhere.\<close>

fun append_files :: "'w sys \<Rightarrow> certpool \<Rightarrow> string list \<Rightarrow> certpool result" where
  "append_files os pool [] = Ok pool"
| "append_files os pool (f # fs) =
     (case sys_ReadFile os f of
        Ok pem \<Rightarrow> append_files os (pool\<lparr>cp_certs := cp_certs pool @ sys_CertsFromPEM os pem\<rparr>) fs
      | Err e \<Rightarrow> Err e
      | Panic \<Rightarrow> Panic)"

definition bind_result :: "'a result \<Rightarrow> ('a \<Rightarrow> 'b result) \<Rightarrow> 'b result" where
  "bind_result r f = (case r of Ok x \<Rightarrow> f x | Err e \<Rightarrow> Err e | Panic \<Rightarrow> Panic)"

text \<open>The configuration of the servers, the same statements in every constructor.\<close>

definition server_config :: "'w sys \<Rightarrow> string \<Rightarrow> string \<Rightarrow> string \<Rightarrow> (tlsConfig \<times> certpool) result" where
  "server_config os certFile keyFile caFile =
     bind_result (LoadX509KeyPair os certFile keyFile) (\<lambda>crt.
     bind_result (append_files os NewCertPool [caFile]) (\<lambda>rootCAs.
     Ok (\<lparr>Certificates = [crt], ClientAuth = RequireAndVerifyClientCert, ClientCAs = Some rootCAs,
          RootCAs = None, MinVersion = VersionTLS12\<rparr>, rootCAs)))"

text \<open>The configuration of clients that trust the roots of the system and the given ones.\<close>

definition client_config :: "'w sys \<Rightarrow> string \<Rightarrow> string \<Rightarrow> string list \<Rightarrow> tlsConfig result" where
  "client_config os certFile keyFile caFiles =
     bind_result (LoadX509KeyPair os certFile keyFile) (\<lambda>crt.
     bind_result (sys_SystemCertPool os) (\<lambda>_.
     bind_result (append_files os \<lparr>cp_system = True, cp_certs = []\<rparr> caFiles) (\<lambda>rootCAs.
     Ok \<lparr>Certificates = [crt], ClientAuth = NoClientCert, ClientCAs = None,
         RootCAs = Some rootCAs, MinVersion = VersionTLS12\<rparr>)))"

text \<open>
  A server that listens: its address, its configuration and what it serves. Without a configuration
  (\<open>None\<close>) it serves plain connections.
\<close>

record 'svc running =
  run_host :: string
  run_tls :: "tlsConfig option"
  run_service :: 'svc

definition admits :: "'w sys \<Rightarrow> 'svc running \<Rightarrow> cert option \<Rightarrow> bool" where
  "admits os r crt = (case run_tls r of None \<Rightarrow> True | Some cfg \<Rightarrow> accepts os cfg crt)"

section \<open>Peering (pkg/peering)\<close>

definition peering_NewClient ::
  "'w sys \<Rightarrow> (tlsConfig \<Rightarrow> string \<Rightarrow> ('w, nat) op) \<Rightarrow> 'w PeeringClient \<Rightarrow> string \<Rightarrow> string \<Rightarrow> string \<Rightarrow>
   ('w, 'w PeeringClient) op" where
  "peering_NewClient os dial c certFile keyFile caFile =
     andthen (of_result (client_config os certFile keyFile [caFile])) (\<lambda>cfg.
     andthen (modify (pc_set_conn c [])) (\<lambda>_.
     ret (c\<lparr>pc_grpc := (pc_grpc c)\<lparr>g_Dial := dial cfg\<rparr>\<rparr>)))"

definition peering_NewServer ::
  "'w sys \<Rightarrow> string \<Rightarrow> 'w inthandler \<Rightarrow> string \<Rightarrow> string \<Rightarrow> string \<Rightarrow> ('w, 'w inthandler running) op" where
  "peering_NewServer os host handler certFile keyFile caFile =
     andthen (of_result (server_config os certFile keyFile caFile)) (\<lambda>(cfg, _).
     andthen (sys_Listen os host) (\<lambda>_.
     ret \<lparr>run_host = host, run_tls = Some cfg, run_service = handler\<rparr>))"

section \<open>Client interface (pkg/api)\<close>

text \<open>
  The address of the proxy is split, and a malformed one is fatal only for a server behind a
  proxy.
\<close>

definition api_NewServer ::
  "'w sys \<Rightarrow> ('c, 'md) grpc_ctx \<Rightarrow> string \<Rightarrow> 'w exthandler \<Rightarrow> string \<Rightarrow> string \<Rightarrow> string \<Rightarrow> bool \<Rightarrow> string \<Rightarrow>
   ('w, ('w, 'c, 'md) ApiServer running) op" where
  "api_NewServer os g host handler crt key caCert proxied proxy =
     andthen (of_result (server_config os crt key caCert)) (\<lambda>(cfg, rootCAs).
     andthen (of_result
       (case SplitHostPort proxy of
          Ok hp \<Rightarrow> Ok hp
        | Err e \<Rightarrow> if proxied then Err e else Ok ([], [])
        | Panic \<Rightarrow> Panic)) (\<lambda>(proxyHost, proxyPort).
     andthen (sys_Listen os host) (\<lambda>_.
     ret \<lparr>run_host = host, run_tls = Some cfg,
          run_service = \<lparr>s_e = handler, s_roots = sys_Verify os rootCAs, s_isProxied = proxied,
            s_proxyHost = proxyHost, s_proxyPort = proxyPort, s_grpc = g\<rparr>\<rparr>)))"

section \<open>Stores (pkg/badgerdb, pkg/storageclient)\<close>

text \<open>
  \<^verbatim>\<open>New\<close> and \<^verbatim>\<open>NewMemory\<close>: the database is opened and the map of sequences is empty. \<open>g\<close> and \<open>p\<close>
  read and write the storage object in the world. The garbage collection that starts in
  the background does not change what is stored.
\<close>

definition badgerdb_open ::
  "(bool \<Rightarrow> string \<Rightarrow> ('w, 'db) op) \<Rightarrow> 'db badger \<Rightarrow> ('w \<Rightarrow> 'db BadgerStorage) \<Rightarrow> ('db BadgerStorage \<Rightarrow> 'w \<Rightarrow> 'w) \<Rightarrow>
   bool \<Rightarrow> string \<Rightarrow> ('w, 'w Store) op" where
  "badgerdb_open Open B g p mem path =
     andthen (attempt (Open mem path) (\<lambda>_. panic) ret) (\<lambda>db.
     andthen (modify (\<lambda>w. p ((g w)\<lparr>bdb := db, bseq := Map.empty\<rparr>) w)) (\<lambda>_.
     ret (lift_Store g p (badgerdb_Store B))))"

definition badgerdb_New ::
  "(bool \<Rightarrow> string \<Rightarrow> ('w, 'db) op) \<Rightarrow> 'db badger \<Rightarrow> ('w \<Rightarrow> 'db BadgerStorage) \<Rightarrow> ('db BadgerStorage \<Rightarrow> 'w \<Rightarrow> 'w) \<Rightarrow>
   string \<Rightarrow> ('w, 'w Store) op" where
  "badgerdb_New Open B g p dbPath = badgerdb_open Open B g p False dbPath"

definition badgerdb_NewMemory ::
  "(bool \<Rightarrow> string \<Rightarrow> ('w, 'db) op) \<Rightarrow> 'db badger \<Rightarrow> ('w \<Rightarrow> 'db BadgerStorage) \<Rightarrow> ('db BadgerStorage \<Rightarrow> 'w \<Rightarrow> 'w) \<Rightarrow>
   ('w, 'w Store) op" where
  "badgerdb_NewMemory Open B g p = badgerdb_open Open B g p True []"

definition storageclient_NewClient ::
  "'w sys \<Rightarrow> (tlsConfig \<Rightarrow> string \<Rightarrow> ('w, 'w storage_stub) op) \<Rightarrow> string \<Rightarrow> string \<Rightarrow> string \<Rightarrow> string list \<Rightarrow>
   ('w, 'w StorageClient) op" where
  "storageclient_NewClient os dial host certFile keyFile caFiles =
     andthen (of_result (client_config os certFile keyFile caFiles)) (\<lambda>cfg.
     andthen (dial cfg host) (\<lambda>stub. ret \<lparr>dbClient = stub\<rparr>))"

section \<open>Naming service and triggers (pkg/etcdnase, pkg/fred)\<close>

record 'w etcd_libs =
  et_ClientConfig :: "string \<Rightarrow> string \<Rightarrow> string \<Rightarrow> tlsConfig result"
  et_New :: "string list \<Rightarrow> tlsConfig \<Rightarrow> ('w, 'w etcd) op"
  et_NewCache :: "('w, unit) op"

definition NewNameService ::
  "'w etcd_libs \<Rightarrow> string \<Rightarrow> string list \<Rightarrow> string \<Rightarrow> string \<Rightarrow> string \<Rightarrow> bool \<Rightarrow> ('w, 'w EtcdNase) op" where
  "NewNameService L nodeID endpoints certFile keyFile caFile cach =
     attempt (of_result (et_ClientConfig L certFile keyFile caFile))
       (\<lambda>_. fail (Wrapped ''Error configuring certificates for the etcd client'')) (\<lambda>cfg.
     attempt (et_New L endpoints cfg)
       (\<lambda>_. fail (Wrapped ''Error starting the etcd client'')) (\<lambda>c.
     andthen (if cach
       then attempt (et_NewCache L) (\<lambda>_. fail (Wrapped ''error creating a local ristretto cache'')) ret
       else ret ()) (\<lambda>_.
     ret \<lparr>cli = c, cached = cach, n_NodeID = nodeID\<rparr>)))"

definition newTriggerService ::
  "'w sys \<Rightarrow> (tlsConfig \<Rightarrow> string \<Rightarrow> ('w, unit) op) \<Rightarrow> 'w TriggerNode \<Rightarrow> 'w storeService \<Rightarrow>
   string \<Rightarrow> string \<Rightarrow> string list \<Rightarrow> 'w triggerService result" where
  "newTriggerService os dial tn s certFile keyFile caFiles =
     bind_result (client_config os certFile keyFile caFiles) (\<lambda>cfg.
     Ok \<lparr>t_tc = tn\<lparr>tr_Dial := dial cfg\<rparr>, t_s = s\<rparr>)"

section \<open>The proxy (pkg/proxy)\<close>

definition proxy_config :: "'w sys \<Rightarrow> string \<Rightarrow> string \<Rightarrow> string \<Rightarrow> (tlsConfig \<times> certpool) result" where
  "proxy_config os crt key caCert =
     bind_result (server_config os crt key caCert) (\<lambda>(cfg, rootCAs). Ok (cfg\<lparr>RootCAs := Some rootCAs\<rparr>, rootCAs))"

text \<open>\<open>A\<close> carries what the libraries provide: hash, random numbers, contexts, stubs and the map of connections.\<close>

definition StartAPIProxy ::
  "'w sys \<Rightarrow> (tlsConfig \<Rightarrow> string \<Rightarrow> ('w, nat) op) \<Rightarrow> ('w, 'c, 'md) APIProxy \<Rightarrow> Proxy \<Rightarrow> int \<Rightarrow>
   string \<Rightarrow> string \<Rightarrow> string \<Rightarrow> ('w, tlsConfig \<times> ('w, 'c, 'md) APIProxy) op" where
  "StartAPIProxy os dial A p port crt key caCert =
     andthen (of_result (proxy_config os crt key caCert)) (\<lambda>(cfg, rootCAs).
     andthen (modify (cc_set_conn (a_conn A) [])) (\<lambda>_.
     ret (cfg, A\<lparr>a_p := p, a_port := port, a_conn := (a_conn A)\<lparr>cc_Dial := dial cfg\<rparr>,
       a_roots := sys_Verify os rootCAs\<rparr>)))"

definition StartPeeringProxy ::
  "'w sys \<Rightarrow> (tlsConfig \<Rightarrow> string \<Rightarrow> ('w, nat) op) \<Rightarrow> 'w PeeringProxy \<Rightarrow> Proxy \<Rightarrow> int \<Rightarrow>
   string \<Rightarrow> string \<Rightarrow> string \<Rightarrow> ('w, tlsConfig \<times> 'w PeeringProxy) op" where
  "StartPeeringProxy os dial P p port crt key caCert =
     andthen (of_result (proxy_config os crt key caCert)) (\<lambda>(cfg, _).
     andthen (modify (cc_set_conn (pp_conn P) [])) (\<lambda>_.
     ret (cfg, P\<lparr>pp_p := p, pp_port := port, pp_conn := (pp_conn P)\<lparr>cc_Dial := dial cfg\<rparr>\<rparr>)))"

section \<open>The middleware (pkg/alexandra)\<close>

text \<open>Its clients trust the given root only and do not ask for a version.\<close>

definition alexandra_dial ::
  "'w sys \<Rightarrow> (tlsConfig \<Rightarrow> string \<Rightarrow> ('w, nat) op) \<Rightarrow> string \<Rightarrow> string \<Rightarrow> string \<Rightarrow> string \<Rightarrow> ('w, nat) op" where
  "alexandra_dial os dial certFile keyFile caFile host =
     andthen (of_result
       (bind_result (LoadX509KeyPair os certFile keyFile) (\<lambda>crt.
        bind_result (append_files os NewCertPool [caFile]) (\<lambda>rootCAs.
        Ok \<lparr>Certificates = [crt], ClientAuth = NoClientCert, ClientCAs = None,
            RootCAs = Some rootCAs, MinVersion = VersionUnset\<rparr>)))) (\<lambda>cfg. dial cfg host)"

definition newClientsManager ::
  "'w sys \<Rightarrow> (tlsConfig \<Rightarrow> string \<Rightarrow> ('w, nat) op) \<Rightarrow> 'w ClientsMgr \<Rightarrow> string \<Rightarrow> string \<Rightarrow> string \<Rightarrow>
   ('w, 'w ClientsMgr) op" where
  "newClientsManager os dial m clientsCert clientsKey clientsCA =
     andthen (modify (cm_set_clients m [])) (\<lambda>_.
     ret (m\<lparr>cm_Dial := alexandra_dial os dial clientsCert clientsKey clientsCA\<rparr>))"

definition alexandra_NewServer ::
  "'w sys \<Rightarrow> (tlsConfig \<Rightarrow> string \<Rightarrow> ('w, nat) op) \<Rightarrow> ('w, 'c, 'md) AlexandraServer \<Rightarrow> string \<Rightarrow> string \<Rightarrow> string \<Rightarrow>
   string \<Rightarrow> string \<Rightarrow> string \<Rightarrow> string \<Rightarrow> bool \<Rightarrow> string \<Rightarrow> ('w, ('w, 'c, 'md) AlexandraServer running) op" where
  "alexandra_NewServer os dial A host caCert serverCert serverKey nodesCert nodesKey lighthouse proxied proxyHost =
     andthen (of_result (server_config os serverCert serverKey caCert)) (\<lambda>(cfg, rootCAs).
     andthen (sys_Listen os host) (\<lambda>_.
     andthen (newClientsManager os dial (al_clientsMgr A) nodesCert nodesKey caCert) (\<lambda>m.
     ret \<lparr>run_host = host, run_tls = Some cfg,
          run_service = A\<lparr>al_roots := sys_Verify os rootCAs, al_isProxied := proxied, al_proxyHost := proxyHost,
            al_clientsMgr := m, al_lighthouse := lighthouse\<rparr>\<rparr>)))"

section \<open>The trigger node (cmd/simpletrigger)\<close>

text \<open>
  The page with the log is served over plain HTTP. It listens last, and the process ends when that
  fails. \<open>get_log\<close> and \<open>set_log\<close> read and write the server object in the world.
\<close>

definition startServer ::
  "'w sys \<Rightarrow> ('w \<Rightarrow> TriggerServer) \<Rightarrow> (TriggerServer \<Rightarrow> 'w \<Rightarrow> 'w) \<Rightarrow> string \<Rightarrow> string \<Rightarrow> string \<Rightarrow> string \<Rightarrow> string \<Rightarrow>
   ('w, unit running \<times> ('w, string) op running) op" where
  "startServer os get_log set_log crt key ca host wsHost =
     andthen (of_result (server_config os crt key ca)) (\<lambda>(cfg, _).
     andthen (modify (set_log \<lparr>tlog = []\<rparr>)) (\<lambda>_.
     andthen (sys_Listen os host) (\<lambda>_.
     andthen (sys_Listen os wsHost) (\<lambda>_.
     ret (\<lparr>run_host = host, run_tls = Some cfg, run_service = ()\<rparr>,
          \<lparr>run_host = wsHost, run_tls = None,
           run_service = gets (\<lambda>w. log_json (sys_QuoteJSON os) (get_log w))\<rparr>)))))"

end
