(* ===== verification/Node_Config.thy ===== *)
theory Node_Config
  imports Complex_Main Handlers
begin

text \<open>
  cmd/frednode: the configuration of a node, its flags with their defaults, the checks of
  \<^verbatim>\<open>parseArgs\<close>, the choice of the storage adaptor, and what \<^verbatim>\<open>main\<close> hands to \<^verbatim>\<open>fred.New\<close>.

  The command line is the list of flags and values that \<^verbatim>\<open>flag\<close> found in it. Parameters are the
  reading of a number (\<^verbatim>\<open>strconv.ParseFloat\<close>, which rounds), the package \<^verbatim>\<open>env\<close> that overrides fields by
  environment variables, and \<^verbatim>\<open>geohash.Encode\<close>. A configuration that is refused with
  \<^verbatim>\<open>log.Fatal\<close> or by \<^verbatim>\<open>flag\<close> is an error, since both end the process.
\<close>

section \<open>The configuration\<close>

text \<open>A \<^verbatim>\<open>float64\<close> as far as comparisons see it; a comparison with \<open>NaN\<close> is false.\<close>

datatype float64 = NaN | NegInf | Fin rat | PosInf

fun float_gt :: "float64 \<Rightarrow> rat \<Rightarrow> bool" where
  "float_gt (Fin x) y = (y < x)"
| "float_gt PosInf y = True"
| "float_gt NegInf y = False"
| "float_gt NaN y = False"

fun float_lt :: "float64 \<Rightarrow> rat \<Rightarrow> bool" where
  "float_lt (Fin x) y = (x < y)"
| "float_lt NegInf y = True"
| "float_lt PosInf y = False"
| "float_lt NaN y = False"

record conf_General =
  General_nodeID :: string

record conf_Location =
  Location_Lat :: float64
  Location_Lng :: float64

record conf_Server =
  Server_Host :: string
  Server_Proxy :: string
  Server_Cert :: string
  Server_Key :: string
  Server_CA :: string

record conf_Storage =
  Storage_Adaptor :: string

record conf_Peering =
  Peering_Host :: string
  Peering_Proxy :: string
  Peering_Cert :: string
  Peering_Key :: string
  Peering_CA :: string

record conf_Log =
  Log_Level :: string
  Log_Handler :: string

record conf_NaSe =
  NaSe_Host :: string
  NaSe_Cert :: string
  NaSe_Key :: string
  NaSe_CA :: string
  NaSe_Cached :: bool

record conf_RemoteStore =
  RemoteStore_Host :: string
  RemoteStore_Cert :: string
  RemoteStore_Key :: string
  RemoteStore_CA :: string

record conf_DynamoDB =
  DynamoDB_Table :: string
  DynamoDB_Region :: string
  DynamoDB_PublicKey :: string
  DynamoDB_PrivateKey :: string

record conf_Bdb =
  Bdb_Path :: string

record conf_Trigger =
  Trigger_Cert :: string
  Trigger_Key :: string
  Trigger_CA :: string

record conf_Profiling =
  Profiling_CPUProfPath :: string
  Profiling_MemProfPath :: string

record fredConfig =
  General :: conf_General
  Location :: conf_Location
  Server :: conf_Server
  Storage :: conf_Storage
  Peering :: conf_Peering
  Log :: conf_Log
  NaSe :: conf_NaSe
  RemoteStore :: conf_RemoteStore
  DynamoDB :: conf_DynamoDB
  Bdb :: conf_Bdb
  Trigger :: conf_Trigger
  Profiling :: conf_Profiling

section \<open>Flags\<close>

text \<open>The defaults: empty, except for the log.\<close>

definition flag_defaults :: fredConfig where
  "flag_defaults = \<lparr>
     General = \<lparr>General_nodeID = []\<rparr>,
     Location = \<lparr>Location_Lat = Fin 0, Location_Lng = Fin 0\<rparr>,
     Server = \<lparr>Server_Host = [], Server_Proxy = [], Server_Cert = [], Server_Key = [], Server_CA = []\<rparr>,
     Storage = \<lparr>Storage_Adaptor = []\<rparr>,
     Peering = \<lparr>Peering_Host = [], Peering_Proxy = [], Peering_Cert = [], Peering_Key = [], Peering_CA = []\<rparr>,
     Log = \<lparr>Log_Level = ''debug'', Log_Handler = ''dev''\<rparr>,
     NaSe = \<lparr>NaSe_Host = [], NaSe_Cert = [], NaSe_Key = [], NaSe_CA = [], NaSe_Cached = False\<rparr>,
     RemoteStore = \<lparr>RemoteStore_Host = [], RemoteStore_Cert = [], RemoteStore_Key = [], RemoteStore_CA = []\<rparr>,
     DynamoDB = \<lparr>DynamoDB_Table = [], DynamoDB_Region = [], DynamoDB_PublicKey = [], DynamoDB_PrivateKey = []\<rparr>,
     Bdb = \<lparr>Bdb_Path = []\<rparr>,
     Trigger = \<lparr>Trigger_Cert = [], Trigger_Key = [], Trigger_CA = []\<rparr>,
     Profiling = \<lparr>Profiling_CPUProfPath = [], Profiling_MemProfPath = []\<rparr>\<rparr>"

text \<open>The flags of type string with the field each of them sets.\<close>

definition string_flags :: "(string \<times> (string \<Rightarrow> fredConfig \<Rightarrow> fredConfig)) list" where
  "string_flags = [
     (''nodeID'', \<lambda>v. General_update (General_nodeID_update (\<lambda>_. v))),
     (''host'', \<lambda>v. Server_update (Server_Host_update (\<lambda>_. v))),
     (''host-proxy'', \<lambda>v. Server_update (Server_Proxy_update (\<lambda>_. v))),
     (''cert'', \<lambda>v. Server_update (Server_Cert_update (\<lambda>_. v))),
     (''key'', \<lambda>v. Server_update (Server_Key_update (\<lambda>_. v))),
     (''ca-file'', \<lambda>v. Server_update (Server_CA_update (\<lambda>_. v))),
     (''peer-host'', \<lambda>v. Peering_update (Peering_Host_update (\<lambda>_. v))),
     (''peer-host-proxy'', \<lambda>v. Peering_update (Peering_Proxy_update (\<lambda>_. v))),
     (''peer-cert'', \<lambda>v. Peering_update (Peering_Cert_update (\<lambda>_. v))),
     (''peer-key'', \<lambda>v. Peering_update (Peering_Key_update (\<lambda>_. v))),
     (''peer-ca'', \<lambda>v. Peering_update (Peering_CA_update (\<lambda>_. v))),
     (''adaptor'', \<lambda>v. Storage_update (Storage_Adaptor_update (\<lambda>_. v))),
     (''remote-storage-host'', \<lambda>v. RemoteStore_update (RemoteStore_Host_update (\<lambda>_. v))),
     (''remote-storage-cert'', \<lambda>v. RemoteStore_update (RemoteStore_Cert_update (\<lambda>_. v))),
     (''remote-storage-key'', \<lambda>v. RemoteStore_update (RemoteStore_Key_update (\<lambda>_. v))),
     (''remote-storage-ca'', \<lambda>v. RemoteStore_update (RemoteStore_CA_update (\<lambda>_. v))),
     (''dynamo-table'', \<lambda>v. DynamoDB_update (DynamoDB_Table_update (\<lambda>_. v))),
     (''dynamo-region'', \<lambda>v. DynamoDB_update (DynamoDB_Region_update (\<lambda>_. v))),
     (''dynamo-public-key'', \<lambda>v. DynamoDB_update (DynamoDB_PublicKey_update (\<lambda>_. v))),
     (''dynamo-private-key'', \<lambda>v. DynamoDB_update (DynamoDB_PrivateKey_update (\<lambda>_. v))),
     (''badgerdb-path'', \<lambda>v. Bdb_update (Bdb_Path_update (\<lambda>_. v))),
     (''log-level'', \<lambda>v. Log_update (Log_Level_update (\<lambda>_. v))),
     (''handler'', \<lambda>v. Log_update (Log_Handler_update (\<lambda>_. v))),
     (''nase-host'', \<lambda>v. NaSe_update (NaSe_Host_update (\<lambda>_. v))),
     (''nase-cert'', \<lambda>v. NaSe_update (NaSe_Cert_update (\<lambda>_. v))),
     (''nase-key'', \<lambda>v. NaSe_update (NaSe_Key_update (\<lambda>_. v))),
     (''nase-ca'', \<lambda>v. NaSe_update (NaSe_CA_update (\<lambda>_. v))),
     (''trigger-cert'', \<lambda>v. Trigger_update (Trigger_Cert_update (\<lambda>_. v))),
     (''trigger-key'', \<lambda>v. Trigger_update (Trigger_Key_update (\<lambda>_. v))),
     (''trigger-ca'', \<lambda>v. Trigger_update (Trigger_CA_update (\<lambda>_. v))),
     (''cpuprofile'', \<lambda>v. Profiling_update (Profiling_CPUProfPath_update (\<lambda>_. v))),
     (''memprofile'', \<lambda>v. Profiling_update (Profiling_MemProfPath_update (\<lambda>_. v)))]"

definition float_flags :: "(string \<times> (float64 \<Rightarrow> fredConfig \<Rightarrow> fredConfig)) list" where
  "float_flags = [
     (''lat'', \<lambda>v. Location_update (Location_Lat_update (\<lambda>_. v))),
     (''lng'', \<lambda>v. Location_update (Location_Lng_update (\<lambda>_. v)))]"

definition ParseBool :: "string \<Rightarrow> bool option" where
  "ParseBool v =
     (if v \<in> set [''1'', ''t'', ''T'', ''TRUE'', ''true'', ''True''] then Some True
      else if v \<in> set [''0'', ''f'', ''F'', ''FALSE'', ''false'', ''False''] then Some False
      else None)"

text \<open>One flag of the command line; a flag that is not defined or a malformed value ends the process.\<close>

definition set_flag :: "(string \<Rightarrow> float64 option) \<Rightarrow> string \<Rightarrow> string \<Rightarrow> fredConfig \<Rightarrow> fredConfig result" where
  "set_flag ParseFloat name v fc =
     (case map_of string_flags name of
        Some set_to \<Rightarrow> Ok (set_to v fc)
      | None \<Rightarrow>
          (case map_of float_flags name of
             Some set_to \<Rightarrow>
               (case ParseFloat v of Some x \<Rightarrow> Ok (set_to x fc) | None \<Rightarrow> Err (Raw ''invalid value''))
           | None \<Rightarrow>
               if name = ''nase-cached'' then
                 (case ParseBool v of
                    Some b \<Rightarrow> Ok (NaSe_update (NaSe_Cached_update (\<lambda>_. b)) fc)
                  | None \<Rightarrow> Err (Raw ''invalid value''))
               else Err (Raw ''flag provided but not defined'')))"

fun flag_Parse :: "(string \<Rightarrow> float64 option) \<Rightarrow> (string \<times> string) list \<Rightarrow> fredConfig \<Rightarrow> fredConfig result" where
  "flag_Parse pf [] fc = Ok fc"
| "flag_Parse pf ((name, v) # args) fc =
     (case set_flag pf name v fc of Ok fc' \<Rightarrow> flag_Parse pf args fc' | Err e \<Rightarrow> Err e | Panic \<Rightarrow> Panic)"

section \<open>Checks\<close>

definition adaptors :: "string list" where
  "adaptors = [''remote'', ''badgerdb'', ''memory'', ''dynamo'']"

definition log_handlers :: "string list" where
  "log_handlers = [''dev'', ''prod'']"

definition log_levels :: "string list" where
  "log_levels = [''debug'', ''info'', ''warn'', ''error'', ''fatal'', ''panic'']"

text \<open>The second check looks at the longitude and at the latitude, as the source does.\<close>

definition validate :: "fredConfig \<Rightarrow> unit result" where
  "validate fc =
     (let lat = Location_Lat (Location fc); lng = Location_Lng (Location fc) in
      if float_gt lat 90 \<or> float_lt lat (- 90) then Err (Raw ''latitude'')
      else if float_gt lng 180 \<or> float_lt lat (- 180) then Err (Raw ''longitude'')
      else if Storage_Adaptor (Storage fc) \<notin> set adaptors then Err (Raw ''storage adaptor'')
      else if Log_Handler (Log fc) \<notin> set log_handlers then Err (Raw ''log handler'')
      else if Log_Level (Log fc) \<notin> set log_levels then Err (Raw ''log level'')
      else Ok ())"

definition name_node :: "(float64 \<Rightarrow> float64 \<Rightarrow> string) \<Rightarrow> fredConfig \<Rightarrow> fredConfig" where
  "name_node Encode fc =
     (if General_nodeID (General fc) = []
      then General_update (General_nodeID_update
             (\<lambda>_. Encode (Location_Lat (Location fc)) (Location_Lng (Location fc)))) fc
      else fc)"

definition parseArgs ::
  "(string \<Rightarrow> float64 option) \<Rightarrow> (fredConfig \<Rightarrow> fredConfig result) \<Rightarrow> (float64 \<Rightarrow> float64 \<Rightarrow> string) \<Rightarrow>
   (string \<times> string) list \<Rightarrow> fredConfig result" where
  "parseArgs pf env Encode args =
     (case flag_Parse pf args flag_defaults of
        Err e \<Rightarrow> Err e
      | Panic \<Rightarrow> Panic
      | Ok flags \<Rightarrow>
          (case env flags of
             Err e \<Rightarrow> Panic
           | Panic \<Rightarrow> Panic
           | Ok fc \<Rightarrow>
               (case validate fc of
                  Ok _ \<Rightarrow> Ok (name_node Encode fc)
                | Err e \<Rightarrow> Err e
                | Panic \<Rightarrow> Panic)))"

section \<open>Wiring\<close>

text \<open>The constructor that \<^verbatim>\<open>main\<close> calls for the store, with its arguments.\<close>

datatype backend =
    Badgerdb_New string
  | Badgerdb_NewMemory
  | Storageclient_NewClient string string string "string list"
  | Dynamo_New string string

definition storage_of :: "fredConfig \<Rightarrow> backend option" where
  "storage_of fc =
     (let a = Storage_Adaptor (Storage fc) in
      if a = ''badgerdb'' then Some (Badgerdb_New (Bdb_Path (Bdb fc)))
      else if a = ''memory'' then Some Badgerdb_NewMemory
      else if a = ''remote'' then
        Some (Storageclient_NewClient (RemoteStore_Host (RemoteStore fc)) (RemoteStore_Cert (RemoteStore fc))
          (RemoteStore_Key (RemoteStore fc)) (split_on CHR '','' (RemoteStore_CA (RemoteStore fc))))
      else if a = ''dynamo'' then
        Some (Dynamo_New (DynamoDB_Table (DynamoDB fc)) (DynamoDB_Region (DynamoDB fc)))
      else None)"

definition node_Config ::
  "'w Store \<Rightarrow> 'w Client \<Rightarrow> 'w NameService \<Rightarrow> 'w TriggerNode \<Rightarrow> order \<Rightarrow> fredConfig \<Rightarrow> 'w Config" where
  "node_Config store c n t ord fc = \<lparr>
     c_Store = store, c_Client = c, c_NaSe = n,
     c_PeeringHost = Peering_Host (Peering fc), c_PeeringHostProxy = Peering_Proxy (Peering fc),
     c_ExternalHost = Server_Host (Server fc), c_ExternalHostProxy = Server_Proxy (Server fc),
     c_Trigger = t, c_range = ord\<rparr>"

definition isProxied :: "fredConfig \<Rightarrow> bool" where
  "isProxied fc = (Server_Proxy (Server fc) \<noteq> [] \<and> Server_Host (Server fc) \<noteq> Server_Proxy (Server fc))"

section \<open>Facts\<close>

lemma validate_OkD:
  assumes "validate fc = Ok ()"
  shows "\<not> float_gt (Location_Lat (Location fc)) 90" "\<not> float_lt (Location_Lat (Location fc)) (- 90)"
    "\<not> float_gt (Location_Lng (Location fc)) 180" "Storage_Adaptor (Storage fc) \<in> set adaptors"
    "Log_Handler (Log fc) \<in> set log_handlers" "Log_Level (Log fc) \<in> set log_levels"
  using assms by (auto simp: validate_def Let_def split: if_splits)

lemma name_node_fields [simp]:
  "Location (name_node g fc) = Location fc" "Storage (name_node g fc) = Storage fc"
  "Log (name_node g fc) = Log fc" "Server (name_node g fc) = Server fc" "Peering (name_node g fc) = Peering fc"
  by (simp_all add: name_node_def)

lemma name_node_named: "(\<And>x y. g x y \<noteq> []) \<Longrightarrow> General_nodeID (General (name_node g fc)) \<noteq> []"
  by (simp add: name_node_def)

lemma parseArgs_OkE:
  assumes "parseArgs pf env g args = Ok fc"
  obtains flags fc' where "flag_Parse pf args flag_defaults = Ok flags" "env flags = Ok fc'"
    "validate fc' = Ok ()" "fc = name_node g fc'"
  using assms by (auto simp: parseArgs_def split: result.splits)

text \<open>
  A configuration that starts a node: it names the node and one of the four adaptors, so that the
  last branch of the choice in \<^verbatim>\<open>main\<close> is never taken, and its latitude is in range or not a number.
\<close>

lemma parseArgs_checked:
  assumes fc: "parseArgs pf env g args = Ok fc" and g: "\<And>x y. g x y \<noteq> []"
  shows "General_nodeID (General fc) \<noteq> []" "storage_of fc \<noteq> None"
    "Location_Lat (Location fc) = NaN \<or> (\<exists>x. Location_Lat (Location fc) = Fin x \<and> - 90 \<le> x \<and> x \<le> 90)"
    "Log_Handler (Log fc) \<in> set log_handlers" "Log_Level (Log fc) \<in> set log_levels"
proof -
  obtain fc' where v: "validate fc' = Ok ()" and eq: "fc = name_node g fc'"
    using fc by (elim parseArgs_OkE)
  note v = validate_OkD [OF v]
  show "General_nodeID (General fc) \<noteq> []" using g by (simp add: eq name_node_named)
  show "storage_of fc \<noteq> None" using v(4) by (auto simp: storage_of_def eq adaptors_def Let_def)
  show "Location_Lat (Location fc) = NaN \<or> (\<exists>x. Location_Lat (Location fc) = Fin x \<and> - 90 \<le> x \<and> x \<le> 90)"
    using v(1,2) by (cases "Location_Lat (Location fc')") (simp_all add: eq)
  show "Log_Handler (Log fc) \<in> set log_handlers" "Log_Level (Log fc) \<in> set log_levels"
    using v(5,6) by (simp_all add: eq)
qed

text \<open>
  The longitude has no lower bound: lowering it never makes an accepted configuration fail, because
  the second check compares the latitude with -180, which the first check excludes.
\<close>

lemma longitude_unbounded:
  assumes "validate fc = Ok ()" "y \<le> 180"
  shows "validate (Location_update (Location_Lng_update (\<lambda>_. Fin y)) fc) = Ok ()"
  using assms by (auto simp: validate_def Let_def split: if_splits)

text \<open>
  Being behind a proxy is decided twice: for the registration by the peering addresses, for the
  client interface by the external ones. A node with a peering proxy only registers an empty
  external address, although it serves clients directly.
\<close>

lemma half_proxied:
  assumes "Peering_Proxy (Peering fc) \<noteq> []" "Peering_Host (Peering fc) \<noteq> Peering_Proxy (Peering fc)"
    and "Server_Proxy (Server fc) = []"
  shows "\<not> isProxied fc"
    "register (node_Config store c n t ord fc) =
       attempt (ns_RegisterSelf n (Peering_Proxy (Peering fc)) []) (\<lambda>_. panic) ret"
  using assms by (simp_all add: isProxied_def register_def node_Config_def)

lemma aligned_proxies:
  assumes "isProxied fc \<longleftrightarrow> Peering_Proxy (Peering fc) \<noteq> [] \<and> Peering_Host (Peering fc) \<noteq> Peering_Proxy (Peering fc)"
  shows "register (node_Config store c n t ord fc) =
    attempt (if isProxied fc
      then ns_RegisterSelf n (Peering_Proxy (Peering fc)) (Server_Proxy (Server fc))
      else ns_RegisterSelf n (Peering_Host (Peering fc)) (Server_Host (Server fc))) (\<lambda>_. panic) ret"
  using assms by (simp add: register_def node_Config_def)

end
