(* ===== verification/Commands.thy ===== *)
theory Commands
  imports Tls_Setup Node_Config
begin

text \<open>
  The commands under cmd/: how each process sets up its parts from the values of its flags, up to
  the point where its servers run. Logging, profiling and signals are left out, except that a
  log handler that is not known ends the process.
\<close>

section \<open>A FReD node (cmd/frednode)\<close>

record ('w, 'db, 'av, 'c, 'md) node_libs =
  l_Open :: "bool \<Rightarrow> string \<Rightarrow> ('w, 'db) op"
  l_badger :: "'db badger"
  l_storage :: "'w \<Rightarrow> 'db BadgerStorage"
  l_set_storage :: "'db BadgerStorage \<Rightarrow> 'w \<Rightarrow> 'w"
  l_dynamo :: "('w, 'av) dynamo"
  l_storage_dial :: "tlsConfig \<Rightarrow> string \<Rightarrow> ('w, 'w storage_stub) op"
  l_peers :: "'w PeeringClient"
  l_peer_dial :: "tlsConfig \<Rightarrow> string \<Rightarrow> ('w, nat) op"
  l_etcd :: "'w etcd_libs"
  l_triggers :: "'w TriggerNode"
  l_trigger_dial :: "tlsConfig \<Rightarrow> string \<Rightarrow> ('w, unit) op"
  l_grpc :: "('c, 'md) grpc_ctx"
  l_range :: order

text \<open>The storage adaptor; \<^verbatim>\<open>dynamo.New\<close> reports errors, which are fatal here.\<close>

definition open_store ::
  "'w sys \<Rightarrow> ('w, 'db, 'av, 'c, 'md) node_libs \<Rightarrow> backend \<Rightarrow> ('w, 'w Store) op" where
  "open_store os L b =
     (case b of
        Badgerdb_New path \<Rightarrow> badgerdb_New (l_Open L) (l_badger L) (l_storage L) (l_set_storage L) path
      | Badgerdb_NewMemory \<Rightarrow> badgerdb_NewMemory (l_Open L) (l_badger L) (l_storage L) (l_set_storage L)
      | Storageclient_NewClient host crt key cas \<Rightarrow>
          andthen (storageclient_NewClient os (l_storage_dial L) host crt key cas)
            (\<lambda>c. ret (storageclient_Store c))
      | Dynamo_New table region \<Rightarrow>
          attempt (dNew (l_dynamo L) table region) (\<lambda>e. errstack e (fail e)) (\<lambda>D. ret (dynamo_Store D)))"

text \<open>\<^verbatim>\<open>fred.New\<close> with the loading of the certificates for triggers in its place.\<close>

definition fred_New ::
  "'w sys \<Rightarrow> (tlsConfig \<Rightarrow> string \<Rightarrow> ('w, unit) op) \<Rightarrow> string \<Rightarrow> string \<Rightarrow> string list \<Rightarrow> 'w Config \<Rightarrow>
   ('w, 'w Fred) op" where
  "fred_New os dial trCert trKey trCA c =
     andthen (register c) (\<lambda>_.
     andthen (of_result (newTriggerService os dial (c_Trigger c) (newStoreService (c_Store c)) trCert trKey trCA)) (\<lambda>t.
     andthen (ns_RequestNodeStatus (c_NaSe c) (ns_GetNodeID (c_NaSe c))) (\<lambda>missedItems.
     andthen (foreach (recover c (newStoreService (c_Store c))) missedItems) (\<lambda>_.
     ret (services (c\<lparr>c_Trigger := t_tc t\<rparr>))))))"

record ('w, 'c, 'md) node =
  nd_store :: "'w Store"
  nd_fred :: "'w Fred"
  nd_peering :: "'w inthandler running"
  nd_api :: "('w, 'c, 'md) ApiServer running"

definition connect_node ::
  "'w sys \<Rightarrow> ('w, 'db, 'av, 'c, 'md) node_libs \<Rightarrow> fredConfig \<Rightarrow> ('w, 'w Store \<times> 'w Config) op" where
  "connect_node os L fc =
     (case storage_of fc of
        None \<Rightarrow> fail (Raw ''unknown storage backend'')
      | Some b \<Rightarrow>
          andthen (open_store os L b) (\<lambda>store.
          andthen (peering_NewClient os (l_peer_dial L) (l_peers L) (Peering_Cert (Peering fc))
            (Peering_Key (Peering fc)) (Peering_CA (Peering fc))) (\<lambda>c.
          andthen (attempt (NewNameService (l_etcd L) (General_nodeID (General fc)) [NaSe_Host (NaSe fc)]
            (NaSe_Cert (NaSe fc)) (NaSe_Key (NaSe fc)) (NaSe_CA (NaSe fc)) (NaSe_Cached (NaSe fc))) (\<lambda>_. panic) ret) (\<lambda>n.
          ret (store, node_Config store (peering_Client c) (etcdnase_NameService n) (l_triggers L) (l_range L) fc)))))"

definition serve_node ::
  "'w sys \<Rightarrow> ('w, 'db, 'av, 'c, 'md) node_libs \<Rightarrow> fredConfig \<Rightarrow> 'w Store \<Rightarrow> 'w Fred \<Rightarrow> ('w, ('w, 'c, 'md) node) op" where
  "serve_node os L fc store f =
     andthen (peering_NewServer os (Peering_Host (Peering fc)) (F_I f) (Peering_Cert (Peering fc))
       (Peering_Key (Peering fc)) (Peering_CA (Peering fc))) (\<lambda>is.
     andthen (api_NewServer os (l_grpc L) (Server_Host (Server fc)) (F_E f) (Server_Cert (Server fc))
       (Server_Key (Server fc)) (Server_CA (Server fc)) (isProxied fc) (Server_Proxy (Server fc))) (\<lambda>es.
     ret \<lparr>nd_store = store, nd_fred = f, nd_peering = is, nd_api = es\<rparr>))"

definition frednode ::
  "'w sys \<Rightarrow> ('w, 'db, 'av, 'c, 'md) node_libs \<Rightarrow> fredConfig \<Rightarrow> ('w, ('w, 'c, 'md) node) op" where
  "frednode os L fc =
     andthen (connect_node os L fc) (\<lambda>(store, c).
     andthen (fred_New os (l_trigger_dial L) (Trigger_Cert (Trigger fc)) (Trigger_Key (Trigger fc))
       (split_on CHR '','' (Trigger_CA (Trigger fc))) c) (\<lambda>f.
     serve_node os L fc store f))"

text \<open>After a signal the servers stop and the store is closed; its error is only logged.\<close>

definition shutdown :: "('w, 'c, 'md) node \<Rightarrow> ('w, unit) op" where
  "shutdown nd = attempt (st_Close (nd_store nd)) (\<lambda>_. ret ()) ret"

section \<open>The other commands\<close>

definition check_handler :: "string \<Rightarrow> ('w, unit) op" where
  "check_handler h = (if h \<in> set log_handlers then ret () else fail (Raw ''Log Handler has to be either dev or prod''))"

text \<open>cmd/storageserver: it listens before it looks at anything else.\<close>

definition storageserver ::
  "'w sys \<Rightarrow> ('w, 'db, 'av, 'c, 'md) node_libs \<Rightarrow> string \<Rightarrow> string \<Rightarrow> string \<Rightarrow> string \<Rightarrow> string \<Rightarrow> string \<Rightarrow>
   ('w, 'w StorageServer running) op" where
  "storageserver os L path host loghandler crt key ca =
     andthen (sys_Listen os host) (\<lambda>_.
     andthen (check_handler loghandler) (\<lambda>_.
     andthen (of_result (server_config os crt key ca)) (\<lambda>(cfg, _).
     andthen (badgerdb_New (l_Open L) (l_badger L) (l_storage L) (l_set_storage L) path) (\<lambda>store.
     ret \<lparr>run_host = host, run_tls = Some cfg, run_service = NewStorageServer store\<rparr>))))"

text \<open>cmd/fredproxy: both proxies over the machines of one flag.\<close>

definition fredproxy ::
  "'w sys \<Rightarrow> (tlsConfig \<Rightarrow> string \<Rightarrow> ('w, nat) op) \<Rightarrow> (tlsConfig \<Rightarrow> string \<Rightarrow> ('w, nat) op) \<Rightarrow>
   ('w, 'c, 'md) APIProxy \<Rightarrow> 'w PeeringProxy \<Rightarrow> int \<Rightarrow> int \<Rightarrow> string \<Rightarrow> string \<Rightarrow>
   string \<Rightarrow> string \<Rightarrow> string \<Rightarrow> string \<Rightarrow> string \<Rightarrow> string \<Rightarrow>
   ('w, 'w PeeringProxy running \<times> ('w, 'c, 'md) APIProxy running) op" where
  "fredproxy os dialA dialP A P clientPort peeringPort machines loghandler peerCert peerKey peerCA apiCert apiKey apiCA =
     andthen (check_handler loghandler) (\<lambda>_.
     (let p = NewProxy (split_on CHR '','' machines) in
      andthen (StartPeeringProxy os dialP P p peeringPort peerCert peerKey peerCA) (\<lambda>(pcfg, pS).
      andthen (StartAPIProxy os dialA A p clientPort apiCert apiKey apiCA) (\<lambda>(acfg, aS).
      andthen (sys_Listen os (CHR '':'' # Itoa peeringPort)) (\<lambda>_.
      andthen (sys_Listen os (CHR '':'' # Itoa clientPort)) (\<lambda>_.
      ret (\<lparr>run_host = CHR '':'' # Itoa peeringPort, run_tls = Some pcfg, run_service = pS\<rparr>,
           \<lparr>run_host = CHR '':'' # Itoa clientPort, run_tls = Some acfg, run_service = aS\<rparr>)))))))"

text \<open>cmd/alexandra and cmd/simpletrigger.\<close>

record alexandra_config =
  lightHouse :: string
  caCert :: string
  alexandraCert :: string
  alexandraKey :: string
  nodesCert :: string
  nodesKey :: string
  loglevel :: string
  logHandler :: string
  c_isProxied :: bool
  c_proxyHost :: string
  address :: string

definition alexandra ::
  "'w sys \<Rightarrow> (tlsConfig \<Rightarrow> string \<Rightarrow> ('w, nat) op) \<Rightarrow> ('w, 'c, 'md) AlexandraServer \<Rightarrow> alexandra_config \<Rightarrow>
   ('w, ('w, 'c, 'md) AlexandraServer running) op" where
  "alexandra os dial A c =
     andthen (check_handler (logHandler c)) (\<lambda>_.
     alexandra_NewServer os dial A (address c) (caCert c) (alexandraCert c) (alexandraKey c) (nodesCert c)
       (nodesKey c) (lightHouse c) (c_isProxied c) (c_proxyHost c))"

definition simpletrigger ::
  "'w sys \<Rightarrow> ('w \<Rightarrow> TriggerServer) \<Rightarrow> (TriggerServer \<Rightarrow> 'w \<Rightarrow> 'w) \<Rightarrow> string \<Rightarrow> string \<Rightarrow> string \<Rightarrow> string \<Rightarrow> string \<Rightarrow> string \<Rightarrow>
   ('w, unit running \<times> ('w, string) op running) op" where
  "simpletrigger os get_log set_log host wsHost level crt key ca =
     andthen (check_handler level) (\<lambda>_. startServer os get_log set_log crt key ca host wsHost)"

section \<open>Facts\<close>

lemma bind_result_OkE:
  assumes "bind_result r f = Ok y"
  obtains x where "r = Ok x" "f x = Ok y"
  using assms by (auto simp: bind_result_def split: result.splits)

text \<open>A server whose clients have to show a certificate issued under the CA file it was started with.\<close>

definition guarded :: "'w sys \<Rightarrow> string \<Rightarrow> 'svc running \<Rightarrow> bool" where
  "guarded os ca r \<longleftrightarrow> (\<exists>cfg. run_tls r = Some cfg \<and> MinVersion cfg = VersionTLS12) \<and>
     (\<exists>pem. sys_ReadFile os ca = Ok pem \<and>
        (\<forall>crt. admits os r crt \<longleftrightarrow>
           (\<exists>c. crt = Some c \<and> sys_Verify os \<lparr>cp_system = False, cp_certs = sys_CertsFromPEM os pem\<rparr> c [] = None)))"

lemma server_config_Ok:
  assumes "server_config os crt key ca = Ok (cfg, pool)"
  shows "\<exists>pem. sys_ReadFile os ca = Ok pem \<and> pool = \<lparr>cp_system = False, cp_certs = sys_CertsFromPEM os pem\<rparr> \<and>
    ClientAuth cfg = RequireAndVerifyClientCert \<and> ClientCAs cfg = Some pool \<and> MinVersion cfg = VersionTLS12"
  using assms
  by (auto simp: server_config_def NewCertPool_def elim!: bind_result_OkE split: result.splits)

lemma proxy_config_Ok:
  assumes "proxy_config os crt key ca = Ok (cfg, pool)"
  shows "\<exists>pem. sys_ReadFile os ca = Ok pem \<and> pool = \<lparr>cp_system = False, cp_certs = sys_CertsFromPEM os pem\<rparr> \<and>
    ClientAuth cfg = RequireAndVerifyClientCert \<and> ClientCAs cfg = Some pool \<and> MinVersion cfg = VersionTLS12"
  using assms by (auto simp: proxy_config_def elim!: bind_result_OkE dest!: server_config_Ok)

lemma guardedI:
  assumes "\<exists>pem. sys_ReadFile os ca = Ok pem \<and> pool = \<lparr>cp_system = False, cp_certs = sys_CertsFromPEM os pem\<rparr> \<and>
    ClientAuth cfg = RequireAndVerifyClientCert \<and> ClientCAs cfg = Some pool \<and> MinVersion cfg = VersionTLS12"
  shows "guarded os ca \<lparr>run_host = h, run_tls = Some cfg, run_service = svc\<rparr>"
  using assms by (auto simp: guarded_def admits_def accepts_def split: option.split)

lemma peering_NewServer_guarded:
  "peering_NewServer os host h crt key ca w = (Ok r, w') \<Longrightarrow> guarded os ca r \<and> run_service r = h \<and> run_host r = host"
  by (auto simp: peering_NewServer_def op_runs elim!: andthen_OkE split: prod.splits
      intro!: guardedI dest!: server_config_Ok)

text \<open>The certificates that the requests are checked against are those of the connection.\<close>

lemma api_NewServer_guarded:
  assumes "api_NewServer os g host h crt key ca proxied proxy w = (Ok r, w')"
  shows "guarded os ca r \<and> s_e (run_service r) = h \<and> s_isProxied (run_service r) = proxied \<and>
    (\<exists>pem. sys_ReadFile os ca = Ok pem \<and>
       s_roots (run_service r) = sys_Verify os \<lparr>cp_system = False, cp_certs = sys_CertsFromPEM os pem\<rparr>)"
  using assms
  by (auto simp: api_NewServer_def op_runs elim!: andthen_OkE split: prod.splits
      intro!: guardedI dest!: server_config_Ok)

lemma storageserver_guarded:
  "storageserver os L path host lh crt key ca w = (Ok r, w') \<Longrightarrow> guarded os ca r"
  by (auto simp: storageserver_def op_runs elim!: andthen_OkE split: prod.splits intro!: guardedI dest!: server_config_Ok)

lemma fredproxy_guarded:
  "fredproxy os dialA dialP A P cport pport ms lh pcrt pkey pca acrt akey aca w = (Ok (rp, ra), w') \<Longrightarrow>
   guarded os pca rp \<and> guarded os aca ra"
  by (auto simp: fredproxy_def StartPeeringProxy_def StartAPIProxy_def Let_def op_runs elim!: andthen_OkE
      split: prod.splits intro!: guardedI dest!: proxy_config_Ok)

lemma alexandra_guarded: "alexandra os dial A c w = (Ok r, w') \<Longrightarrow> guarded os (caCert c) r"
  by (auto simp: alexandra_def alexandra_NewServer_def op_runs elim!: andthen_OkE split: prod.splits
      intro!: guardedI dest!: server_config_Ok)

lemma simpletrigger_guarded:
  "simpletrigger os get_log set_log host ws lvl crt key ca w = (Ok (r, page), w') \<Longrightarrow>
   guarded os ca r \<and> run_host page = ws \<and> admits os page c \<and>
   run_service page w'' = (Ok (log_json (sys_QuoteJSON os) (get_log w'')), w'')"
  by (auto simp: simpletrigger_def startServer_def admits_def op_runs elim!: andthen_OkE split: prod.splits
      intro!: guardedI dest!: server_config_Ok)

lemma serve_node_guarded:
  assumes "serve_node os L fc store f w = (Ok nd, w')"
  shows "guarded os (Peering_CA (Peering fc)) (nd_peering nd) \<and> guarded os (Server_CA (Server fc)) (nd_api nd) \<and>
    run_service (nd_peering nd) = F_I f \<and> s_e (run_service (nd_api nd)) = F_E f \<and>
    s_isProxied (run_service (nd_api nd)) = isProxied fc \<and> nd_fred nd = f"
  using assms
  by (auto simp: serve_node_def op_runs elim!: andthen_OkE dest!: peering_NewServer_guarded api_NewServer_guarded)

lemma frednode_guarded:
  "frednode os L fc w = (Ok nd, w') \<Longrightarrow>
   guarded os (Peering_CA (Peering fc)) (nd_peering nd) \<and> guarded os (Server_CA (Server fc)) (nd_api nd)"
  by (auto simp: frednode_def elim!: andthen_OkE dest!: serve_node_guarded)

text \<open>With the certificates for triggers in place the node is set up as in \<open>Handlers\<close>.\<close>

lemma fred_New_loaded:
  fixes c :: "'w Config"
  assumes "newTriggerService os dial (c_Trigger c) (newStoreService (c_Store c)) crt key cas = Ok t"
  shows "fred_New os dial crt key cas c = New (c\<lparr>c_Trigger := t_tc t\<rparr>)"
proof -
  have "register (c\<lparr>c_Trigger := x\<rparr>) = register c" "recover (c\<lparr>c_Trigger := x\<rparr>) = recover c" for x
    by (cases c, simp add: register_def, cases c, simp add: recover_def fun_eq_iff cong: prod.case_cong if_cong)
  moreover have "(of_result (Ok t) :: ('w, 'w triggerService) op) = ret t" by (simp add: fun_eq_iff op_runs)
  ultimately show ?thesis by (simp add: fred_New_def New_def assms)
qed

lemma frednode_run:
  assumes "connect_node os L fc w0 = (Ok (store, c), w)"
    and "newTriggerService os (l_trigger_dial L) (c_Trigger c) (newStoreService (c_Store c)) (Trigger_Cert (Trigger fc))
         (Trigger_Key (Trigger fc)) (split_on CHR '','' (Trigger_CA (Trigger fc))) = Ok t"
    and "New (c\<lparr>c_Trigger := t_tc t\<rparr>) w = (Ok f, w')"
  shows "frednode os L fc w0 = serve_node os L fc store f w'"
  using assms by (simp add: frednode_def fred_New_loaded)

text \<open>The servers come up when their certificates load and their addresses are free.\<close>

lemma serve_node_runs:
  assumes "server_config os (Peering_Cert (Peering fc)) (Peering_Key (Peering fc)) (Peering_CA (Peering fc)) = Ok (pcfg, pp)"
    and "sys_Listen os (Peering_Host (Peering fc)) w = (Ok (), w1)"
    and "server_config os (Server_Cert (Server fc)) (Server_Key (Server fc)) (Server_CA (Server fc)) = Ok (acfg, ap)"
    and "isProxied fc \<Longrightarrow> \<exists>h p. SplitHostPort (Server_Proxy (Server fc)) = Ok (h, p)"
    and "sys_Listen os (Server_Host (Server fc)) w1 = (Ok (), w2)"
  shows "\<exists>nd. serve_node os L fc store f w = (Ok nd, w2)"
proof -
  obtain hp where "(case SplitHostPort (Server_Proxy (Server fc)) of Ok hp \<Rightarrow> Ok hp
      | Err e \<Rightarrow> if isProxied fc then Err e else Ok ([], []) | Panic \<Rightarrow> Panic) = Ok hp"
    using assms(4) SplitHostPort_no_Panic [of "Server_Proxy (Server fc)"]
    by (cases "SplitHostPort (Server_Proxy (Server fc))"; cases "isProxied fc") auto
  with assms(1-3,5) show ?thesis
    by (simp add: serve_node_def peering_NewServer_def api_NewServer_def andthen_def attempt_def op_runs split: prod.split)
qed

lemma serve_node_stops:
  assumes "server_config os (Peering_Cert (Peering fc)) (Peering_Key (Peering fc)) (Peering_CA (Peering fc)) = Ok pcfg"
    and "sys_Listen os (Peering_Host (Peering fc)) w = (Ok (), w1)"
    and "server_config os (Server_Cert (Server fc)) (Server_Key (Server fc)) (Server_CA (Server fc)) = Err e"
  shows "serve_node os L fc store f w = (Err e, w1)"
  using assms
  by (cases pcfg)
     (simp add: serve_node_def peering_NewServer_def api_NewServer_def andthen_def attempt_def op_runs)

text \<open>The peering server uses the files of the peering client, which have been read before.\<close>

lemma peering_certs:
  assumes "connect_node os L fc w = (Ok x, w')"
  shows "\<exists>pcfg. server_config os (Peering_Cert (Peering fc)) (Peering_Key (Peering fc)) (Peering_CA (Peering fc)) = Ok pcfg"
  using assms
  by (auto simp: connect_node_def peering_NewClient_def client_config_def server_config_def op_runs bind_result_def
      elim!: andthen_OkE split: option.splits result.splits)

end
