(* ===== verification/Command_Properties.thy ===== *)
theory Command_Properties
  imports Commands Replica_Witnesses Proxy_Reference
begin

text \<open>
  Properties of the commands: who can connect to the servers they start, and what the start of a
  node means for the cluster. The commands are run on the executable cluster.
\<close>

section \<open>Who can connect\<close>

text \<open>C20: every gRPC server that one of the commands starts speaks TLS 1.2 or later and accepts a
  connection exactly when the client shows a certificate that verifies against the CA file given for
  that server: the peering and the client interface of a node, both sides of the proxy, the storage
  server, the middleware and the trigger node. The one other server is the HTTP page of the trigger
  node: it admits everyone, with or without a certificate, and answers with the log of all the
  updates and deletions the node was told of, values included, changing nothing.\<close>

theorem servers_guarded:
  "(frednode os L fc w1 = (Ok nd, w1') \<longrightarrow>
      guarded os (Peering_CA (Peering fc)) (nd_peering nd) \<and> guarded os (Server_CA (Server fc)) (nd_api nd)) \<and>
   (fredproxy os dialA dialP A P cport pport ms lh pcrt pkey pca acrt akey aca w2 = (Ok (rp, ra), w2') \<longrightarrow>
      guarded os pca rp \<and> guarded os aca ra) \<and>
   (storageserver os L path host lh crt key ca w3 = (Ok rs, w3') \<longrightarrow> guarded os ca rs) \<and>
   (alexandra os dial Al c w4 = (Ok rl, w4') \<longrightarrow> guarded os (caCert c) rl) \<and>
   (simpletrigger os get_log set_log host ws lh crt key ca w5 = (Ok (rt, page), w5') \<longrightarrow>
      guarded os ca rt \<and> run_host page = ws \<and>
      (\<forall>c w. admits os page c \<and> run_service page w = (Ok (log_json (sys_QuoteJSON os) (get_log w)), w)))"
  by (intro conjI impI allI)
     (blast dest: frednode_guarded fredproxy_guarded storageserver_guarded alexandra_guarded simpletrigger_guarded)+

section \<open>The start of a node\<close>


section \<open>On the executable cluster\<close>

text \<open>Files of certificates, an address space without conflicts, and the libraries of the cluster.\<close>

definition rsys :: "string list \<Rightarrow> 'w sys" where
  "rsys files = \<lparr>
     sys_ReadFile = (\<lambda>f. if f \<in> set files then Ok f else Err (Raw ''no such file'')),
     sys_X509KeyPair = (\<lambda>c k. None),
     sys_CertsFromPEM = (\<lambda>pem. [\<lparr>CommonName = pem, serial = 7\<rparr>]),
     sys_SystemCertPool = Ok (),
     sys_Verify = (\<lambda>p c dns. if cp_certs p = [] then Some (Raw ''unknown authority'') else rpool c dns),
     sys_Listen = (\<lambda>host. ret ()),
     sys_QuoteJSON = (\<lambda>s. CHR 0x22 # s @ [CHR 0x22])\<rparr>"

definition retcd :: "world etcd_libs" where
  "retcd = \<lparr>et_ClientConfig = (\<lambda>c k ca. Ok \<lparr>Certificates = [], ClientAuth = NoClientCert, ClientCAs = None,
       RootCAs = None, MinVersion = VersionTLS12\<rparr>),
     et_New = (\<lambda>eps cfg. ret (ref_etcd w_kv set_kv)), et_NewCache = ret ()\<rparr>"

definition no_dynamo :: "(world, unit) dynamo" where
  "no_dynamo = (let off = fail (Raw ''no table'') in \<lparr>d_table = [], d_NewSession = (\<lambda>r. ret ()),
     d_DescribeTable = (\<lambda>t. fail (Raw ''no table'')), d_GetItem = (\<lambda>t k. fail (Raw ''no table'')),
     d_PutItem = (\<lambda>t v. off), d_DeleteItem = (\<lambda>t k. off), d_Scan = (\<lambda>t f n. fail (Raw ''no table'')),
     d_Build = (\<lambda>f. Ok ()), d_Marshal = (\<lambda>r. Ok ()), d_Unmarshal = (\<lambda>v. Ok ([], [])),
     d_UnmarshalKey = (\<lambda>v. Ok []), d_Now = ret 0, d_range = id\<rparr>)"

text \<open>Node \<open>m\<close> of the cluster, with a database that is opened as it was left.\<close>

definition rlibs :: "string list \<Rightarrow> string \<Rightarrow> (world, memdb, unit, rcontext, metadata) node_libs" where
  "rlibs S m = \<lparr>l_Open = (\<lambda>mem path. gets (\<lambda>w. bdb (w_db w m))), l_badger = memB,
     l_storage = db_of m, l_set_storage = set_db m, l_dynamo = no_dynamo,
     l_storage_dial = (\<lambda>cfg host. fail (Raw ''no such host'')),
     l_peers = rclient S m, l_peer_dial = (\<lambda>cfg. g_Dial (rgrpc S)), l_etcd = retcd,
     l_triggers = rtrigger, l_trigger_dial = (\<lambda>cfg. tr_Dial rtrigger), l_grpc = rctx, l_range = id\<rparr>"

definition rflags :: "string \<Rightarrow> fredConfig" where
  "rflags m = flag_defaults\<lparr>General := \<lparr>General_nodeID = m\<rparr>,
     Storage := \<lparr>Storage_Adaptor = ''badgerdb''\<rparr>, Bdb := \<lparr>Bdb_Path = ''db''\<rparr>,
     Server := \<lparr>Server_Host = m, Server_Proxy = [], Server_Cert = ''crt'', Server_Key = ''key'', Server_CA = ''ca''\<rparr>,
     Peering := \<lparr>Peering_Host = m, Peering_Proxy = [], Peering_Cert = ''crt'', Peering_Key = ''key'', Peering_CA = ''ca''\<rparr>,
     Trigger := \<lparr>Trigger_Cert = ''crt'', Trigger_Key = ''key'', Trigger_CA = ''ca''\<rparr>\<rparr>"

abbreviation disk :: "string list" where
  "disk \<equiv> [''crt'', ''key'', ''ca'']"

abbreviation wsys :: "world sys" where
  "wsys \<equiv> rsys disk"

abbreviation tsys :: "TriggerServer sys" where
  "tsys \<equiv> rsys disk"

lemma rflags_simps [simp]:
  "storage_of (rflags m) = Some (Badgerdb_New ''db'')" "General_nodeID (General (rflags m)) = m"
  "Server (rflags m) = \<lparr>Server_Host = m, Server_Proxy = [], Server_Cert = ''crt'', Server_Key = ''key'', Server_CA = ''ca''\<rparr>"
  "Peering (rflags m) = \<lparr>Peering_Host = m, Peering_Proxy = [], Peering_Cert = ''crt'', Peering_Key = ''key'', Peering_CA = ''ca''\<rparr>"
  "Trigger (rflags m) = \<lparr>Trigger_Cert = ''crt'', Trigger_Key = ''key'', Trigger_CA = ''ca''\<rparr>"
  "NaSe_Cached (NaSe (rflags m)) = False" "isProxied (rflags m) = False"
  by (simp_all add: storage_of_def isProxied_def rflags_def flag_defaults_def)

lemma rconfigs:
  "server_config (rsys disk) ''crt'' ''key'' ''ca'' = Ok (\<lparr>Certificates = [(''crt'', ''key'')],
     ClientAuth = RequireAndVerifyClientCert, ClientCAs = Some \<lparr>cp_system = False, cp_certs = [\<lparr>CommonName = ''ca'', serial = 7\<rparr>]\<rparr>,
     RootCAs = None, MinVersion = VersionTLS12\<rparr>, \<lparr>cp_system = False, cp_certs = [\<lparr>CommonName = ''ca'', serial = 7\<rparr>]\<rparr>)"
  "client_config (rsys disk) ''crt'' ''key'' [''ca''] = Ok \<lparr>Certificates = [(''crt'', ''key'')],
     ClientAuth = NoClientCert, ClientCAs = None,
     RootCAs = Some \<lparr>cp_system = True, cp_certs = [\<lparr>CommonName = ''ca'', serial = 7\<rparr>]\<rparr>, MinVersion = VersionTLS12\<rparr>"
  by (simp_all add: server_config_def client_config_def bind_result_def LoadX509KeyPair_def rsys_def NewCertPool_def)

text \<open>The world after the process of node \<open>m\<close> was started: no open sequence and no connection.\<close>

definition reopened :: "string \<Rightarrow> world \<Rightarrow> world" where
  "reopened m w = w\<lparr>w_db := (w_db w)(m := (w_db w m)\<lparr>bseq := Map.empty\<rparr>), w_conn := (w_conn w)(m := [])\<rparr>"

lemma reopened_views:
  "rinv w \<Longrightarrow> rinv (reopened m w)" "rsv k (reopened m w) = rsv k w" "rnv (reopened m w) = rnv w"
  by (auto simp: reopened_def rinv_def binv_def conns_ok_def rsv_def rnv_def bstore_view_def blive_def
      cong: if_cong)

lemma rnode_connects:
  "connect_node wsys (rlibs S m) (rflags m) w = (Ok (rstore m, rnode S m), reopened m w)"
  by (simp add: connect_node_def open_store_def badgerdb_New_def badgerdb_open_def peering_NewClient_def rconfigs
      NewNameService_def andthen_def attempt_def op_runs node_Config_def rnode_def rnase_def)
     (simp add: rlibs_def retcd_def ref_nase_def rstore_def rclient_def db_of_def set_db_def reopened_def op_runs)

lemma rtriggers: "newTriggerService wsys (l_trigger_dial (rlibs S m)) (c_Trigger (rnode S m))
    (newStoreService (c_Store (rnode S m))) (Trigger_Cert (Trigger (rflags m))) (Trigger_Key (Trigger (rflags m)))
    (split_on CHR '','' (Trigger_CA (Trigger (rflags m)))) =
  Ok \<lparr>t_tc = rtrigger, t_s = newStoreService (rstore m)\<rparr>"
  by (simp add: newTriggerService_def rconfigs bind_result_def rlibs_def rtrigger_def)

lemma rsys_listen: "sys_Listen (rsys files) h w = (Ok (), w)"
  by (simp add: rsys_def op_runs)

lemma rnode_self: "rnode S m = (rnode S m)\<lparr>c_Trigger := t_tc \<lparr>t_tc = rtrigger, t_s = newStoreService (rstore m)\<rparr>\<rparr>"
  by (simp add: rnode_def)

lemma away_agreed: "agreed (set rhosts) (\<lambda>m. m) (rup ABC) ''C'' (\<lambda>k. rsv k away) (rnv away) ''kg'' ''a'' ''1''"
  by (simp add: agreed_def away_views report_nv_def rup_def rhosts_def upd_item_fields)

lemma away_registered: "registered (set rhosts) (\<lambda>m. m) (report_nv ''C'' ''kg'' ''a'' townU)"
  using town_placed(2) unfolding registered_def report_nv_def by (simp del: townU_simps)


lemma rnode_runs: "\<exists>nd w. frednode wsys (rlibs AB ''A'') (rflags ''A'') town = (Ok nd, w)"
proof -
  have "\<exists>w'. New (rnode AB ''A'') (reopened ''A'' town) = (Ok (services (rnode AB ''A'')), w')"
    using restart_effect [OF refc nodes3(1) reopened_views(1) [OF town_views(1)], of "''A''"] rnode_addr
    by (auto simp: reopened_views town_views)
  then obtain w' where "New (rnode AB ''A'') (reopened ''A'' town) = (Ok (services (rnode AB ''A'')), w')" by blast
  from frednode_run [OF rnode_connects rtriggers, folded rnode_self, OF this]
  have "frednode wsys (rlibs AB ''A'') (rflags ''A'') town =
    serve_node wsys (rlibs AB ''A'') (rflags ''A'') (rstore ''A'') (services (rnode AB ''A'')) w'" .
  with serve_node_runs [of wsys "rflags ''A''"] show ?thesis
    by (fastforce simp: rsys_listen rconfigs)
qed

text \<open>All commands run on this environment, and their servers accept certificate 1 and no other peer.\<close>

definition rmiddleware :: "(world, rcontext, metadata) AlexandraServer" where
  "rmiddleware = \<lparr>al_roots = rpool, al_isProxied = False, al_proxyHost = [],
     al_clientsMgr = \<lparr>cm_clients = (\<lambda>w. w_conn w ''m''), cm_set_clients = (\<lambda>cs w. w\<lparr>w_conn := (w_conn w)(''m'' := cs)\<rparr>),
       cm_Dial = (\<lambda>h. ret 0)\<rparr>, al_lighthouse = [], al_grpc = rctx, al_invoke = (\<lambda>h ctx q. fail (Raw ''off''))\<rparr>"

definition rmidflags :: alexandra_config where
  "rmidflags = \<lparr>lightHouse = ''A'', caCert = ''ca'', alexandraCert = ''crt'', alexandraKey = ''key'', nodesCert = ''crt'',
     nodesKey = ''key'', loglevel = ''debug'', logHandler = ''prod'', c_isProxied = False, c_proxyHost = [], address = ''M''\<rparr>"

lemma rcommands:
  "\<exists>rp ra w. fredproxy wsys (\<lambda>cfg h. ret 0) (\<lambda>cfg h. ret 0) (rproxy AB) (rpeering AB) 9 10 ''A,B'' ''dev''
     ''crt'' ''key'' ''ca'' ''crt'' ''key'' ''ca'' boot = (Ok (rp, ra), w)"
  "\<exists>r w. storageserver wsys (rlibs AB ''S'') ''db'' ''S'' ''dev'' ''crt'' ''key'' ''ca'' boot = (Ok r, w)"
  "\<exists>r w. alexandra wsys (\<lambda>cfg h. ret 0) rmiddleware rmidflags boot = (Ok r, w)"
  "\<exists>r page w. simpletrigger tsys (\<lambda>s. s) (\<lambda>s _. s) ''S'' ''ws'' ''dev'' ''crt'' ''key'' ''ca'' \<lparr>tlog = []\<rparr> =
     (Ok (r, page), w)"
  by (simp_all add: fredproxy_def storageserver_def alexandra_def simpletrigger_def check_handler_def log_handlers_def
      StartPeeringProxy_def StartAPIProxy_def alexandra_NewServer_def newClientsManager_def startServer_def
      proxy_config_def badgerdb_New_def badgerdb_open_def rmidflags_def rconfigs bind_result_def Let_def
      andthen_def attempt_def op_runs rsys_listen)
     (simp add: rlibs_def op_runs)

lemma guarded_accepts:
  "guarded wsys ''ca'' r \<Longrightarrow> admits wsys r c \<longleftrightarrow> (\<exists>x. c = Some x \<and> serial x = 1)"
  "guarded tsys ''ca'' r \<Longrightarrow> admits tsys r c \<longleftrightarrow> (\<exists>x. c = Some x \<and> serial x = 1)"
  by (auto simp: guarded_def rsys_def rpool_def)

theorem servers_guarded_witness:
  "(\<exists>nd w. frednode wsys (rlibs AB ''A'') (rflags ''A'') town = (Ok nd, w) \<and>
      (\<forall>c. admits wsys (nd_api nd) c \<longleftrightarrow> (\<exists>x. c = Some x \<and> serial x = 1))) \<and>
   (\<exists>rp ra w. fredproxy wsys (\<lambda>cfg h. ret 0) (\<lambda>cfg h. ret 0) (rproxy AB) (rpeering AB) 9 10 ''A,B'' ''dev''
        ''crt'' ''key'' ''ca'' ''crt'' ''key'' ''ca'' boot = (Ok (rp, ra), w) \<and>
      (\<forall>c. admits wsys ra c \<longleftrightarrow> (\<exists>x. c = Some x \<and> serial x = 1))) \<and>
   (\<exists>r w. storageserver wsys (rlibs AB ''S'') ''db'' ''S'' ''dev'' ''crt'' ''key'' ''ca'' boot = (Ok r, w) \<and>
      \<not> admits wsys r None) \<and>
   (\<exists>r w. alexandra wsys (\<lambda>cfg h. ret 0) rmiddleware rmidflags boot = (Ok r, w) \<and>
      \<not> admits wsys r None) \<and>
   (\<exists>r page w. simpletrigger tsys (\<lambda>s. s) (\<lambda>s _. s) ''S'' ''ws'' ''dev'' ''crt'' ''key'' ''ca'' \<lparr>tlog = []\<rparr> =
        (Ok (r, page), w) \<and>
      \<not> admits tsys r None \<and> admits tsys page None \<and> run_service page \<lparr>tlog = []\<rparr> = (Ok ''[]'', \<lparr>tlog = []\<rparr>))"
proof -
  note node = servers_guarded [THEN conjunct1, THEN mp]
    and proxy = servers_guarded [THEN conjunct2, THEN conjunct1, THEN mp]
    and storage = servers_guarded [THEN conjunct2, THEN conjunct2, THEN conjunct1, THEN mp]
    and middleware = servers_guarded [THEN conjunct2, THEN conjunct2, THEN conjunct2, THEN conjunct1, THEN mp]
    and trigger = servers_guarded [THEN conjunct2, THEN conjunct2, THEN conjunct2, THEN conjunct2, THEN mp]
  obtain nd w1 where nd: "frednode wsys (rlibs AB ''A'') (rflags ''A'') town = (Ok nd, w1)" using rnode_runs by blast
  moreover have "guarded wsys ''ca'' (nd_api nd)" using node [OF nd] by simp
  moreover obtain rt page wt where rt: "simpletrigger tsys (\<lambda>s. s) (\<lambda>s _. s) ''S'' ''ws'' ''dev'' ''crt'' ''key'' ''ca''
    \<lparr>tlog = []\<rparr> = (Ok (rt, page), wt)" using rcommands(4) by blast
  moreover have "\<not> admits tsys rt None \<and> admits tsys page None \<and>
      run_service page \<lparr>tlog = []\<rparr> = (Ok ''[]'', \<lparr>tlog = []\<rparr>)"
    using trigger [OF rt] by (simp add: guarded_accepts log_json_def)
  ultimately show ?thesis
    using rcommands(1) proxy [of wsys] rcommands(2) storage [of wsys] rcommands(3) middleware [of wsys _ _ rmidflags]
    by (intro conjI; fastforce simp: guarded_accepts rmidflags_def)
qed

end
