(* ===== verification/Spec2Isabelle.thy ===== *)
theory Spec2Isabelle
  imports Remote_Properties Dynamo_Properties Trigger_Node Alexandra Nase_Witnesses Api_Witnesses
    Nase_Cache Command_Properties
begin

text \<open>
  A verification of FReD, a replicated key-value store for the fog in Go. Items live in
  keygroups; a keygroup is replicated on the nodes that are its members; a naming service knows
  nodes, keygroups, members and the permissions of users.

  \<^bold>\<open>The program and its model.\<close> A node (pkg/fred) is built from services around three interfaces:
  \<^verbatim>\<open>fred.Store\<close> (its storage backend), \<^verbatim>\<open>fred.NameService\<close> (shared by all nodes) and \<^verbatim>\<open>fred.Client\<close>
  (messages to other nodes). Clients call the external handler through the server of pkg/api, other
  nodes the internal handler through the server of pkg/peering. A Go call is an operation
  \<open>'w \<Rightarrow> 'a result \<times> 'w\<close> on a world \<open>'w\<close>, and a result is a value, an error or a panic; loops over
  slices are structural recursions, a Go map is an association list with distinct keys in the order
  in which \<^verbatim>\<open>range\<close> visits it. An interface value is a record of operations. Code that is not in the
  repository (BadgerDB, the etcd client and its cache, the AWS SDK, gRPC and the stubs it generates,
  certificate verification, the hash of the proxy) is a parameter, again a record of operations,
  and a locale states what its documentation promises.

  \<^bold>\<open>Theories.\<close>
  \<^item> \<open>Prelude\<close>: operations and their rules (\<open>keeps\<close>, \<open>wp\<close>, \<open>triple\<close>), strings, numbers, maps.
    \<open>Transport\<close>: what a gRPC call does, over a working connection and over a broken one.
    \<open>World_Parts\<close>: an operation on a part of the world.
  \<^item> \<open>Fred_Types\<close>: item.go, keygroup.go, node.go, methods.go, roles.go, validation.go and the
    three interfaces.
  \<^item> Storage. \<open>Store_Contract\<close>: the locale \<open>store_spec\<close>, the contract of \<^verbatim>\<open>fred.Store\<close> over an
    abstract view (items, keygroups, triggers), and its extension \<open>log_store\<close> by fresh identifiers
    while the log of a keygroup is in order. \<open>Badger_Storage\<close>: pkg/badgerdb. \<open>Badger_Correct\<close>: it
    implements the contract. \<open>Badger_Reference\<close>: an executable database that satisfies the promises.
    \<open>Badger_Properties\<close>. \<open>Remote_Storage\<close>, \<open>Remote_Properties\<close>: pkg/storageserver and
    pkg/storageclient; a client over a working connection implements the contract of the store
    behind the server again, so every theorem on a node holds with a remote store as well.
    \<open>Dynamo_Storage\<close>, \<open>Dynamo_Correct\<close>, \<open>Dynamo_Properties\<close>: pkg/dynamo; it does not implement the
    contract, and the theorems say what it does instead. The code reads with the default consistency
    of DynamoDB, so the theorems speak of reads of a table whose copies agree (\<open>settled\<close>).
  \<^item> \<open>Store_Service\<close>: storeservice.go. \<open>Trigger_Service\<close>: trigger.go. \<open>Trigger_Node\<close>:
    cmd/simpletrigger with its log page, and both together over a network that may lose calls.
  \<^item> Naming service. \<open>Nase_Contract\<close>: the locale \<open>nase_spec\<close> over keygroups, members, the addresses of
    nodes for peers and for clients, permissions and missed updates. \<open>Etcd_Nase\<close>: pkg/etcdnase, cached and
    uncached. \<open>Etcd_Keys\<close>: its keys as paths. \<open>Etcd_Correct\<close>: the uncached service implements the
    contract. \<open>Etcd_Reference\<close>, \<open>Nase_Properties\<close>, \<open>Nase_Witnesses\<close>. \<open>Nase_Cache\<close>: the cached service
    simulates the uncached one.
  \<^item> \<open>Auth_Service\<close>: auth.go. \<open>Replication_Service\<close>: replicationservice.go. \<open>Handlers\<close>: exthandler.go,
    inthandler.go and fred.go. \<open>Peering\<close>: pkg/peering, client and server, and the locale
    \<open>peering_net\<close> of the network between nodes.
  \<^item> Clusters. \<open>Cluster\<close>: the locale \<open>cluster\<close> of several nodes with their stores, one naming service
    and the network, and the services in it. \<open>Cluster_Handlers\<close>, \<open>Cluster_Replicas\<close>,
    \<open>Cluster_Recovery\<close>: every handler, replica management and the start of a node as triples over all
    stores and the naming service at once. \<open>Cluster_Properties\<close>, \<open>Replica_Properties\<close>: the properties.
    \<open>Cluster_Machine\<close>: the cluster as a state machine of all requests of the external handler and
    restarts. \<open>Cluster_Reference\<close>: an
    executable cluster of three nodes. \<open>Cluster_Witnesses\<close>, \<open>Replica_Witnesses\<close>, \<open>Machine_Witnesses\<close>:
    its runs.
  \<^item> In front of nodes. \<open>Api_Server\<close>: pkg/api, with \<^verbatim>\<open>net.SplitHostPort\<close>. \<open>Proxy\<close>, \<open>Proxy_Correct\<close>:
    pkg/proxy. \<open>Alexandra\<close>: pkg/alexandra. \<open>Api_Properties\<close>, \<open>Proxy_Reference\<close>, \<open>Api_Witnesses\<close>.
  \<^item> Commands. \<open>Node_Config\<close>: the flags of cmd/frednode, their checks and what \<^verbatim>\<open>main\<close> passes on.
    \<open>Tls_Setup\<close>: the constructors of all servers and clients, with the certificates they load.
    \<open>Commands\<close>: what the five commands under cmd/ set up, in their order. \<open>Command_Properties\<close>.

  \<^bold>\<open>What is shown.\<close>
  \<^item> Refinement: badgerdb implements the contract of the store, the storage client over any such
    store does too, and etcdnase without its cache implements the contract of the naming service,
    failures of etcd included.
  \<^item> Replication: an update, append or delete that succeeds is at every member that could be
    reached and is recorded as missed for every other one; a node that comes back asks for what it
    missed and gets every item on which the other members agree; a new replica gets all items; members are never all removed; keygroups are
    created and deleted everywhere.
  \<^item> Permissions: a request without the permission changes nothing; roles grant and revoke exactly their
    methods; in every reachable world a permission comes from creating the keygroup or from somebody
    who may add users, identified by the certificate that the server or the proxy verified; a forged
    user header does not survive the proxy. Where that fails (a user name with the separator), the
    theorem shows the escalation.
  \<^item> Robustness: in every reachable world exactly one request panics, the one for the replicas of a
    keygroup that was deleted while permissions on it were left; a trigger node that fails does not
    keep the others from being told; a lost answer of the remote store means
    no update or the whole update; the proxy always finds a machine.
  \<^item> Cached naming service: every sequence of the calls of \<open>nase_call\<close> gets the answers of the uncached service, also
    with changes by other nodes in between, once their watchers have fired. The lists of all nodes
    and the collection of missed updates are excepted, and \<open>cached_status_stale\<close> shows why.
  \<^item> Start: the command of a node starts the node of the cluster that the other theorems speak about;
    every gRPC server of every command accepts exactly the clients certified under its CA file, and the
    page of the trigger node is open to everyone. An accepted
    configuration names the node and a storage adaptor; the longitude has no lower bound; a node
    with a proxy for peers only registers an empty external address.
  \<^item> Backends: reads after updates, fresh identifiers for appends, scans in order, separation of
    keygroups by their keys; that appends on DynamoDB overwrite each other.

  \<^bold>\<open>Bounds and fuel.\<close> The loop with which badgerdb catches up with an appended identifier has no
  structural measure: \<open>catchUp\<close> takes fuel, and \<open>catchUp_returns\<close> shows that one more than the target
  is always enough. Counts, sequence numbers and hash values are 64-bit words, expiries are
  integers in the range of Go's \<^verbatim>\<open>int\<close> (\<open>int64\<close>), and the expiry stored in DynamoDB wraps as in Go. A
  message stream is finite, as the server's methods send finitely many messages.

  \<^bold>\<open>Assumptions of the cluster theorems.\<close> The naming service answers every call, and dialling a trigger
  node gives a connection (calls on it may fail). Names in requests do not contain the separator of
  the keys. Peers may be unreachable, answers may be lost, trigger nodes may fail, and stores may fail
  where a theorem leaves \<open>hs\<close> open. What a failing etcd does is in the contract of the naming service and
  not followed through the handlers: an error of \<^verbatim>\<open>ReportFailedNode\<close> is only logged by the code, so an
  update missed by a member while etcd is down is lost for it.

  \<^bold>\<open>Not modelled.\<close> Concurrency of requests inside a node (the models run one request at a time; the
  maps of connections and sequences are unprotected in the code). The TLS handshake and the parsing
  of certificates, which are parameters; serving loops and graceful stops of servers, the timer of
  the garbage collection, signals, logging and profiling; the flags of the commands other than
  cmd/frednode (their values are arguments); generated code under proto/; the integration tests. For the cached naming service a failing etcd
  is not covered: a creation that fails between two writes can leave a stale list of members behind.
\<close>

end
